(* ===== verification/Prelude.thy ===== *)
theory Prelude
  imports Main "HOL-Library.AList" "HOL-Library.Multiset"
begin

text \<open>
  Shared vocabulary of the development: what a Go statement can do (return, panic, block),
  the sequencing of statements over an explicit state, loops, the order in which a Go
  map is ranged over, errors as values, machine integers, nil-able slices, and the frame
  calculus \<open>keeps\<close> that the component theories use to show which part of the state an
  operation leaves alone.
\<close>

named_theorems go_simps "evaluation of the statement combinators"
named_theorems keeps_intro "rules for showing that a statement keeps an observation of the state"

section \<open>Outcomes of a Go statement\<close>

text \<open>The run-time panics that the modelled sources can raise.\<close>

datatype go_panic =
    NilDeref            \<comment> \<open>field or method access through a nil pointer\<close>
  | NilMapWrite         \<comment> \<open>assignment to an entry of a nil map\<close>
  | Unhashable          \<comment> \<open>a slice used as the key of a \<open>map[interface{}]\<close>\<close>
  | BadAssertion        \<comment> \<open>a failed single-value type assertion\<close>
  | IndexRange          \<comment> \<open>index or slice bound out of range\<close>
  | CloseNil            \<comment> \<open>close of a nil channel\<close>
  | CloseClosed         \<comment> \<open>close of a closed channel\<close>
  | ReleasedMore        \<comment> \<open>the explicit panic of \<open>semaphore.Release\<close>\<close>
  | NegativeCounter     \<comment> \<open>the explicit panic of \<open>sync.WaitGroup\<close>\<close>
  | UnlockUnheld        \<comment> \<open>the fatal error of \<open>sync\<close> for a mutex that is not locked\<close>

text \<open>
  A statement returns a value, panics, or is blocked in the state it has reached (a receive
  from an empty channel, a send on a full or nil channel, a wait for a counter that is not zero).
\<close>

datatype 'a outcome = Done 'a | Panic go_panic | Blocked

type_synonym ('s, 'a) go = "'s \<Rightarrow> 'a outcome \<times> 's"

definition ret :: "'a \<Rightarrow> ('s, 'a) go" where
  "ret a = (\<lambda>s. (Done a, s))"

definition raise :: "go_panic \<Rightarrow> ('s, 'a) go" where
  "raise p = (\<lambda>s. (Panic p, s))"

definition block :: "('s, 'a) go" where
  "block = (\<lambda>s. (Blocked, s))"

definition gets :: "('s \<Rightarrow> 'a) \<Rightarrow> ('s, 'a) go" where
  "gets f = (\<lambda>s. (Done (f s), s))"

definition modify :: "('s \<Rightarrow> 's) \<Rightarrow> ('s, unit) go" where
  "modify f = (\<lambda>s. (Done (), f s))"

definition andThen :: "('s, 'a) go \<Rightarrow> ('a \<Rightarrow> ('s, 'b) go) \<Rightarrow> ('s, 'b) go" where
  "andThen m f = (\<lambda>s. case m s of
      (Done a, s') \<Rightarrow> f a s'
    | (Panic p, s') \<Rightarrow> (Panic p, s')
    | (Blocked, s') \<Rightarrow> (Blocked, s'))"

text \<open>A pure computation that may panic, run as a statement.\<close>

definition lift :: "'a outcome \<Rightarrow> ('s, 'a) go" where
  "lift r = (\<lambda>s. (r, s))"

text \<open>Sequencing of computations without state.\<close>

fun bindo :: "'a outcome \<Rightarrow> ('a \<Rightarrow> 'b outcome) \<Rightarrow> 'b outcome" where
  "bindo (Done a) f = f a"
| "bindo (Panic p) f = Panic p"
| "bindo Blocked f = Blocked"

lemma ret_apply [simp, go_simps]: "ret a s = (Done a, s)"
  by (simp add: ret_def)

lemma raise_apply [simp, go_simps]: "raise p s = (Panic p, s)"
  by (simp add: raise_def)

lemma block_apply [simp, go_simps]: "block s = (Blocked, s)"
  by (simp add: block_def)

lemma gets_apply [simp, go_simps]: "gets f s = (Done (f s), s)"
  by (simp add: gets_def)

lemma modify_apply [simp, go_simps]: "modify f s = (Done (), f s)"
  by (simp add: modify_def)

lemma lift_apply [simp, go_simps]: "lift r s = (r, s)"
  by (simp add: lift_def)

lemma andThen_apply [go_simps]:
  "andThen m f s = (case m s of
      (Done a, s') \<Rightarrow> f a s'
    | (Panic p, s') \<Rightarrow> (Panic p, s')
    | (Blocked, s') \<Rightarrow> (Blocked, s'))"
  by (simp add: andThen_def)

lemma andThen_Done [simp]: "m s = (Done a, s') \<Longrightarrow> andThen m f s = f a s'"
  by (simp add: andThen_def)

lemma andThen_Panic [simp]: "m s = (Panic p, s') \<Longrightarrow> andThen m f s = (Panic p, s')"
  by (simp add: andThen_def)

lemma andThen_Blocked [simp]: "m s = (Blocked, s') \<Longrightarrow> andThen m f s = (Blocked, s')"
  by (simp add: andThen_def)

lemma andThen_ret [simp]: "andThen (ret a) f = f a"
  by (simp add: fun_eq_iff)

lemma andThen_lift_Done [simp]: "andThen (lift (Done a)) f = f a"
  by (simp add: fun_eq_iff)

lemma andThen_assoc: "andThen (andThen m f) g = andThen m (\<lambda>a. andThen (f a) g)"
  by (auto simp: fun_eq_iff andThen_def split: prod.splits outcome.splits)

lemma andThen_eq_Done_iff:
  "andThen m f s = (Done b, s'') \<longleftrightarrow> (\<exists>a s'. m s = (Done a, s') \<and> f a s' = (Done b, s''))"
  by (auto simp: andThen_def split: prod.splits outcome.splits)

lemma andThen_DoneE [elim]:
  assumes "andThen m f s = (Done b, s'')"
  obtains a s' where "m s = (Done a, s')" and "f a s' = (Done b, s'')"
  using assms by (auto simp: andThen_eq_Done_iff)

text \<open>Whether a statement has returned.\<close>

definition isDone :: "'a outcome \<times> 's \<Rightarrow> bool" where
  "isDone r = (case fst r of Done _ \<Rightarrow> True | _ \<Rightarrow> False)"

lemma isDone_iff: "isDone r \<longleftrightarrow> (\<exists>a s. r = (Done a, s))"
  by (cases r; cases "fst r") (auto simp: isDone_def)

lemma isDone_andThen: "isDone (andThen m f s) \<longleftrightarrow> (\<exists>a s'. m s = (Done a, s') \<and> isDone (f a s'))"
  by (auto simp: isDone_def andThen_def split: prod.splits outcome.splits)

lemma isDone_simps [simp]: "isDone (Done a, s)" "\<not> isDone (Panic p, s)" "\<not> isDone (Blocked, s)"
  by (simp_all add: isDone_def)

lemma andThen_Pair [simp]: "andThen (Pair (Done a)) f = f a"
  by (simp add: fun_eq_iff)

lemma isDone_fails: "\<not> isDone (m s) \<Longrightarrow> \<not> isDone (andThen m f s)"
  by (auto simp: isDone_andThen)

lemma isDone_andThen_ret: "isDone (andThen m (\<lambda>_. ret x) s) = isDone (m s)" "isDone (andThen m ret s) = isDone (m s)"
  by (auto simp: isDone_andThen isDone_iff)

text \<open>A stateless loop whose body updates a local variable and may panic.\<close>

fun foldo :: "('a \<Rightarrow> 'x \<Rightarrow> 'a outcome) \<Rightarrow> 'a \<Rightarrow> 'x list \<Rightarrow> 'a outcome" where
  "foldo f a [] = Done a"
| "foldo f a (x # xs) = bindo (f a x) (\<lambda>a'. foldo f a' xs)"

lemma bindo_eq_Done_iff: "bindo m f = Done b \<longleftrightarrow> (\<exists>a. m = Done a \<and> f a = Done b)"
  by (cases m) auto

section \<open>Loops\<close>

text \<open>\<open>for _, x := range xs \<close> with a body that neither breaks nor returns.\<close>

fun forEach :: "('x \<Rightarrow> ('s, unit) go) \<Rightarrow> 'x list \<Rightarrow> ('s, unit) go" where
  "forEach f [] = ret ()"
| "forEach f (x # xs) = andThen (f x) (\<lambda>_. forEach f xs)"

text \<open>The same loop with local variables \<open>a\<close> that the body updates.\<close>

fun foldEach :: "('a \<Rightarrow> 'x \<Rightarrow> ('s, 'a) go) \<Rightarrow> 'a \<Rightarrow> 'x list \<Rightarrow> ('s, 'a) go" where
  "foldEach f a [] = ret a"
| "foldEach f a (x # xs) = andThen (f a x) (\<lambda>a'. foldEach f a' xs)"

text \<open>A loop that stops as soon as the body reports an error.\<close>

fun foldUntil :: "('a \<Rightarrow> 'x \<Rightarrow> ('s, 'a \<times> 'e option) go) \<Rightarrow> 'a \<Rightarrow> 'x list \<Rightarrow> ('s, 'a) go" where
  "foldUntil f a [] = ret a"
| "foldUntil f a (x # xs) = andThen (f a x) (\<lambda>(a', e).
     case e of None \<Rightarrow> foldUntil f a' xs | Some _ \<Rightarrow> ret a')"

text \<open>When no iteration reports an error the two loops agree.\<close>

lemma foldUntil_no_error:
  "foldUntil (\<lambda>a x. andThen (f a x) (\<lambda>a'. ret (a', None))) a xs = foldEach f a xs"
  by (induction xs arbitrary: a) (simp_all add: andThen_assoc)

section \<open>Frames: what a statement keeps\<close>

definition keeps :: "('s \<Rightarrow> 'v) \<Rightarrow> ('s, 'a) go \<Rightarrow> bool" where
  "keeps f m \<longleftrightarrow> (\<forall>s. f (snd (m s)) = f s)"

lemma keepsD: "keeps f m \<Longrightarrow> m s = (r, s') \<Longrightarrow> f s' = f s"
  by (metis keeps_def snd_conv)

lemma keeps_snd: "keeps f m \<Longrightarrow> f (snd (m s)) = f s"
  by (simp add: keeps_def)

lemma keeps_basic [simp, intro, keeps_intro]:
  "keeps f (ret a)" "keeps f (raise p)" "keeps f block" "keeps f (gets g)" "keeps f (lift r)"
  by (simp_all add: keeps_def)

lemma keeps_modify [keeps_intro]: "(\<And>s. f (g s) = f s) \<Longrightarrow> keeps f (modify g)"
  by (simp add: keeps_def)

lemma keeps_andThen [keeps_intro]:
  assumes "keeps f m" and "\<And>a. keeps f (g a)"
  shows "keeps f (andThen m g)"
  unfolding keeps_def
proof
  fix s
  obtain r s' where ms: "m s = (r, s')" by (cases "m s")
  with assms(1) have "f s' = f s" by (rule keepsD)
  then show "f (snd (andThen m g s)) = f s"
    using ms assms(2) by (cases r) (simp_all add: keeps_snd)
qed

lemma keeps_if [keeps_intro]:
  "(b \<Longrightarrow> keeps f m) \<Longrightarrow> (\<not> b \<Longrightarrow> keeps f n) \<Longrightarrow> keeps f (if b then m else n)"
  by simp

lemma keeps_case_option [keeps_intro]:
  "(x = None \<Longrightarrow> keeps f m) \<Longrightarrow> (\<And>y. x = Some y \<Longrightarrow> keeps f (g y)) \<Longrightarrow>
   keeps f (case x of None \<Rightarrow> m | Some y \<Rightarrow> g y)"
  by (cases x) simp_all

lemma keeps_case_sum [keeps_intro]:
  "(\<And>a. x = Inl a \<Longrightarrow> keeps f (g a)) \<Longrightarrow> (\<And>b. x = Inr b \<Longrightarrow> keeps f (h b)) \<Longrightarrow>
   keeps f (case x of Inl a \<Rightarrow> g a | Inr b \<Rightarrow> h b)"
  by (cases x) simp_all

lemma keeps_case_prod [keeps_intro]:
  "(\<And>a b. x = (a, b) \<Longrightarrow> keeps f (g a b)) \<Longrightarrow> keeps f (case x of (a, b) \<Rightarrow> g a b)"
  by (cases x) simp

lemma keeps_Let [keeps_intro]: "keeps f (g v) \<Longrightarrow> keeps f (Let v g)"
  by (simp add: Let_def)

lemma keeps_forEach [keeps_intro]: "(\<And>x. keeps f (b x)) \<Longrightarrow> keeps f (forEach b xs)"
  by (induction xs) (auto intro: keeps_andThen)

lemma keeps_foldEach [keeps_intro]: "(\<And>a x. keeps f (b a x)) \<Longrightarrow> keeps f (foldEach b a xs)"
  by (induction xs arbitrary: a) (auto intro: keeps_andThen)

lemma keeps_foldUntil [keeps_intro]: "(\<And>a x. keeps f (b a x)) \<Longrightarrow> keeps f (foldUntil b a xs)"
  by (induction xs arbitrary: a)
    (auto intro!: keeps_andThen split: prod.splits option.splits simp: case_prod_beta)

section \<open>Invariants: what a statement preserves\<close>

text \<open>
  \<open>preserves I m\<close>: whatever \<open>m\<close> does (return, panic or block), the state it leaves satisfies
  \<open>I\<close> if the state it found did.
\<close>

named_theorems preserves_intro "rules for showing that a statement preserves an invariant"

definition preserves :: "('s \<Rightarrow> bool) \<Rightarrow> ('s, 'a) go \<Rightarrow> bool" where
  "preserves I m \<longleftrightarrow> (\<forall>s. I s \<longrightarrow> I (snd (m s)))"

lemma preservesD: "preserves I m \<Longrightarrow> I s \<Longrightarrow> m s = (r, s') \<Longrightarrow> I s'"
  by (metis preserves_def snd_conv)

lemma preserves_basic [simp, intro, preserves_intro]:
  "preserves I (ret a)" "preserves I (raise p)" "preserves I block" "preserves I (gets g)"
  "preserves I (lift r)"
  by (simp_all add: preserves_def)

lemma preserves_keeps: "keeps f m \<Longrightarrow> (\<And>s s'. f s' = f s \<Longrightarrow> I s \<Longrightarrow> I s') \<Longrightarrow> preserves I m"
  by (metis keeps_snd preserves_def)

lemma preserves_modify [preserves_intro]: "(\<And>s. I s \<Longrightarrow> I (g s)) \<Longrightarrow> preserves I (modify g)"
  by (simp add: preserves_def)

lemma preserves_andThen [preserves_intro]:
  assumes "preserves I m" and "\<And>a. preserves I (g a)"
  shows "preserves I (andThen m g)"
  unfolding preserves_def
proof (intro allI impI)
  fix s assume "I s"
  obtain r s' where ms: "m s = (r, s')" by (cases "m s")
  with assms(1) \<open>I s\<close> have "I s'" by (blast intro: preservesD)
  with assms(2) have "I (snd (g a s'))" for a by (simp add: preserves_def)
  with ms \<open>I s'\<close> show "I (snd (andThen m g s))" by (cases r) simp_all
qed

lemma preserves_gets_andThen [preserves_intro]:
  "(\<And>s. I s \<Longrightarrow> I (snd (g (f s) s))) \<Longrightarrow> preserves I (andThen (gets f) g)"
  by (simp add: preserves_def)

lemma preserves_if [preserves_intro]:
  "(b \<Longrightarrow> preserves I m) \<Longrightarrow> (\<not> b \<Longrightarrow> preserves I n) \<Longrightarrow> preserves I (if b then m else n)"
  by simp

lemma preserves_case_option [preserves_intro]:
  "(x = None \<Longrightarrow> preserves I m) \<Longrightarrow> (\<And>y. x = Some y \<Longrightarrow> preserves I (g y)) \<Longrightarrow>
   preserves I (case x of None \<Rightarrow> m | Some y \<Rightarrow> g y)"
  by (cases x) simp_all

lemma preserves_case_sum [preserves_intro]:
  "(\<And>a. x = Inl a \<Longrightarrow> preserves I (g a)) \<Longrightarrow> (\<And>b. x = Inr b \<Longrightarrow> preserves I (h b)) \<Longrightarrow>
   preserves I (case x of Inl a \<Rightarrow> g a | Inr b \<Rightarrow> h b)"
  by (cases x) simp_all

lemma preserves_case_list [preserves_intro]:
  "(x = [] \<Longrightarrow> preserves I m) \<Longrightarrow> (\<And>y ys. x = y # ys \<Longrightarrow> preserves I (g y ys)) \<Longrightarrow>
   preserves I (case x of [] \<Rightarrow> m | y # ys \<Rightarrow> g y ys)"
  by (cases x) simp_all

lemma preserves_forEach [preserves_intro]:
  "(\<And>x. x \<in> set xs \<Longrightarrow> preserves I (b x)) \<Longrightarrow> preserves I (forEach b xs)"
  by (induction xs) (auto intro: preserves_andThen)

section \<open>Lists updated by index\<close>

lemma sum_list_update_less:
  fixes f :: "'a \<Rightarrow> nat"
  assumes "i < length xs" and "f y < f (xs ! i)"
  shows "sum_list (map f (xs[i := y])) < sum_list (map f xs)"
  using assms
proof (induction xs arbitrary: i)
  case (Cons x xs)
  then show ?case by (cases i) auto
qed simp

lemma count_update:
  assumes "j < length ts"
  shows "length (filter P (ts[j := t])) + (if P (ts ! j) then 1 else 0) = length (filter P ts) + (if P t then 1 else 0)"
  using assms
proof (induction ts arbitrary: j)
  case (Cons a ts)
  then show ?case by (cases j) auto
qed simp

end
