(* ===== verification/Go_Base.thy ===== *)
theory Go_Base
  imports Prelude
begin

text \<open>
  The run-time objects the sources share: error values, nil-able string slices, 64-bit
  \<open>int\<close> arithmetic, Go maps as association lists with distinct keys and an explicit
  iteration order, and the part of the state common to every component: the outside world
  (the Kubernetes API server and the OpenStack services) and the tape of iteration orders.
\<close>

section \<open>Errors\<close>

text \<open>
  An \<open>error\<close> is \<open>nil\<close> (\<open>None\<close>) or one of: a formatted error with its arguments, a status
  error of the API server, an error of the OpenStack services, a joined error
  (\<open>errors.Join\<close>) or a \<open>backoff.PermanentError\<close>.
\<close>

datatype api_reason = NotFound | AlreadyExists | Conflict | OtherReason string

datatype go_error =
    Errorf string "string list"
  | ApiStatus api_reason
  | InfraError string
  | Joined "go_error list"
  | PermanentError go_error

type_synonym err = "go_error option"

text \<open>\<open>apierrors.IsNotFound\<close>.\<close>

fun IsNotFound :: "go_error \<Rightarrow> bool" where
  "IsNotFound (ApiStatus r) = (r = NotFound)"
| "IsNotFound _ = False"

text \<open>\<open>errors.Join\<close> drops nil errors and returns nil when nothing is left.\<close>

definition errors_Join :: "err \<Rightarrow> err \<Rightarrow> err" where
  "errors_Join a b = (case List.map_filter id [a, b] of [] \<Rightarrow> None | es \<Rightarrow> Some (Joined es))"

lemma errors_Join_None_iff [simp]: "errors_Join a b = None \<longleftrightarrow> a = None \<and> b = None"
  by (cases a; cases b) (simp_all add: errors_Join_def List.map_filter_def)

text \<open>\<open>if err1 != nil { err = errors.Join(err, err1) }\<close>\<close>

definition joinErr :: "err \<Rightarrow> err \<Rightarrow> err" where
  "joinErr a e = (if e \<noteq> None then errors_Join a e else a)"

lemma joinErr_None_iff [simp]: "joinErr a e = None \<longleftrightarrow> a = None \<and> e = None"
  by (simp add: joinErr_def)

section \<open>Slices of strings\<close>

text \<open>
  A \<open>[]string\<close> is nil or a list: \<open>reflect.DeepEqual\<close> and comparison with \<open>nil\<close> tell a nil
  slice from an empty one, ranging over it does not.
\<close>

type_synonym slice = "string list option"

definition elems :: "slice \<Rightarrow> string list" where
  "elems sl = (case sl of None \<Rightarrow> [] | Some xs \<Rightarrow> xs)"

text \<open>A slice built by appending to a nil slice stays nil when nothing is appended.\<close>

definition appended :: "string list \<Rightarrow> slice" where
  "appended xs = (if xs = [] then None else Some xs)"

lemma elems_simps [simp]: "elems None = []" "elems (Some xs) = xs" "elems (appended xs) = xs"
  by (simp_all add: elems_def appended_def)

section \<open>Machine integers\<close>

text \<open>Go's \<open>int\<close> and \<open>int64\<close>: two's complement on 64 bits, arithmetic wraps.\<close>

definition wrap64 :: "int \<Rightarrow> int" where
  "wrap64 x = signed_take_bit 63 x"

definition in_int64 :: "int \<Rightarrow> bool" where
  "in_int64 x \<longleftrightarrow> - (2 ^ 63) \<le> x \<and> x < 2 ^ 63"

lemma wrap64_id [simp]: "in_int64 x \<Longrightarrow> wrap64 x = x"
  by (simp add: wrap64_def in_int64_def signed_take_bit_int_eq_self)

lemma in_int64_wrap64 [simp]: "in_int64 (wrap64 x)"
proof -
  have "- (2 ^ 63) \<le> signed_take_bit 63 x" for x :: int
    by (rule signed_take_bit_int_greater_eq_minus_exp)
  moreover have "signed_take_bit 63 x < 2 ^ 63" for x :: int
    by (rule signed_take_bit_int_less_exp)
  ultimately show ?thesis by (simp add: wrap64_def in_int64_def)
qed

section \<open>Ranging over a Go map\<close>

text \<open>
  The order of a range over a map is unspecified and may differ from one range to the next.
  \<open>pick ns xs\<close> permutes \<open>xs\<close> by taking, at each step, the element the next choice points at;
  every permutation is \<open>pick ns xs\<close> for some choices (\<open>pick_surj\<close>). The state holds a tape of
  choices, one entry per range statement; a theorem about all states is a theorem about all
  iteration orders.
\<close>

fun pick :: "nat list \<Rightarrow> 'a list \<Rightarrow> 'a list" where
  "pick ns [] = []"
| "pick [] xs = xs"
| "pick (n # ns) (x # xs) = (let i = n mod length (x # xs); ys = x # xs
     in ys ! i # pick ns (take i ys @ drop (Suc i) ys))"

lemma pick_Nil [simp]: "pick [] xs = xs"
  by (cases xs) simp_all

lemma mset_pick [simp]: "mset (pick ns xs) = mset xs"
proof (induction ns xs rule: pick.induct)
  case (3 n ns x xs)
  let ?ys = "x # xs" and ?i = "n mod length (x # xs)"
  have "?i < length ?ys" by simp
  then have "?ys = take ?i ?ys @ ?ys ! ?i # drop (Suc ?i) ?ys" by (rule id_take_nth_drop)
  then have "mset ?ys = add_mset (?ys ! ?i) (mset (take ?i ?ys @ drop (Suc ?i) ?ys))"
    by (metis (no_types, lifting) mset.simps(2) mset_append union_mset_add_mset_right)
  moreover have "mset (pick ns (take ?i ?ys @ drop (Suc ?i) ?ys)) =
      mset (take ?i ?ys @ drop (Suc ?i) ?ys)" by (rule 3) simp_all
  ultimately show ?case by (simp only: pick.simps Let_def mset.simps)
qed simp_all

lemma set_pick [simp]: "set (pick ns xs) = set xs"
  by (metis mset_pick set_mset_mset)

lemma length_pick [simp]: "length (pick ns xs) = length xs"
  by (metis mset_pick size_mset)

lemma distinct_pick [simp]: "distinct (pick ns xs) = distinct xs"
  by (metis mset_pick mset_eq_imp_distinct_iff)

lemma pick_surj: "mset ys = mset xs \<Longrightarrow> \<exists>ns. pick ns xs = ys"
proof (induction ys arbitrary: xs)
  case Nil
  then show ?case by simp
next
  case (Cons y ys)
  then have "y \<in> set xs" by (metis list.set_intros(1) set_mset_mset)
  then obtain i where i: "i < length xs" "xs ! i = y" by (auto simp: in_set_conv_nth)
  let ?zs = "take i xs @ drop (Suc i) xs"
  have "mset xs = add_mset y (mset ?zs)"
    using id_take_nth_drop [OF i(1)] i(2)
    by (metis mset.simps(2) mset_append union_mset_add_mset_right)
  with Cons.prems have "mset ys = mset ?zs" by simp
  then obtain ns where "pick ns ?zs = ys" using Cons.IH by blast
  moreover obtain x xs' where "xs = x # xs'" using i(1) by (cases xs) auto
  ultimately have "pick (i # ns) xs = y # ys" using i by (simp add: Let_def)
  then show ?case by blast
qed

text \<open>The state every component extends.\<close>

record 'w base =
  world :: 'w
  tape :: "nat list list"

definition rangeOrder :: "'x list \<Rightarrow> (('w, 'z) base_scheme, 'x list) go" where
  "rangeOrder xs = (\<lambda>s. case tape s of
      [] \<Rightarrow> (Done xs, s)
    | ns # t \<Rightarrow> (Done (pick ns xs), s\<lparr>tape := t\<rparr>))"

lemma rangeOrder_Done:
  obtains ys t where "rangeOrder xs s = (Done ys, s\<lparr>tape := t\<rparr>)" and "mset ys = mset xs"
  by (cases "tape s") (auto simp: rangeOrder_def intro: that [of xs "[]"])

lemma rangeOrder_eq:
  assumes "rangeOrder xs s = (r, s')"
  obtains ys t where "r = Done ys" and "s' = s\<lparr>tape := t\<rparr>" and "mset ys = mset xs"
  using rangeOrder_Done [of xs s] assms by (metis Pair_inject)

lemma keeps_rangeOrder [keeps_intro]:
  "(\<And>s t. f (s\<lparr>tape := t\<rparr>) = f s) \<Longrightarrow> keeps f (rangeOrder xs)"
  by (auto simp: keeps_def rangeOrder_def split: list.splits)

text \<open>A call to the outside world.\<close>

definition inWorld :: "('w \<Rightarrow> 'a \<times> 'w) \<Rightarrow> (('w, 'z) base_scheme, 'a) go" where
  "inWorld f = (\<lambda>s. case f (world s) of (a, w) \<Rightarrow> (Done a, s\<lparr>world := w\<rparr>))"

lemma inWorld_apply [go_simps]:
  "inWorld f s = (Done (fst (f (world s))), s\<lparr>world := snd (f (world s))\<rparr>)"
  by (simp add: inWorld_def case_prod_beta)

lemma inWorld_Done [simp]: "f (world s) = (a, w) \<Longrightarrow> inWorld f s = (Done a, s\<lparr>world := w\<rparr>)"
  by (simp add: inWorld_def)

lemma keeps_inWorld [keeps_intro]:
  "(\<And>s w. f (s\<lparr>world := w\<rparr>) = f s) \<Longrightarrow> keeps f (inWorld g)"
  by (auto simp: keeps_def inWorld_def split: prod.splits)

section \<open>Go maps with string keys\<close>

type_synonym 'v gomap = "(string \<times> 'v) list"

abbreviation lookup :: "'v gomap \<Rightarrow> string \<Rightarrow> 'v option" where
  "lookup \<equiv> map_of"

definition wf_map :: "'v gomap \<Rightarrow> bool" where
  "wf_map m \<longleftrightarrow> distinct (map fst m)"

lemma wf_map_Nil [simp]: "wf_map []"
  by (simp add: wf_map_def)

lemma wf_map_update [simp]: "wf_map m \<Longrightarrow> wf_map (AList.update k v m)"
  by (simp add: wf_map_def distinct_update)

lemma wf_map_delete [simp]: "wf_map m \<Longrightarrow> wf_map (AList.delete k m)"
  by (simp add: wf_map_def distinct_delete)

lemma wf_map_lookup: "wf_map m \<Longrightarrow> (k, v) \<in> set m \<longleftrightarrow> lookup m k = Some v"
  by (simp add: wf_map_def)

lemma lookup_update [simp]: "lookup (AList.update k v m) = (lookup m)(k \<mapsto> v)"
  by (rule update_conv')

lemma lookup_delete [simp]: "lookup (AList.delete k m) = (lookup m)(k := None)"
  by (rule delete_conv')

lemma set_update_subset: "set (AList.update k v m) \<subseteq> insert (k, v) (set m)"
  by (induction m) auto

lemma values_update_subset: "set (map snd (AList.update k v m)) \<subseteq> insert v (set (map snd m))"
  using set_update_subset [of k v m] by force

lemma set_delete_subset: "set (AList.delete k m) \<subseteq> set m"
  by (auto simp: AList.delete_eq)

lemma lookup_values: "lookup m k = Some v \<Longrightarrow> v \<in> set (map snd m)"
  by (force dest: map_of_SomeD)

end
