(* ===== verification/Hashset.thy ===== *)
theory Hashset
  imports Go_Base
begin

text \<open>
  The set type of \<open>github.com/emirpasic/gods/sets/hashset\<close> as the sources use it: a pointer to
  a struct whose only field is a \<open>map[interface{}]struct{}\<close>. A pointer is an \<open>option\<close>; the
  keys of the map are a list of dynamic values. Methods on a nil pointer and values that
  cannot be hashed panic, as in Go. The interface other components use is the locale
  \<open>value_set\<close>.
\<close>

text \<open>
  The dynamic values the sources put into sets: strings, integers (an index of a range
  clause), string slices, and the struct \<open>infra.AddressPair\<close>.
\<close>

datatype goval = GStr string | GInt int | GSlice slice | GPair string string

fun hashable :: "goval \<Rightarrow> bool" where
  "hashable (GSlice _) = False"
| "hashable _ = True"

type_synonym goset = "goval list"
type_synonym goset_ptr = "goset option"

section \<open>Methods\<close>

fun set_Add :: "goset_ptr \<Rightarrow> goval list \<Rightarrow> goset_ptr outcome" where
  "set_Add p [] = Done p"
| "set_Add None (x # xs) = Panic NilDeref"
| "set_Add (Some s) (x # xs) =
     (if hashable x then set_Add (Some (if x \<in> set s then s else s @ [x])) xs
      else Panic Unhashable)"

definition set_New :: "goval list \<Rightarrow> goset_ptr outcome" where
  "set_New values = (if length values > 0 then set_Add (Some []) values else Done (Some []))"

fun set_Remove :: "goset_ptr \<Rightarrow> goval list \<Rightarrow> goset_ptr outcome" where
  "set_Remove p [] = Done p"
| "set_Remove None (x # xs) = Panic NilDeref"
| "set_Remove (Some s) (x # xs) =
     (if hashable x then set_Remove (Some (remove1 x s)) xs else Panic Unhashable)"

fun set_Contains :: "goset_ptr \<Rightarrow> goval list \<Rightarrow> bool outcome" where
  "set_Contains p [] = Done True"
| "set_Contains None (x # xs) = Panic NilDeref"
| "set_Contains (Some s) (x # xs) =
     (if hashable x then if x \<in> set s then set_Contains (Some s) xs else Done False
      else Panic Unhashable)"

fun set_Size :: "goset_ptr \<Rightarrow> int outcome" where
  "set_Size None = Panic NilDeref"
| "set_Size (Some s) = Done (int (length s))"

definition set_Empty :: "goset_ptr \<Rightarrow> bool outcome" where
  "set_Empty p = bindo (set_Size p) (\<lambda>n. Done (n = 0))"

text \<open>\<open>Values\<close> ranges over the map: its order comes from the tape.\<close>

definition set_Values :: "goset_ptr \<Rightarrow> (('w, 'z) base_scheme, goval list) go" where
  "set_Values p = (case p of None \<Rightarrow> raise NilDeref | Some s \<Rightarrow> rangeOrder s)"

text \<open>
  \<open>hashset.New(s.Values()...)\<close>, the idiom of every \<open>DeepCopy\<close>: a fresh set with the same
  elements, whatever the order of \<open>Values\<close> (\<open>set_New_perm\<close>).
\<close>

fun set_Copy :: "goset_ptr \<Rightarrow> goset_ptr outcome" where
  "set_Copy None = Panic NilDeref"
| "set_Copy (Some s) = set_New s"

fun set_Difference :: "goset_ptr \<Rightarrow> goset_ptr \<Rightarrow> goset_ptr outcome" where
  "set_Difference None another = Panic NilDeref"
| "set_Difference (Some s) another =
     (case another of
        None \<Rightarrow> if s = [] then Done (Some []) else Panic NilDeref
      | Some t \<Rightarrow> set_New (filter (\<lambda>x. x \<notin> set t) s))"

section \<open>Well-formed sets\<close>

definition wf_set :: "goset_ptr \<Rightarrow> bool" where
  "wf_set p \<longleftrightarrow> (case p of None \<Rightarrow> False | Some s \<Rightarrow> distinct s \<and> (\<forall>x\<in>set s. hashable x))"

definition members :: "goset_ptr \<Rightarrow> goval set" where
  "members p = (case p of None \<Rightarrow> {} | Some s \<Rightarrow> set s)"

lemma members_simps [simp]: "members None = {}" "members (Some s) = set s"
  by (simp_all add: members_def)

lemma wf_set_simps [simp]: "\<not> wf_set None"
  "wf_set (Some s) \<longleftrightarrow> distinct s \<and> (\<forall>x\<in>set s. hashable x)"
  by (simp_all add: wf_set_def)

lemma wf_setE [elim]:
  assumes "wf_set p"
  obtains s where "p = Some s" and "distinct s" and "\<forall>x\<in>set s. hashable x"
  using assms by (cases p) auto

lemma set_Add_ok:
  assumes "wf_set p" and "\<forall>x\<in>set xs. hashable x"
  obtains q where "set_Add p xs = Done q" and "wf_set q" and "members q = members p \<union> set xs"
proof -
  from assms have "\<exists>q. set_Add p xs = Done q \<and> wf_set q \<and> members q = members p \<union> set xs"
  proof (induction p xs rule: set_Add.induct)
    case (3 s x xs)
    then have "hashable x" by simp
    let ?s = "if x \<in> set s then s else s @ [x]"
    from 3 \<open>hashable x\<close> have "\<exists>q. set_Add (Some ?s) xs = Done q \<and> wf_set q \<and>
        members q = members (Some ?s) \<union> set xs" by auto
    with \<open>hashable x\<close> show ?case by auto
  qed auto
  with that show thesis by blast
qed

lemma set_Add_unhashable:
  "wf_set p \<Longrightarrow> \<not> hashable x \<Longrightarrow> set_Add p [x] = Panic Unhashable"
  by (erule wf_setE) simp

lemma set_Remove_ok:
  assumes "wf_set p" and "\<forall>x\<in>set xs. hashable x"
  obtains q where "set_Remove p xs = Done q" and "wf_set q" and "members q = members p - set xs"
proof -
  from assms have "\<exists>q. set_Remove p xs = Done q \<and> wf_set q \<and> members q = members p - set xs"
  proof (induction p xs rule: set_Remove.induct)
    case (3 s x xs)
    then have "hashable x" by simp
    moreover have "wf_set (Some (remove1 x s))"
      using 3(2) by (auto simp: set_remove1_eq)
    ultimately have "\<exists>q. set_Remove (Some (remove1 x s)) xs = Done q \<and> wf_set q \<and>
        members q = members (Some (remove1 x s)) - set xs" using 3 by simp
    with \<open>hashable x\<close> 3(2) show ?case by (auto simp: set_remove1_eq)
  qed auto
  with that show thesis by blast
qed

lemma set_Contains_ok:
  "wf_set p \<Longrightarrow> hashable x \<Longrightarrow> set_Contains p [x] = Done (x \<in> members p)"
  by (erule wf_setE) simp

lemma set_New_ok:
  assumes "\<forall>x\<in>set xs. hashable x"
  obtains q where "set_New xs = Done q" and "wf_set q" and "members q = set xs"
proof -
  obtain q where "set_Add (Some []) xs = Done q" "wf_set q" "members q = set xs"
    using set_Add_ok [of "Some []" xs] assms by auto
  with that show thesis by (cases xs) (auto simp: set_New_def)
qed

lemma set_New_perm:
  assumes "\<forall>x\<in>set xs. hashable x" and "mset ys = mset xs"
    and "set_New xs = Done p" and "set_New ys = Done q"
  shows "members p = members q"
proof -
  have "set ys = set xs" using assms(2) by (metis set_mset_mset)
  then show ?thesis
    using set_New_ok [of xs] set_New_ok [of ys] assms by (metis outcome.inject(1))
qed

lemma set_Add_distinct:
  "distinct (s @ xs) \<Longrightarrow> \<forall>x\<in>set xs. hashable x \<Longrightarrow> set_Add (Some s) xs = Done (Some (s @ xs))"
  by (induction xs arbitrary: s) auto

lemma set_New_distinct:
  "distinct xs \<Longrightarrow> \<forall>x\<in>set xs. hashable x \<Longrightarrow> set_New xs = Done (Some xs)"
  using set_Add_distinct [of "[]" xs] by (cases xs) (auto simp: set_New_def)

lemma set_Copy_wf [simp]: "wf_set p \<Longrightarrow> set_Copy p = Done p"
  by (erule wf_setE) (simp add: set_New_distinct)

lemma set_Size_ok:
  assumes "wf_set p" shows "set_Size p = Done (int (card (members p)))"
  using assms by (auto simp: distinct_card elim!: wf_setE)

lemma set_Difference_ok:
  assumes "wf_set p" and "wf_set q"
  obtains r where "set_Difference p q = Done r" and "wf_set r" and "members r = members p - members q"
proof -
  obtain s t where st: "p = Some s" "q = Some t" "\<forall>x\<in>set s. hashable x"
    using assms by (meson wf_setE)
  obtain r where "set_New (filter (\<lambda>x. x \<notin> set t) s) = Done r" "wf_set r"
      "members r = set (filter (\<lambda>x. x \<notin> set t) s)"
    using set_New_ok [of "filter (\<lambda>x. x \<notin> set t) s"] st(3) by auto
  with st that show thesis by auto
qed

lemma keeps_set_Values [keeps_intro]:
  "(\<And>s t. f (s\<lparr>tape := t\<rparr>) = f s) \<Longrightarrow> keeps f (set_Values p)"
  by (auto simp: set_Values_def intro!: keeps_intro split: option.splits)

lemma set_Values_Done:
  assumes "wf_set p"
  obtains ys t where "set_Values p s = (Done ys, s\<lparr>tape := t\<rparr>)" and "set ys = members p"
    and "distinct ys"
proof -
  from assms obtain xs where p: "p = Some xs" "distinct xs" by auto
  obtain ys t where r: "rangeOrder xs s = (Done ys, s\<lparr>tape := t\<rparr>)" and m: "mset ys = mset xs"
    by (rule rangeOrder_Done)
  from m have "set ys = set xs" "distinct ys = distinct xs"
    by (metis set_mset_mset, metis mset_eq_imp_distinct_iff)
  with p r that show thesis by (simp add: set_Values_def)
qed

section \<open>The interface of a set of values\<close>

locale value_set =
  fixes valid :: "'p \<Rightarrow> bool"
    and elements :: "'p \<Rightarrow> goval set"
    and add :: "'p \<Rightarrow> goval list \<Rightarrow> 'p outcome"
    and contains :: "'p \<Rightarrow> goval list \<Rightarrow> bool outcome"
    and diff :: "'p \<Rightarrow> 'p \<Rightarrow> 'p outcome"
  assumes add_one: "valid p \<Longrightarrow> hashable x \<Longrightarrow>
      \<exists>q. add p [x] = Done q \<and> valid q \<and> elements q = insert x (elements p)"
    and contains_one: "valid p \<Longrightarrow> hashable x \<Longrightarrow> contains p [x] = Done (x \<in> elements p)"
    and diff_ok: "valid p \<Longrightarrow> valid q \<Longrightarrow>
      \<exists>r. diff p q = Done r \<and> valid r \<and> elements r = elements p - elements q"
begin

text \<open>Adding strings one by one, the loop of every reconciler.\<close>

lemma add_strings:
  "valid p \<Longrightarrow> \<exists>q. foldo (\<lambda>p x. add p [GStr x]) p xs = Done q \<and> valid q \<and>
     elements q = elements p \<union> GStr ` set xs"
proof (induction xs arbitrary: p)
  case Nil
  then show ?case by simp
next
  case (Cons x xs)
  obtain r where r: "add p [GStr x] = Done r" "valid r" "elements r = insert (GStr x) (elements p)"
    using add_one [OF Cons.prems, of "GStr x"] by auto
  from Cons.IH [OF r(2)] r show ?case by auto
qed

lemma add_strings_contains:
  assumes "valid p" and "foldo (\<lambda>p x. add p [GStr x]) p xs = Done q" and "x \<in> set xs"
  shows "contains q [GStr x] = Done True"
proof -
  from add_strings [OF assms(1), of xs] assms(2) have "valid q"
    and "elements q = elements p \<union> GStr ` set xs" by auto
  with contains_one [of q "GStr x"] assms(3) show ?thesis by simp
qed

lemma diff_empty_iff_subset:
  assumes "valid p" and "valid q" and "diff p q = Done r"
  shows "elements r = {} \<longleftrightarrow> elements p \<subseteq> elements q"
  using diff_ok [OF assms(1,2)] assms(3) by auto

end

interpretation hs: value_set wf_set members set_Add set_Contains set_Difference
proof unfold_locales
  fix p x assume "wf_set p" "hashable x"
  then show "\<exists>q. set_Add p [x] = Done q \<and> wf_set q \<and> members q = insert x (members p)"
    using set_Add_ok [of p "[x]"] by auto
next
  fix p x assume "wf_set p" "hashable x"
  then show "set_Contains p [x] = Done (x \<in> members p)" by (rule set_Contains_ok)
next
  fix p q assume "wf_set p" "wf_set q"
  then show "\<exists>r. set_Difference p q = Done r \<and> wf_set r \<and> members r = members p - members q"
    using set_Difference_ok by metis
qed

end
