(* ===== verification/Util.thy ===== *)
theory Util
  imports Hashset "HOL-Library.Word"
begin

text \<open>
  The helpers of \<open>src/pkg/util\<close> other than the containers and the trigger: event kinds,
  \<open>Ipv4Family\<close>, \<open>ClearMap\<close>, \<open>SetAddList\<close>, \<open>IterMap\<close> (\<open>event.go\<close>), the retry loop
  \<open>Backoff\<close> (\<open>backoff.go\<close>, with the loop of \<open>cenkalti/backoff\<close> it runs) and the id allocator
  \<open>Allocat\<close> (\<open>allocate.go\<close>).
\<close>

section \<open>event.go\<close>

datatype Event = UpdateE | DeleteE | CreateE

definition Ipv4Family :: "int option" where
  "Ipv4Family = Some 4"

text \<open>Ranging over a map and deleting the ranged key each time.\<close>

fun ClearMap_loop :: "string list \<Rightarrow> unit gomap \<Rightarrow> unit gomap" where
  "ClearMap_loop [] m = m"
| "ClearMap_loop (k # ks) m = ClearMap_loop ks (AList.delete k m)"

definition ClearMap :: "unit gomap \<Rightarrow> (('w, 'z) base_scheme, unit gomap) go" where
  "ClearMap m = andThen (rangeOrder (map fst m)) (\<lambda>ks. ret (ClearMap_loop ks m))"

definition SetAddList :: "goset_ptr \<Rightarrow> slice \<Rightarrow> goset_ptr outcome" where
  "SetAddList s l = (if s = None \<or> length (elems l) = 0 then Done s
     else foldo (\<lambda>s v. set_Add s [GStr v]) s (elems l))"

text \<open>
  \<open>IterMap\<close> walks over the keys of a \<open>hashmap.Map\<close> and looks each key up again; the callback
  stops the walk with an error. The map pointer and the callback may be nil.
\<close>

definition IterMap ::
  "('v gomap) option \<Rightarrow> (string \<Rightarrow> 'v option \<Rightarrow> (('w, 'z) base_scheme, err) go) option \<Rightarrow>
   (('w, 'z) base_scheme, unit) go" where
  "IterMap s fn = (case (s, fn) of
      (Some m, Some f) \<Rightarrow> andThen (rangeOrder (map fst m)) (\<lambda>keys.
        foldUntil (\<lambda>_ k. andThen (f k (lookup m k)) (\<lambda>e. ret ((), e))) () keys)
    | _ \<Rightarrow> ret ())"

lemma ClearMap_loop_eq: "map fst (ClearMap_loop ks m) = filter (\<lambda>k. k \<notin> set ks) (map fst m)"
proof (induction ks arbitrary: m)
  case (Cons k ks)
  have "map fst (AList.delete k m) = filter (\<lambda>x. x \<noteq> k) (map fst m)"
    by (induction m) auto
  with Cons show ?case by (auto intro: filter_cong)
qed simp

lemma ClearMap_empties: "\<exists>s'. ClearMap m s = (Done [], s')"
proof -
  obtain ks t where r: "rangeOrder (map fst m) s = (Done ks, s\<lparr>tape := t\<rparr>)"
    and k: "mset ks = mset (map fst m)" by (rule rangeOrder_Done)
  from k have "set ks = set (map fst m)" by (metis set_mset_mset)
  then have "map fst (ClearMap_loop ks m) = []"
    unfolding ClearMap_loop_eq by (simp add: filter_empty_conv)
  with r show ?thesis by (simp add: ClearMap_def)
qed

lemma SetAddList_ok:
  assumes "wf_set p"
  shows "\<exists>q. SetAddList p l = Done q \<and> wf_set q \<and> members q = members p \<union> GStr ` set (elems l)"
proof (cases "elems l = []")
  case True
  then show ?thesis using assms by (simp add: SetAddList_def)
next
  case False
  with assms have "SetAddList p l = foldo (\<lambda>s v. set_Add s [GStr v]) p (elems l)"
    by (auto simp: SetAddList_def)
  then show ?thesis using hs.add_strings [OF assms] by simp
qed

section \<open>backoff.go\<close>

text \<open>
  \<open>backoff.WithMaxRetries(&ConstantBackOff{...}, 3)\<close>: a wrapper that stops after \<open>maxTries\<close>
  calls of \<open>NextBackOff\<close>. \<open>None\<close> is \<open>backoff.Stop\<close>, \<open>Some d\<close> the delay before the next try.
\<close>

record backOffTries =
  interval :: nat
  maxTries :: nat
  numTries :: nat

definition NextBackOff :: "backOffTries \<Rightarrow> nat option \<times> backOffTries" where
  "NextBackOff b =
     (if maxTries b = 0 then (None, b)
      else if maxTries b \<le> numTries b then (None, b)
      else (Some (interval b), b\<lparr>numTries := numTries b + 1\<rparr>))"

definition Reset :: "backOffTries \<Rightarrow> backOffTries" where
  "Reset b = b\<lparr>numTries := 0\<rparr>"

text \<open>\<open>errors.As(err, &permanent)\<close>: the first permanent error in the tree of wrapped errors.\<close>

fun permanent :: "go_error \<Rightarrow> go_error option" and permanents :: "go_error list \<Rightarrow> go_error option" where
  "permanent (PermanentError e) = Some e"
| "permanent (Joined es) = permanents es"
| "permanent _ = None"
| "permanents [] = None"
| "permanents (e # es) = (case permanent e of Some p \<Rightarrow> Some p | None \<Rightarrow> permanents es)"

text \<open>
  The loop of \<open>doRetryNotify\<close>, with the background context the sources use (never done, no
  error); sleeping has no effect on the state.
\<close>

function retryLoop :: "('s, err) go \<Rightarrow> backOffTries \<Rightarrow> ('s, err) go" where
  "retryLoop operation b = andThen operation (\<lambda>e. case e of
      None \<Rightarrow> ret None
    | Some e \<Rightarrow> (case permanent e of
        Some pe \<Rightarrow> ret (Some pe)
      | None \<Rightarrow> (case NextBackOff b of
          (None, b') \<Rightarrow> ret (Some e)
        | (Some next, b') \<Rightarrow> retryLoop operation b')))"
  by pat_completeness auto
termination
  by (relation "measure (\<lambda>(operation, b). maxTries b - numTries b)")
    (auto simp: NextBackOff_def split: if_splits)

declare retryLoop.simps [simp del]

definition Retry :: "('s, err) go \<Rightarrow> backOffTries \<Rightarrow> ('s, err) go" where
  "Retry operation b = retryLoop operation (Reset b)"

definition Backoff :: "('s, err) go \<Rightarrow> ('s, err) go" where
  "Backoff rfn = Retry rfn \<lparr>interval = 10000, maxTries = 3, numTries = 0\<rparr>"

text \<open>A reference: try, and on an ordinary error try again, at most \<open>n\<close> more times.\<close>

primrec attempts :: "nat \<Rightarrow> ('s, err) go \<Rightarrow> ('s, err) go" where
  "attempts 0 op = andThen op (\<lambda>e. ret (case e of None \<Rightarrow> None
      | Some e \<Rightarrow> (case permanent e of Some pe \<Rightarrow> Some pe | None \<Rightarrow> Some e)))"
| "attempts (Suc n) op = andThen op (\<lambda>e. case e of None \<Rightarrow> ret None
      | Some e \<Rightarrow> (case permanent e of Some pe \<Rightarrow> ret (Some pe) | None \<Rightarrow> attempts n op))"

lemma retryLoop_attempts:
  "retryLoop op b = attempts (maxTries b - numTries b) op"
proof (induction "maxTries b - numTries b" arbitrary: b)
  case 0
  then have "NextBackOff b = (None, b)" by (auto simp: NextBackOff_def)
  with 0 show ?case
    by (subst retryLoop.simps)
      (auto simp: fun_eq_iff andThen_apply split: prod.splits outcome.splits option.splits)
next
  case (Suc n)
  let ?b = "b\<lparr>numTries := numTries b + 1\<rparr>"
  have "NextBackOff b = (Some (interval b), ?b)" using Suc(2) by (auto simp: NextBackOff_def)
  moreover have n: "n = maxTries ?b - numTries ?b" using Suc(2) by simp
  moreover have "retryLoop op ?b = attempts n op" using Suc(1) [OF n] n by simp
  moreover have "maxTries b - numTries b = Suc n" using Suc(2) by simp
  ultimately show ?case by (subst retryLoop.simps) (simp cong: option.case_cong)
qed

lemma Backoff_attempts: "Backoff op = attempts 3 op"
  by (simp add: Backoff_def Retry_def Reset_def retryLoop_attempts)

lemma Backoff_Done: "op s = (Done None, s') \<Longrightarrow> Backoff op s = (Done None, s')"
  by (simp add: Backoff_attempts numeral_3_eq_3)

lemma keeps_attempts: "keeps f op \<Longrightarrow> keeps f (attempts n op)"
  by (induction n) (auto intro!: keeps_andThen split: option.splits)

lemma keeps_Backoff [keeps_intro]: "keeps f op \<Longrightarrow> keeps f (Backoff op)"
  by (simp add: Backoff_attempts keeps_attempts)

section \<open>allocate.go\<close>

record Allocat =
  vals :: "64 word \<Rightarrow> 64 word option"
  intv :: "64 word"

definition NewAllocat :: Allocat where
  "NewAllocat = \<lparr>vals = Map.empty, intv = 0\<rparr>"

text \<open>\<open>Get\<close> runs under the mutex, so it is one step; the counter is an \<open>atomic.Int64\<close>.\<close>

definition Allocat_Get :: "64 word \<Rightarrow> Allocat \<Rightarrow> 64 word \<times> Allocat" where
  "Allocat_Get k a = (case vals a k of
      Some v \<Rightarrow> (v, a)
    | None \<Rightarrow> (let i = intv a + 1 in (i, a\<lparr>vals := (vals a)(k \<mapsto> i), intv := i\<rparr>)))"

fun Allocat_run :: "64 word list \<Rightarrow> Allocat \<Rightarrow> Allocat" where
  "Allocat_run [] a = a"
| "Allocat_run (k # ks) a = Allocat_run ks (snd (Allocat_Get k a))"

text \<open>
  The invariant: the ids handed out are exactly 1 to the counter, each for one key, as long as
  fewer than \<open>2 ^ 64\<close> keys were seen.
\<close>

definition alloc_inv :: "Allocat \<Rightarrow> bool" where
  "alloc_inv a \<longleftrightarrow> inj_on (vals a) (dom (vals a)) \<and>
     (\<forall>k v. vals a k = Some v \<longrightarrow> 0 < unat v \<and> unat v \<le> unat (intv a)) \<and>
     card (dom (vals a)) = unat (intv a)"

lemma alloc_inv_New: "alloc_inv NewAllocat"
  by (simp add: alloc_inv_def NewAllocat_def)

lemma alloc_inv_Get:
  assumes inv: "alloc_inv a" and room: "unat (intv a) + 1 < 2 ^ 64"
  shows "alloc_inv (snd (Allocat_Get k a))"
proof (cases "vals a k")
  case (Some v)
  then show ?thesis using inv by (simp add: Allocat_Get_def)
next
  case None
  let ?i = "intv a + 1"
  have ui: "unat ?i = unat (intv a) + 1" using room by (simp add: unat_word_ariths)
  have fin: "finite (dom (vals a))" by simp
  have new: "vals a x \<noteq> Some ?i" for x
    using inv ui unfolding alloc_inv_def by (metis Suc_eq_plus1 not_less_eq_eq order_refl)
  have "inj_on ((vals a)(k \<mapsto> ?i)) (insert k (dom (vals a)))"
    using inv new unfolding alloc_inv_def inj_on_def by (auto simp: dom_def)
  moreover have "card (insert k (dom (vals a))) = unat ?i"
    using inv ui None fin unfolding alloc_inv_def by (simp add: card_insert_if domIff)
  moreover have "\<forall>x v. ((vals a)(k \<mapsto> ?i)) x = Some v \<longrightarrow> 0 < unat v \<and> unat v \<le> unat ?i"
    using inv ui unfolding alloc_inv_def by (auto intro: le_SucI)
  ultimately show ?thesis using None by (simp add: Allocat_Get_def alloc_inv_def Let_def)
qed

lemma Allocat_Get_stable:
  assumes "vals a k = Some v"
  shows "vals (snd (Allocat_Get k' a)) k = Some v"
  using assms by (auto simp: Allocat_Get_def Let_def split: option.splits)

lemma Allocat_run_stable: "vals a k = Some v \<Longrightarrow> vals (Allocat_run ks a) k = Some v"
  by (induction ks arbitrary: a) (auto intro: Allocat_Get_stable)

lemma Allocat_Get_known: "vals (snd (Allocat_Get k a)) k = Some (fst (Allocat_Get k a))"
  by (auto simp: Allocat_Get_def Let_def split: option.splits)

lemma Allocat_Get_intv: "unat (intv (snd (Allocat_Get k a))) \<le> unat (intv a) + 1"
  by (auto simp: Allocat_Get_def Let_def unat_word_ariths split: option.splits)

lemma alloc_inv_run:
  "alloc_inv a \<Longrightarrow> unat (intv a) + length ks < 2 ^ 64 \<Longrightarrow> alloc_inv (Allocat_run ks a)"
proof (induction ks arbitrary: a)
  case (Cons k ks)
  have "alloc_inv (snd (Allocat_Get k a))"
    using Cons.prems by (intro alloc_inv_Get) auto
  moreover have "unat (intv (snd (Allocat_Get k a))) + length ks < 2 ^ 64"
    using Cons.prems(2) Allocat_Get_intv [of k a] by simp
  ultimately show ?case using Cons.IH by simp
qed simp

end
