(* ===== verification/K8s_Objects.thy ===== *)
theory K8s_Objects
  imports Util
begin

text \<open>
  The Kubernetes objects the controllers read and write, with the fields the sources touch:
  the custom resource \<open>Subnet\<close> of \<open>src/pkg/k8s/apis/eni.io/v1alpha1\<close>, the \<open>SpiderIPPool\<close> of
  spiderpool, \<open>Node\<close> and \<open>Namespace\<close>; and the finalizer helpers of controller-runtime.
  \<open>DeletionTimestamp\<close> is \<open>None\<close> while it \<open>IsZero\<close>.
\<close>

section \<open>Object metadata and finalizers\<close>

record ObjectMeta =
  metaName :: string
  Annotations :: "string gomap"
  Finalizers :: "string list"
  DeletionTimestamp :: "nat option"

definition emptyMeta :: ObjectMeta where
  "emptyMeta = \<lparr>metaName = '''', Annotations = [], Finalizers = [], DeletionTimestamp = None\<rparr>"

definition InstanceAnnotationKey :: string where
  "InstanceAnnotationKey = ''node.eni.io/instance''"

definition FinializerController :: string where
  "FinializerController = ''controller.eni.io''"

fun ContainsFinalizer_loop :: "string list \<Rightarrow> string \<Rightarrow> bool" where
  "ContainsFinalizer_loop [] finalizer = False"
| "ContainsFinalizer_loop (e # f) finalizer =
     (if e = finalizer then True else ContainsFinalizer_loop f finalizer)"

definition ContainsFinalizer :: "ObjectMeta \<Rightarrow> string \<Rightarrow> bool" where
  "ContainsFinalizer o1 finalizer = ContainsFinalizer_loop (Finalizers o1) finalizer"

definition AddFinalizer :: "ObjectMeta \<Rightarrow> string \<Rightarrow> ObjectMeta" where
  "AddFinalizer o1 finalizer =
     (if ContainsFinalizer_loop (Finalizers o1) finalizer then o1
      else o1\<lparr>Finalizers := Finalizers o1 @ [finalizer]\<rparr>)"

text \<open>The in-place compaction loop: \<open>i\<close> reads, \<open>index\<close> writes.\<close>

fun RemoveFinalizer_loop :: "nat \<Rightarrow> nat \<Rightarrow> nat \<Rightarrow> string list \<Rightarrow> string \<Rightarrow> nat \<times> string list" where
  "RemoveFinalizer_loop 0 i index f finalizer = (index, f)"
| "RemoveFinalizer_loop (Suc n) i index f finalizer =
     (if f ! i = finalizer then RemoveFinalizer_loop n (Suc i) index f finalizer
      else RemoveFinalizer_loop n (Suc i) (Suc index) (f[index := f ! i]) finalizer)"

definition RemoveFinalizer :: "ObjectMeta \<Rightarrow> string \<Rightarrow> ObjectMeta" where
  "RemoveFinalizer o1 finalizer =
     (case RemoveFinalizer_loop (length (Finalizers o1)) 0 0 (Finalizers o1) finalizer of
        (index, f) \<Rightarrow> o1\<lparr>Finalizers := take index f\<rparr>)"

lemma ContainsFinalizer_loop_iff [simp]: "ContainsFinalizer_loop f x \<longleftrightarrow> x \<in> set f"
  by (induction f) auto

lemma ContainsFinalizer_iff: "ContainsFinalizer m x \<longleftrightarrow> x \<in> set (Finalizers m)"
  by (simp add: ContainsFinalizer_def)

lemma AddFinalizer_Finalizers:
  "set (Finalizers (AddFinalizer m x)) = insert x (set (Finalizers m))"
  by (auto simp: AddFinalizer_def)

lemma RemoveFinalizer_loop_eq:
  assumes "i + n = length f" and "index \<le> i"
    and "take index f = filter (\<lambda>y. y \<noteq> x) g" and "length g = i"
  shows "take (fst (RemoveFinalizer_loop n i index f x)) (snd (RemoveFinalizer_loop n i index f x)) =
     filter (\<lambda>y. y \<noteq> x) (g @ drop i f)"
  using assms
proof (induction n arbitrary: i index f g)
  case 0
  then show ?case by simp
next
  case (Suc n)
  have i: "i < length f" using Suc.prems(1) by simp
  then have d: "drop i f = f ! i # drop (Suc i) f" by (simp add: Cons_nth_drop_Suc)
  show ?case
  proof (cases "f ! i = x")
    case True
    with Suc.IH [of "Suc i" f index "g @ [f ! i]"] Suc.prems d show ?thesis by simp
  next
    case False
    let ?f = "f[index := f ! i]"
    have "take (Suc index) ?f = filter (\<lambda>y. y \<noteq> x) (g @ [f ! i])"
      using Suc.prems i False by (simp add: take_Suc_conv_app_nth)
    moreover have "drop (Suc i) ?f = drop (Suc i) f" using Suc.prems(2) by simp
    ultimately show ?thesis
      using Suc.IH [of "Suc i" ?f "Suc index" "g @ [f ! i]"] Suc.prems False d by simp
  qed
qed

lemma RemoveFinalizer_Finalizers:
  "Finalizers (RemoveFinalizer m x) = filter (\<lambda>y. y \<noteq> x) (Finalizers m)"
  using RemoveFinalizer_loop_eq [of 0 "length (Finalizers m)" "Finalizers m" 0 x "[]"]
  by (simp add: RemoveFinalizer_def case_prod_beta)

lemma RemoveFinalizer_other [simp]:
  "metaName (RemoveFinalizer m x) = metaName m"
  "Annotations (RemoveFinalizer m x) = Annotations m"
  "DeletionTimestamp (RemoveFinalizer m x) = DeletionTimestamp m"
  by (simp_all add: RemoveFinalizer_def case_prod_beta)

lemma AddFinalizer_other [simp]:
  "metaName (AddFinalizer m x) = metaName m"
  "Annotations (AddFinalizer m x) = Annotations m"
  "DeletionTimestamp (AddFinalizer m x) = DeletionTimestamp m"
  by (simp_all add: AddFinalizer_def)

section \<open>Subnet\<close>

record SubnetSpec =
  IPVersion :: "int option"
  Subnet :: string
  Vpc :: string
  Project :: string
  PreAllocated :: "int option"
  MinAvaliable :: "int option"
  NamespaceName :: slice
  NodeName :: slice

record SubnetStatus =
  SubnatName :: "string option"
  VpcName :: "string option"
  Gateway :: "string option"
  Cidr :: "string option"
  st_NamespaceName :: slice
  st_NodeName :: slice

record SubnetObj =
  sn_meta :: ObjectMeta
  sn_spec :: SubnetSpec
  sn_status :: SubnetStatus

section \<open>SpiderIPPool\<close>

text \<open>
  Of \<open>IPPoolSpec\<close> and \<open>IPPoolStatus\<close> the fields the controller reads or writes; the others
  are kept as one opaque value that no operation of the sources changes.
\<close>

record IPPoolSpec =
  sp_IPVersion :: "int option"
  sp_Subnet :: string
  sp_IPs :: slice
  sp_ExcludeIPs :: slice
  sp_NamespaceName :: slice
  sp_NodeName :: slice
  sp_rest :: string

record IPPoolStatus =
  AllocatedIPs :: "string option"
  AllocatedIPCount :: "int option"

record SpiderIPPool =
  sp_meta :: ObjectMeta
  sp_spec :: IPPoolSpec
  sp_status :: IPPoolStatus

section \<open>Node and Namespace\<close>

record NodeAddress =
  addrType :: string
  Address :: string

record NodeObj =
  no_meta :: ObjectMeta
  no_Addresses :: "NodeAddress list"

record NamespaceObj =
  ns_meta :: ObjectMeta

end
