(* ===== verification/Ippool.thy ===== *)
theory Ippool
  imports K8s_Objects
begin

text \<open>
  \<open>src/pkg/ippool/config.go\<close>: the cached description of an address pool, its partial
  equality and its deep copy, and the interface \<open>Manager\<close> through which the node and the vpc
  controllers use the pools. The interface is a record of operations on an arbitrary state;
  its contract is the locale \<open>ippool_manager\<close>.
\<close>

definition SubnatAnnotationsKey :: string where
  "SubnatAnnotationsKey = ''pool.eni.io/subnatname''"

record Pool =
  pl_NodeName :: string
  MainId :: string
  Subnat :: string
  Namespace :: goset_ptr
  CapIp :: goset_ptr
  UsedIp :: goset_ptr

definition wf_pool :: "Pool \<Rightarrow> bool" where
  "wf_pool p \<longleftrightarrow> wf_set (Namespace p) \<and> wf_set (CapIp p) \<and> wf_set (UsedIp p)"

definition PartEqual :: "Pool \<Rightarrow> Pool option \<Rightarrow> bool outcome" where
  "PartEqual p dst = (case dst of
      None \<Rightarrow> Done False
    | Some d \<Rightarrow>
        if MainId d \<noteq> MainId p then Done False
        else if pl_NodeName d \<noteq> pl_NodeName p then Done False
        else if Subnat d \<noteq> Subnat p then Done False
        else bindo (set_Difference (Namespace p) (Namespace d)) set_Empty)"

definition pool_DeepCopy :: "Pool \<Rightarrow> Pool outcome" where
  "pool_DeepCopy p =
     bindo (set_Copy (CapIp p)) (\<lambda>c. bindo (set_Copy (UsedIp p)) (\<lambda>u.
     bindo (set_Copy (Namespace p)) (\<lambda>n.
       Done \<lparr>pl_NodeName = pl_NodeName p, MainId = MainId p, Subnat = Subnat p,
             Namespace = n, CapIp = c, UsedIp = u\<rparr>)))"

lemma pool_DeepCopy_wf [simp]: "wf_pool p \<Longrightarrow> pool_DeepCopy p = Done p"
  by (simp add: wf_pool_def pool_DeepCopy_def)

lemma PartEqual_iff:
  assumes "wf_pool p" and "wf_pool d"
  shows "PartEqual p (Some d) = Done (MainId d = MainId p \<and> pl_NodeName d = pl_NodeName p \<and>
    Subnat d = Subnat p \<and> members (Namespace p) \<subseteq> members (Namespace d))"
proof -
  have wf: "wf_set (Namespace p)" "wf_set (Namespace d)" using assms by (simp_all add: wf_pool_def)
  then obtain r where r: "set_Difference (Namespace p) (Namespace d) = Done r" "wf_set r"
      "members r = members (Namespace p) - members (Namespace d)" by (rule set_Difference_ok)
  then obtain xs where xs: "r = Some xs" "set xs = members (Namespace p) - members (Namespace d)"
    by (metis members_simps(2) wf_setE)
  then have "set_Empty r = Done (xs = [])" by (simp add: set_Empty_def)
  moreover have "xs = [] \<longleftrightarrow> members (Namespace p) \<subseteq> members (Namespace d)"
    using xs(2) by (metis Diff_eq_empty_iff set_empty)
  ultimately have "set_Empty r = Done (members (Namespace p) \<subseteq> members (Namespace d))" by simp
  with r show ?thesis by (simp add: PartEqual_def)
qed

section \<open>The interface Manager\<close>

text \<open>
  \<open>PoolSeq\<close> is the sequence of cached pools that one call of \<open>EachPool\<close> walks over: the
  implementation holds its read lock for the whole walk, so the cache does not change
  under it.
\<close>

record 's pool_manager =
  UpdatePool :: "Pool option \<Rightarrow> Event \<Rightarrow> ('s, err) go"
  PoolSeq :: "('s, Pool list) go"

text \<open>
  \<open>EachPool(fn)\<close> hands a deep copy of each pool to the callback and stops at the first error;
  the variables the callback captures are the accumulator.
\<close>

definition EachPool ::
  "'s pool_manager \<Rightarrow> ('a \<Rightarrow> Pool \<Rightarrow> ('s, 'a \<times> err) go) \<Rightarrow> 'a \<Rightarrow> ('s, 'a) go" where
  "EachPool pm fn a = andThen (PoolSeq pm) (\<lambda>ps.
     foldUntil (\<lambda>a p. andThen (lift (pool_DeepCopy p)) (fn a)) a ps)"

lemma foldUntil_cong:
  "(\<And>a x. x \<in> set xs \<Longrightarrow> f a x = g a x) \<Longrightarrow> foldUntil f a xs = foldUntil g a xs"
  by (induction xs arbitrary: a) (auto intro!: arg_cong [where f = "andThen _"] split: option.splits)

text \<open>
  The contract. \<open>cached s\<close> is the set of pools of the cache; the operations leave the cache
  and whatever else the client observes (\<open>frame\<close>) alone.
\<close>

locale ippool_manager =
  fixes pm :: "'s pool_manager"
    and cached :: "'s \<Rightarrow> Pool set"
    and frame :: "'s \<Rightarrow> 'f"
    and ok :: "'s \<Rightarrow> bool"
  assumes seq: "ok s \<Longrightarrow> \<exists>ps s'. PoolSeq pm s = (Done ps, s') \<and> set ps = cached s \<and>
      cached s' = cached s \<and> frame s' = frame s \<and> ok s'"
    and cached_wf: "ok s \<Longrightarrow> q \<in> cached s \<Longrightarrow> wf_pool q"
    and update_frame: "ok s \<Longrightarrow> UpdatePool pm p ev s = (r, s') \<Longrightarrow>
      cached s' = cached s \<and> frame s' = frame s \<and> ok s'"
    and delete_returns: "ok s \<Longrightarrow> \<exists>e s'. UpdatePool pm p DeleteE s = (Done e, s')"
    and null_id: "ok s \<Longrightarrow> MainId q = [] \<Longrightarrow> \<exists>e s'. UpdatePool pm (Some q) DeleteE s = (Done (Some e), s')"
begin

text \<open>
  The removal loop of the node and of the vpc controller: delete every pool that satisfies
  \<open>P\<close> and join the errors.
\<close>

lemma removal_loop:
  assumes "ok s" and "\<forall>p\<in>set ps. wf_pool p"
  shows "\<exists>e s'. foldUntil (\<lambda>a p. andThen (lift (pool_DeepCopy p)) (\<lambda>p.
        if P p then andThen (UpdatePool pm (Some p) DeleteE) (\<lambda>e1. ret (joinErr a e1, None :: err))
        else ret (a, None))) a ps s = (Done e, s') \<and>
      cached s' = cached s \<and> frame s' = frame s \<and> ok s' \<and>
      (a \<noteq> None \<longrightarrow> e \<noteq> None) \<and> ((\<exists>p\<in>set ps. P p \<and> MainId p = []) \<longrightarrow> e \<noteq> None) \<and>
      (a = None \<longrightarrow> (\<forall>p\<in>set ps. \<not> P p) \<longrightarrow> e = None)"
    (is "\<exists>e s'. ?loop a ps s = _ \<and> _")
  using assms
proof (induction ps arbitrary: a s)
  case Nil
  then show ?case by simp
next
  case (Cons p ps)
  then have copy: "pool_DeepCopy p = Done p" by simp
  show ?case
  proof (cases "P p")
    case False
    with Cons copy show ?thesis by simp
  next
    case True
    obtain e1 s1 where u: "UpdatePool pm (Some p) DeleteE s = (Done e1, s1)"
      using delete_returns Cons.prems(1) by blast
    have f: "cached s1 = cached s" "frame s1 = frame s" "ok s1"
      using update_frame [OF Cons.prems(1) u] by auto
    have n: "MainId p = [] \<Longrightarrow> e1 \<noteq> None" using null_id [OF Cons.prems(1)] u by fastforce
    obtain e s' where "?loop (joinErr a e1) ps s1 = (Done e, s')"
      "cached s' = cached s1" "frame s' = frame s1" "ok s'"
      "joinErr a e1 \<noteq> None \<longrightarrow> e \<noteq> None"
      "(\<exists>p\<in>set ps. P p \<and> MainId p = []) \<longrightarrow> e \<noteq> None"
      using Cons.IH [OF f(3), of "joinErr a e1"] Cons.prems(2) by auto
    with True copy u f n show ?thesis by auto
  qed
qed

lemma removal:
  assumes "ok s"
  shows "\<exists>e s'. EachPool pm (\<lambda>a p.
        if P p then andThen (UpdatePool pm (Some p) DeleteE) (\<lambda>e1. ret (joinErr a e1, None))
        else ret (a, None)) None s = (Done e, s') \<and>
      cached s' = cached s \<and> frame s' = frame s \<and> ok s' \<and>
      ((\<exists>p\<in>cached s. P p \<and> MainId p = []) \<longrightarrow> e \<noteq> None) \<and>
      ((\<forall>p\<in>cached s. \<not> P p) \<longrightarrow> e = None)"
proof -
  obtain ps s1 where 1: "PoolSeq pm s = (Done ps, s1)" "set ps = cached s" "cached s1 = cached s"
      "frame s1 = frame s" "ok s1" using seq [OF assms] by blast
  have "\<forall>p\<in>set ps. wf_pool p" using cached_wf [OF assms] 1(2) by blast
  from removal_loop [OF 1(5) this, of P None] 1 show ?thesis
    by (auto simp: EachPool_def)
qed

end

end
