(* ===== verification/Spiderpool.thy ===== *)
theory Spiderpool
  imports Ippool
begin

text \<open>
  \<open>src/pkg/ippool/spiderpool/controller.go\<close>: the controller that caches \<open>SpiderIPPool\<close>
  objects and implements \<open>ippool.Manager\<close>. The API server is a parameter: a record of the
  four calls the controller makes, on an arbitrary world. \<open>json.Unmarshal\<close> of the allocation
  table is a parameter that yields the keys of the decoded object.
\<close>

section \<open>The API server and the controller's state\<close>

record 'w pool_client =
  c_Get :: "string \<Rightarrow> 'w \<Rightarrow> (go_error + SpiderIPPool) \<times> 'w"
  c_Patch :: "SpiderIPPool \<Rightarrow> SpiderIPPool \<Rightarrow> 'w \<Rightarrow> err \<times> 'w"
  c_Create :: "SpiderIPPool \<Rightarrow> 'w \<Rightarrow> err \<times> 'w"
  c_Delete :: "string \<Rightarrow> 'w \<Rightarrow> err \<times> 'w"

record 'w pool_ctrl = "'w base" +
  pools :: "Pool gomap"
  pool_ch :: "string list"

definition pool_NewControllerManager :: "'w \<Rightarrow> nat list list \<Rightarrow> 'w pool_ctrl" where
  "pool_NewControllerManager w t = \<lparr>world = w, tape = t, pools = [], pool_ch = []\<rparr>"

section \<open>Reconcile\<close>

text \<open>A mutation through the pointer stored in the cache.\<close>

definition onPool :: "string \<Rightarrow> (Pool \<Rightarrow> Pool outcome) \<Rightarrow> (('w, 'z) pool_ctrl_scheme, unit) go" where
  "onPool k f = andThen (gets (\<lambda>s. lookup (pools s) k)) (\<lambda>p. case p of
      None \<Rightarrow> raise NilDeref
    | Some p \<Rightarrow> andThen (lift (f p)) (\<lambda>p'. modify (\<lambda>s. s\<lparr>pools := AList.update k p' (pools s)\<rparr>)))"

definition add_Namespace :: "goval \<Rightarrow> Pool \<Rightarrow> Pool outcome" where
  "add_Namespace v p = bindo (set_Add (Namespace p) [v]) (\<lambda>q. Done (p\<lparr>Namespace := q\<rparr>))"

definition add_CapIp :: "goval \<Rightarrow> Pool \<Rightarrow> Pool outcome" where
  "add_CapIp v p = bindo (set_Add (CapIp p) [v]) (\<lambda>q. Done (p\<lparr>CapIp := q\<rparr>))"

definition add_UsedIp :: "goval \<Rightarrow> Pool \<Rightarrow> Pool outcome" where
  "add_UsedIp v p = bindo (set_Add (UsedIp p) [v]) (\<lambda>q. Done (p\<lparr>UsedIp := q\<rparr>))"

text \<open>The event filter registered by \<open>probe\<close>.\<close>

definition pool_filter :: "SpiderIPPool \<Rightarrow> bool" where
  "pool_filter object = (lookup (Annotations (sp_meta object)) SubnatAnnotationsKey \<noteq> None)"

text \<open>
  \<open>Reconcile\<close>. The loop over \<open>in.Spec.NamespaceName\<close> binds the index, not the element, and
  \<open>pool.CapIp.Add(in.Spec.IPs)\<close> passes the slice itself.
\<close>

definition pool_Reconcile ::
  "'w pool_client \<Rightarrow> (string \<Rightarrow> string list option) \<Rightarrow> string \<Rightarrow> (('w, 'z) pool_ctrl_scheme, err) go" where
  "pool_Reconcile c unmarshal reqName = andThen (inWorld (c_Get c reqName)) (\<lambda>r. case r of
      Inl e \<Rightarrow>
        if IsNotFound e
        then andThen (modify (\<lambda>s. s\<lparr>pools := AList.delete reqName (pools s)\<rparr>)) (\<lambda>_. ret None)
        else ret (Some e)
    | Inr inp \<Rightarrow> (case lookup (Annotations (sp_meta inp)) SubnatAnnotationsKey of
        None \<Rightarrow> ret None
      | Some subnat \<Rightarrow> (let mainip = metaName (sp_meta inp) in
          andThen (gets (\<lambda>s. lookup (pools s) mainip)) (\<lambda>pool.
          andThen (case pool of
              Some _ \<Rightarrow> ret ()
            | None \<Rightarrow> (case elems (sp_NodeName (sp_spec inp)) of
                [] \<Rightarrow> raise IndexRange
              | n # _ \<Rightarrow> modify (\<lambda>s. s\<lparr>pools := AList.update mainip
                  \<lparr>pl_NodeName = n, MainId = [], Subnat = subnat,
                   Namespace = Some [], CapIp = Some [], UsedIp = Some []\<rparr> (pools s)\<rparr>))) (\<lambda>_.
          andThen (forEach (\<lambda>i. onPool mainip (add_Namespace (GInt (int i))))
              [0..<length (elems (sp_NamespaceName (sp_spec inp)))]) (\<lambda>_.
          andThen (onPool mainip (add_CapIp (GSlice (sp_IPs (sp_spec inp))))) (\<lambda>_.
          (let rest =
             (if DeletionTimestamp (sp_meta inp) \<noteq> None then ret None
              else if \<not> ContainsFinalizer (sp_meta inp) FinializerController
              then inWorld (c_Patch c
                (inp\<lparr>sp_meta := AddFinalizer (sp_meta inp) FinializerController\<rparr>) inp)
              else ret None)
           in case AllocatedIPs (sp_status inp) of
               None \<Rightarrow> rest
             | Some text \<Rightarrow> (case unmarshal text of
                 None \<Rightarrow> ret None
               | Some keys \<Rightarrow> andThen (rangeOrder keys) (\<lambda>keys.
                   andThen (forEach (\<lambda>ip. onPool mainip (add_UsedIp (GStr ip))) keys) (\<lambda>_. rest)))))))))))"

section \<open>Reading the cache\<close>

definition pool_PoolSeq :: "(('w, 'z) pool_ctrl_scheme, Pool list) go" where
  "pool_PoolSeq = andThen (gets pools) (\<lambda>ps. rangeOrder (map snd ps))"

definition GetPoolByIp :: "string \<Rightarrow> (('w, 'z) pool_ctrl_scheme, Pool option) go" where
  "GetPoolByIp mainip = andThen (gets (\<lambda>s. lookup (pools s) mainip)) (\<lambda>v. case v of
      None \<Rightarrow> ret None
    | Some p \<Rightarrow> andThen (lift (pool_DeepCopy p)) (\<lambda>q. ret (Some q)))"

definition GetPoolBySubnat :: "string \<Rightarrow> (('w, 'z) pool_ctrl_scheme, Pool list) go" where
  "GetPoolBySubnat name = andThen pool_PoolSeq (\<lambda>ps.
     foldEach (\<lambda>acc p. if Subnat p = name
        then andThen (lift (pool_DeepCopy p)) (\<lambda>q. ret (acc @ [q])) else ret acc) [] ps)"

text \<open>
  One round of the \<open>handlerCallback\<close> loop: take a name from the channel, copy the cached pool
  (nil when it is gone) and hand it to every registered callback. With an empty channel the
  round waits.
\<close>

definition pool_handlerCallback ::
  "(Pool option \<Rightarrow> (('w, 'z) pool_ctrl_scheme, unit) go) list \<Rightarrow> (('w, 'z) pool_ctrl_scheme, unit) go" where
  "pool_handlerCallback postfns = andThen (gets pool_ch) (\<lambda>ch. case ch of
      [] \<Rightarrow> block
    | name # rest \<Rightarrow> andThen (modify (\<lambda>s. s\<lparr>pool_ch := rest\<rparr>)) (\<lambda>_.
        andThen (GetPoolByIp name) (\<lambda>ori. forEach (\<lambda>fn. fn ori) postfns)))"

section \<open>Writing pools\<close>

fun asString :: "goval \<Rightarrow> string outcome" where
  "asString (GStr x) = Done x"
| "asString _ = Panic BadAssertion"

text \<open>\<open>for _, v := range s.Values() \<close> with \<open>v.(string)\<close> appended to a slice.\<close>

definition valueStrings :: "goset_ptr \<Rightarrow> (('w, 'z) base_scheme, string list) go" where
  "valueStrings p = andThen (set_Values p) (\<lambda>vs.
     lift (foldo (\<lambda>acc v. bindo (asString v) (\<lambda>x. Done (acc @ [x]))) [] vs))"

definition deletePool :: "'w pool_client \<Rightarrow> Pool option \<Rightarrow> (('w, 'z) pool_ctrl_scheme, err) go" where
  "deletePool c pl = (case pl of
      None \<Rightarrow> ret (Some (Errorf ''could not delete pool, id is null'' []))
    | Some p \<Rightarrow>
        if MainId p = [] then ret (Some (Errorf ''could not delete pool, id is null'' []))
        else andThen (inWorld (c_Get c (MainId p))) (\<lambda>r. case r of
          Inl e \<Rightarrow> if \<not> IsNotFound e then ret (Some e) else ret None
        | Inr pool \<Rightarrow>
            (let spec = sp_spec pool;
                 \<comment> \<open>the deferred \<open>n.Delete\<close> runs after the result is computed\<close>
                 deferred = (\<lambda>res. andThen (Backoff (inWorld (c_Delete c (metaName (sp_meta pool)))))
                    (\<lambda>_. ret res))
             in if sp_IPs spec \<noteq> sp_ExcludeIPs spec
                then andThen (Backoff (inWorld (c_Patch c
                       (pool\<lparr>sp_spec := spec\<lparr>sp_ExcludeIPs := sp_IPs spec\<rparr>\<rparr>) pool))) (\<lambda>_.
                     deferred (Some (Errorf ''capacityIP is not equal exlucdeIP, can not remove now'' [])))
                else if AllocatedIPCount (sp_status pool) \<noteq> None \<and>
                        AllocatedIPCount (sp_status pool) \<noteq> Some 0
                then deferred (Some (Errorf ''some ip allocated, can not remove now'' []))
                else andThen (Backoff (inWorld (c_Patch c
                       (pool\<lparr>sp_meta := RemoveFinalizer (sp_meta pool) FinializerController\<rparr>) pool))) (\<lambda>_.
                     deferred (Some (Errorf ''pool resource existed'' []))))))"

definition updatePool :: "'w pool_client \<Rightarrow> Pool \<Rightarrow> (('w, 'z) pool_ctrl_scheme, err) go" where
  "updatePool c pl =
     (if Subnat pl = [] then ret (Some (Errorf ''could not update pool, subnat is null'' []))
      else andThen (inWorld (c_Get c (MainId pl))) (\<lambda>r. case r of
        Inl e \<Rightarrow> ret (Some e)
      | Inr pool \<Rightarrow>
          if DeletionTimestamp (sp_meta pool) \<noteq> None
          then ret (Some (Errorf ''pool %v had been deleted'' [MainId pl]))
          else andThen (valueStrings (Namespace pl)) (\<lambda>ns.
            andThen (valueStrings (CapIp pl)) (\<lambda>ips.
            andThen (lift (foldo (\<lambda>acc ip. bindo (set_Contains (CapIp pl) [GStr ip])
                (\<lambda>b. Done (if b then acc else acc @ [ip]))) [] (elems (sp_IPs (sp_spec pool))))) (\<lambda>excludips.
            Backoff (inWorld (c_Patch c
              (pool\<lparr>sp_spec := (sp_spec pool)\<lparr>sp_NamespaceName := appended ns,
                 sp_ExcludeIPs := appended excludips, sp_IPs := appended ips\<rparr>\<rparr>) pool)))))))"

definition createPool :: "'w pool_client \<Rightarrow> Pool \<Rightarrow> (('w, 'z) pool_ctrl_scheme, err) go" where
  "createPool c pl = andThen (inWorld (c_Get c (MainId pl))) (\<lambda>r. case r of
      Inr _ \<Rightarrow> ret None
    | Inl e \<Rightarrow>
        if IsNotFound e
        then andThen (valueStrings (CapIp pl)) (\<lambda>ips. andThen (valueStrings (Namespace pl)) (\<lambda>nss.
          Backoff (inWorld (c_Create c
            \<lparr>sp_meta = emptyMeta\<lparr>metaName := MainId pl,
                Annotations := [(SubnatAnnotationsKey, Subnat pl)]\<rparr>,
             sp_spec = \<lparr>sp_IPVersion = Ipv4Family, sp_Subnet = [], sp_IPs = Some ips,
                sp_ExcludeIPs = None, sp_NamespaceName = Some nss,
                sp_NodeName = Some [pl_NodeName pl], sp_rest = []\<rparr>,
             sp_status = \<lparr>AllocatedIPs = None, AllocatedIPCount = None\<rparr>\<rparr>))))
        else ret (Some e))"

definition pool_UpdatePool ::
  "'w pool_client \<Rightarrow> Pool option \<Rightarrow> Event \<Rightarrow> (('w, 'z) pool_ctrl_scheme, err) go" where
  "pool_UpdatePool c pl ev = (case pl of
      None \<Rightarrow> ret (Some (Errorf ''could not update pool, id is null'' []))
    | Some p \<Rightarrow>
        if MainId p = [] then ret (Some (Errorf ''could not update pool, id is null'' []))
        else (case ev of
          DeleteE \<Rightarrow> inWorld (c_Delete c (MainId p))
        | UpdateE \<Rightarrow> updatePool c p
        | CreateE \<Rightarrow> createPool c p))"

definition spider_manager :: "'w pool_client \<Rightarrow> ('w, 'z) pool_ctrl_scheme pool_manager" where
  "spider_manager c = \<lparr>UpdatePool = pool_UpdatePool c, PoolSeq = pool_PoolSeq\<rparr>"

section \<open>The cache and the frame\<close>

definition cached :: "('w, 'z) pool_ctrl_scheme \<Rightarrow> Pool set" where
  "cached s = set (map snd (pools s))"

definition cache_ok :: "('w, 'z) pool_ctrl_scheme \<Rightarrow> bool" where
  "cache_ok s \<longleftrightarrow> wf_map (pools s) \<and> (\<forall>p\<in>cached s. wf_pool p)"

text \<open>Everything but the world and the tape.\<close>

definition pool_frame :: "('w, 'z) pool_ctrl_scheme \<Rightarrow> Pool gomap \<times> string list \<times> 'z" where
  "pool_frame s = (pools s, pool_ch s, pool_ctrl.more s)"

lemma pool_frame_upd [simp]:
  "pool_frame (s\<lparr>world := w\<rparr>) = pool_frame s" "pool_frame (s\<lparr>tape := t\<rparr>) = pool_frame s"
  by (simp_all add: pool_frame_def)

lemma pool_frameD:
  assumes "pool_frame s' = pool_frame s"
  shows "pools s' = pools s" and "pool_ch s' = pool_ch s" and "cached s' = cached s"
    and "cache_ok s' = cache_ok s"
  using assms by (simp_all add: pool_frame_def cached_def cache_ok_def)

lemma keeps_valueStrings [keeps_intro]:
  "(\<And>s t. f (s\<lparr>tape := t\<rparr>) = f s) \<Longrightarrow> keeps f (valueStrings p)"
  by (auto simp: valueStrings_def intro!: keeps_intro)

lemma keeps_updatePool: "keeps pool_frame (updatePool c p)"
  by (auto simp: updatePool_def intro!: keeps_intro)

lemma keeps_createPool: "keeps pool_frame (createPool c p)"
  by (auto simp: createPool_def intro!: keeps_intro)

lemma keeps_deletePool: "keeps pool_frame (deletePool c p)"
  by (auto simp: deletePool_def Let_def intro!: keeps_intro)

lemma keeps_UpdatePool: "keeps pool_frame (pool_UpdatePool c p ev)"
  by (auto simp: pool_UpdatePool_def keeps_updatePool keeps_createPool intro!: keeps_intro
      split: option.split Event.split)

lemma pool_PoolSeq_Done:
  obtains ps t where "pool_PoolSeq s = (Done ps, s\<lparr>tape := t\<rparr>)" and "set ps = cached s"
    and "mset ps = mset (map snd (pools s))"
proof -
  obtain ps t where "rangeOrder (map snd (pools s)) s = (Done ps, s\<lparr>tape := t\<rparr>)"
    and m: "mset ps = mset (map snd (pools s))" by (rule rangeOrder_Done)
  moreover from m have "set ps = cached s" by (metis cached_def set_mset_mset)
  ultimately show thesis using that by (simp add: pool_PoolSeq_def)
qed

interpretation sp: ippool_manager "spider_manager c" cached pool_frame cache_ok
  for c :: "'w pool_client"
proof unfold_locales
  fix s :: "('w, 'z) pool_ctrl_scheme"
  assume ok: "cache_ok s"
  obtain ps t where "pool_PoolSeq s = (Done ps, s\<lparr>tape := t\<rparr>)" "set ps = cached s"
    by (rule pool_PoolSeq_Done)
  moreover have "cached (s\<lparr>tape := t\<rparr>) = cached s" "cache_ok (s\<lparr>tape := t\<rparr>)"
    using ok by (simp_all add: cached_def cache_ok_def)
  ultimately show "\<exists>ps s'. PoolSeq (spider_manager c) s = (Done ps, s') \<and> set ps = cached s \<and>
      cached s' = cached s \<and> pool_frame s' = pool_frame s \<and> cache_ok s'"
    by (auto simp: spider_manager_def)
next
  fix s :: "('w, 'z) pool_ctrl_scheme" and q
  assume "cache_ok s" "q \<in> cached s"
  then show "wf_pool q" by (simp add: cache_ok_def)
next
  fix s s' :: "('w, 'z) pool_ctrl_scheme" and p ev r
  assume "cache_ok s" "UpdatePool (spider_manager c) p ev s = (r, s')"
  then have f: "pool_frame s' = pool_frame s"
    using keepsD [OF keeps_UpdatePool] by (simp add: spider_manager_def)
  show "cached s' = cached s \<and> pool_frame s' = pool_frame s \<and> cache_ok s'"
    using f pool_frameD(3,4) [OF f] \<open>cache_ok s\<close> by simp
next
  fix s :: "('w, 'z) pool_ctrl_scheme" and p
  show "\<exists>e s'. UpdatePool (spider_manager c) p DeleteE s = (Done e, s')"
    by (auto simp: spider_manager_def pool_UpdatePool_def inWorld_apply split: option.split)
next
  fix s :: "('w, 'z) pool_ctrl_scheme" and q :: Pool
  assume "MainId q = []"
  then show "\<exists>e s'. UpdatePool (spider_manager c) (Some q) DeleteE s = (Done (Some e), s')"
    by (simp add: spider_manager_def pool_UpdatePool_def)
qed

section \<open>Recording the calls to the API server\<close>

text \<open>A client that behaves like \<open>c\<close> and writes down every call.\<close>

datatype pool_call =
    GetC string | PatchC SpiderIPPool SpiderIPPool | CreateC SpiderIPPool | DeleteC string

definition logged :: "'w pool_client \<Rightarrow> ('w \<times> pool_call list) pool_client" where
  "logged c = \<lparr>
     c_Get = (\<lambda>n (w, l). case c_Get c n w of (r, w') \<Rightarrow> (r, (w', l @ [GetC n]))),
     c_Patch = (\<lambda>a b (w, l). case c_Patch c a b w of (r, w') \<Rightarrow> (r, (w', l @ [PatchC a b]))),
     c_Create = (\<lambda>a (w, l). case c_Create c a w of (r, w') \<Rightarrow> (r, (w', l @ [CreateC a]))),
     c_Delete = (\<lambda>n (w, l). case c_Delete c n w of (r, w') \<Rightarrow> (r, (w', l @ [DeleteC n])))\<rparr>"

definition log :: "('w \<times> 'c list, 'z) base_scheme \<Rightarrow> 'c list" where
  "log s = snd (world s)"

text \<open>A statement that returns and appends one call \<open>x\<close>, changing nothing else but the world.\<close>

definition one_call :: "'c \<Rightarrow> (('w \<times> 'c list, 'z) base_scheme, err) go \<Rightarrow> bool" where
  "one_call x op \<longleftrightarrow> (\<forall>s. \<exists>e w. op s = (Done e, s\<lparr>world := (w, log s @ [x])\<rparr>))"

lemma one_call_logged:
  "one_call (PatchC a b) (inWorld (c_Patch (logged c) a b))"
  "one_call (CreateC a) (inWorld (c_Create (logged c) a))"
  "one_call (DeleteC n) (inWorld (c_Delete (logged c) n))"
  by (auto simp: one_call_def logged_def inWorld_apply log_def case_prod_beta)

lemma attempts_one_call:
  assumes "one_call x op"
  shows "\<exists>e w k. attempts n op s = (Done e, s\<lparr>world := (w, log s @ replicate (Suc k) x)\<rparr>) \<and> k \<le> n"
proof (induction n arbitrary: s)
  case 0
  obtain e w where "op s = (Done e, s\<lparr>world := (w, log s @ [x])\<rparr>)"
    using assms unfolding one_call_def by blast
  then show ?case by auto
next
  case (Suc n)
  obtain e w where op: "op s = (Done e, s\<lparr>world := (w, log s @ [x])\<rparr>)"
    using assms unfolding one_call_def by blast
  let ?s = "s\<lparr>world := (w, log s @ [x])\<rparr>"
  obtain e' w' k where IH: "attempts n op ?s = (Done e', ?s\<lparr>world := (w', log ?s @ replicate (Suc k) x)\<rparr>)"
    and k: "k \<le> n" using Suc by blast
  have l: "log ?s @ replicate (Suc k) x = log s @ replicate (Suc (Suc k)) x" by (simp add: log_def)
  show ?case
  proof (cases "\<exists>e1. e = Some e1 \<and> permanent e1 = None")
    case True
    then have "attempts (Suc n) op s = (Done e', s\<lparr>world := (w', log s @ replicate (Suc (Suc k)) x)\<rparr>)"
      using op IH l by auto
    with k show ?thesis by (metis Suc_le_mono)
  next
    case False
    then have "\<exists>e''. attempts (Suc n) op s = (Done e'', s\<lparr>world := (w, log s @ replicate (Suc 0) x)\<rparr>)"
      using op by (auto split: option.splits)
    then show ?thesis by blast
  qed
qed

lemma Backoff_one_call:
  assumes "one_call x op"
  obtains e w k where "Backoff op s = (Done e, s\<lparr>world := (w, log s @ replicate (Suc k) x)\<rparr>)"
    and "k \<le> 3"
  using attempts_one_call [OF assms, of 3 s] by (auto simp: Backoff_attempts)

lemma logged_Get:
  "c_Get c n w = (r, w_get) \<Longrightarrow> world s = (w, l) \<Longrightarrow>
   inWorld (c_Get (logged c) n) s = (Done r, s\<lparr>world := (w_get, l @ [GetC n])\<rparr>)"
  by (simp add: logged_def inWorld_apply)

lemma log_upd [simp]: "log (s\<lparr>world := (w, l)\<rparr>) = l" "log (s\<lparr>tape := t\<rparr>) = log s"
  by (simp_all add: log_def)

section \<open>Deleting a pool\<close>

definition drained :: "SpiderIPPool \<Rightarrow> bool" where
  "drained pool \<longleftrightarrow> sp_IPs (sp_spec pool) = sp_ExcludeIPs (sp_spec pool) \<and>
     (AllocatedIPCount (sp_status pool) = None \<or> AllocatedIPCount (sp_status pool) = Some 0)"

text \<open>What \<open>deletePool\<close> may write about a pool it found.\<close>

definition delete_patch :: "SpiderIPPool \<Rightarrow> SpiderIPPool \<Rightarrow> bool" where
  "delete_patch pool new \<longleftrightarrow>
     (if drained pool then new = pool\<lparr>sp_meta := RemoveFinalizer (sp_meta pool) FinializerController\<rparr>
      else sp_IPs (sp_spec pool) \<noteq> sp_ExcludeIPs (sp_spec pool) \<and>
        new = pool\<lparr>sp_spec := (sp_spec pool)\<lparr>sp_ExcludeIPs := sp_IPs (sp_spec pool)\<rparr>\<rparr>)"


section \<open>Updating and creating a pool\<close>

definition strings_only :: "goset_ptr \<Rightarrow> bool" where
  "strings_only p \<longleftrightarrow> wf_set p \<and> members p \<subseteq> range GStr"

definition strs :: "goset_ptr \<Rightarrow> string set" where
  "strs p = {x. GStr x \<in> members p}"

lemma collect_strings:
  "\<forall>v\<in>set vs. v \<in> range GStr \<Longrightarrow>
   \<exists>xs. foldo (\<lambda>acc v. bindo (asString v) (\<lambda>x. Done (acc @ [x]))) acc vs = Done (acc @ xs) \<and> map GStr xs = vs"
proof (induction vs arbitrary: acc)
  case (Cons v vs)
  then obtain x where v: "v = GStr x" by auto
  obtain xs where "foldo (\<lambda>acc v. bindo (asString v) (\<lambda>x. Done (acc @ [x]))) (acc @ [x]) vs =
      Done ((acc @ [x]) @ xs)" "map GStr xs = vs"
    using Cons by fastforce
  with v show ?case by (intro exI [of _ "x # xs"]) simp
qed simp

lemma valueStrings_Done:
  assumes "strings_only p"
  obtains xs t where "valueStrings p s = (Done xs, s\<lparr>tape := t\<rparr>)" and "set xs = strs p"
proof -
  have wf: "wf_set p" and str: "members p \<subseteq> range GStr" using assms by (auto simp: strings_only_def)
  obtain ys t where ys: "set_Values p s = (Done ys, s\<lparr>tape := t\<rparr>)" "set ys = members p"
    using set_Values_Done [OF wf] by metis
  then obtain xs where xs: "foldo (\<lambda>acc v. bindo (asString v) (\<lambda>x. Done (acc @ [x]))) [] ys = Done xs"
    "map GStr xs = ys" using collect_strings [of ys "[]"] str by auto
  have m: "members p = GStr ` set xs" using xs(2) ys(2) by (metis set_map)
  have "set xs = strs p" unfolding strs_def m by auto
  with ys(1) xs(1) that show thesis by (simp add: valueStrings_def)
qed

lemma excluded:
  assumes "wf_set p"
  shows "foldo (\<lambda>acc ip. bindo (set_Contains p [GStr ip]) (\<lambda>b. Done (if b then acc else acc @ [ip]))) acc ips =
     Done (acc @ filter (\<lambda>ip. ip \<notin> strs p) ips)"
  by (induction ips arbitrary: acc) (auto simp: set_Contains_ok [OF assms] strs_def)

text \<open>
  (C10) Updating a pool. When the object exists and is not being deleted, \<open>updatePool\<close> reads it once
  and patches it with the capacity set as its addresses and with exactly the former addresses
  outside that set as exclusions (in their old order), retrying the same patch at most three
  more times; metadata, node names and status are sent unchanged. So no address of the object is
  ever dropped silently: it stays listed or becomes excluded, never both.
\<close>

theorem updatePool_accounts:
  assumes "Subnat pl \<noteq> []" and "strings_only (Namespace pl)" and "strings_only (CapIp pl)"
    and get: "c_Get c (MainId pl) w = (Inr pool, w_get)" and live: "DeletionTimestamp (sp_meta pool) = None"
    and s: "world s = (w, l)"
  shows "\<exists>e s' new k. updatePool (logged c) pl s = (Done e, s') \<and> k \<le> 3 \<and>
     log s' = l @ GetC (MainId pl) # replicate (Suc k) (PatchC new pool) \<and>
     set (elems (sp_IPs (sp_spec new))) = strs (CapIp pl) \<and>
     set (elems (sp_NamespaceName (sp_spec new))) = strs (Namespace pl) \<and>
     elems (sp_ExcludeIPs (sp_spec new)) =
       filter (\<lambda>ip. ip \<notin> strs (CapIp pl)) (elems (sp_IPs (sp_spec pool))) \<and>
     sp_NodeName (sp_spec new) = sp_NodeName (sp_spec pool) \<and>
     sp_meta new = sp_meta pool \<and> sp_status new = sp_status pool"
proof -
  let ?s1 = "s\<lparr>world := (w_get, l @ [GetC (MainId pl)])\<rparr>"
  have g: "inWorld (c_Get (logged c) (MainId pl)) s = (Done (Inr pool), ?s1)"
    by (rule logged_Get [OF get s])
  obtain ns t1 where ns: "valueStrings (Namespace pl) ?s1 = (Done ns, ?s1\<lparr>tape := t1\<rparr>)"
    "set ns = strs (Namespace pl)" using valueStrings_Done [OF assms(2)] by metis
  obtain ips t2 where ips: "valueStrings (CapIp pl) (?s1\<lparr>tape := t1\<rparr>) = (Done ips, ?s1\<lparr>tape := t1\<rparr>\<lparr>tape := t2\<rparr>)"
    "set ips = strs (CapIp pl)" using valueStrings_Done [OF assms(3)] by metis
  let ?s2 = "?s1\<lparr>tape := t1\<rparr>\<lparr>tape := t2\<rparr>"
  let ?ex = "filter (\<lambda>ip. ip \<notin> strs (CapIp pl)) (elems (sp_IPs (sp_spec pool)))"
  let ?new = "pool\<lparr>sp_spec := (sp_spec pool)\<lparr>sp_NamespaceName := appended ns,
      sp_ExcludeIPs := appended ?ex, sp_IPs := appended ips\<rparr>\<rparr>"
  have wf: "wf_set (CapIp pl)" using assms(3) by (simp add: strings_only_def)
  obtain e w' k where b: "Backoff (inWorld (c_Patch (logged c) ?new pool)) ?s2 =
      (Done e, ?s2\<lparr>world := (w', log ?s2 @ replicate (Suc k) (PatchC ?new pool))\<rparr>)" and k: "k \<le> 3"
    by (rule Backoff_one_call [OF one_call_logged(1)])
  let ?s3 = "?s2\<lparr>world := (w', log ?s2 @ replicate (Suc k) (PatchC ?new pool))\<rparr>"
  have run: "updatePool (logged c) pl s = (Done e, ?s3)"
    using assms(1) live g ns(1) ips(1) b by (simp add: updatePool_def excluded [OF wf])
  show ?thesis
    by (intro exI [of _ e] exI [of _ ?s3] exI [of _ ?new] exI [of _ k] conjI run)
      (simp_all add: k ns(2) ips(2))
qed


section \<open>Reconciling a pool\<close>

text \<open>What the reconciler keeps true of its cache: well-formed pools, none with an id.\<close>

definition pool_inv :: "('w, 'z) pool_ctrl_scheme \<Rightarrow> bool" where
  "pool_inv s \<longleftrightarrow> cache_ok s \<and> (\<forall>p\<in>cached s. MainId p = [])"

definition cache_pool :: "Pool \<Rightarrow> bool" where
  "cache_pool p \<longleftrightarrow> wf_pool p \<and> MainId p = []"

lemma pool_inv_alt: "pool_inv s \<longleftrightarrow> wf_map (pools s) \<and> (\<forall>p\<in>set (map snd (pools s)). cache_pool p)"
  by (auto simp: pool_inv_def cache_ok_def cached_def cache_pool_def)

lemma pool_inv_lookup: "pool_inv s \<Longrightarrow> lookup (pools s) k = Some p \<Longrightarrow> cache_pool p"
  using lookup_values by (fastforce simp: pool_inv_alt)

lemma pool_inv_update:
  "pool_inv s \<Longrightarrow> cache_pool p \<Longrightarrow> pool_inv (s\<lparr>pools := AList.update k p (pools s)\<rparr>)"
  using set_update_subset [of k p "pools s"] by (force simp: pool_inv_alt)

lemma pool_inv_delete: "pool_inv s \<Longrightarrow> pool_inv (s\<lparr>pools := AList.delete k (pools s)\<rparr>)"
  using set_delete_subset [of k "pools s"] by (force simp: pool_inv_alt)

lemma pool_inv_upd [simp]:
  "pool_inv (s\<lparr>world := w\<rparr>) = pool_inv s" "pool_inv (s\<lparr>tape := t\<rparr>) = pool_inv s"
  by (simp_all add: pool_inv_alt)

lemma add_to_cache_pool:
  assumes "cache_pool p"
  shows "hashable v \<Longrightarrow> \<exists>q. add_Namespace v p = Done q \<and> cache_pool q"
    and "hashable v \<Longrightarrow> \<exists>q. add_CapIp v p = Done q \<and> cache_pool q"
    and "hashable v \<Longrightarrow> \<exists>q. add_UsedIp v p = Done q \<and> cache_pool q"
    and "add_CapIp (GSlice sl) p = Panic Unhashable"
proof -
  have wf: "wf_set (Namespace p)" "wf_set (CapIp p)" "wf_set (UsedIp p)" and id: "MainId p = []"
    using assms by (simp_all add: cache_pool_def wf_pool_def)
  show "\<exists>q. add_Namespace v p = Done q \<and> cache_pool q" if "hashable v"
    using hs.add_one [OF wf(1) that] wf id by (auto simp: add_Namespace_def cache_pool_def wf_pool_def)
  show "\<exists>q. add_CapIp v p = Done q \<and> cache_pool q" if "hashable v"
    using hs.add_one [OF wf(2) that] wf id by (auto simp: add_CapIp_def cache_pool_def wf_pool_def)
  show "\<exists>q. add_UsedIp v p = Done q \<and> cache_pool q" if "hashable v"
    using hs.add_one [OF wf(3) that] wf id by (auto simp: add_UsedIp_def cache_pool_def wf_pool_def)
  show "add_CapIp (GSlice sl) p = Panic Unhashable"
    using set_Add_unhashable [OF wf(2), of "GSlice sl"] by (simp add: add_CapIp_def)
qed

lemma onPool_cases:
  assumes "pool_inv s" and "lookup (pools s) k = Some p"
    and "\<And>p. cache_pool p \<Longrightarrow> \<exists>q. f p = Done q \<and> cache_pool q"
  obtains q where "onPool k f s = (Done (), s\<lparr>pools := AList.update k q (pools s)\<rparr>)" and "cache_pool q"
  using assms(3) [OF pool_inv_lookup [OF assms(1,2)]] assms(2) that by (auto simp: onPool_def)

lemma preserves_onPool:
  assumes "\<And>p q. cache_pool p \<Longrightarrow> f p = Done q \<Longrightarrow> cache_pool q"
  shows "preserves pool_inv (onPool k f)"
  unfolding preserves_def
proof (intro allI impI)
  fix s :: "('a, 'b) pool_ctrl_scheme" assume inv: "pool_inv s"
  show "pool_inv (snd (onPool k f s))"
  proof (cases "lookup (pools s) k")
    case None
    then show ?thesis using inv by (simp add: onPool_def)
  next
    case (Some p)
    then have "cache_pool p" using inv by (blast intro: pool_inv_lookup)
    with Some inv assms show ?thesis
      by (cases "f p") (auto simp: onPool_def andThen_apply intro: pool_inv_update)
  qed
qed

lemma preserves_pool_inWorld [preserves_intro]: "preserves pool_inv (inWorld f)"
  by (auto simp: preserves_def inWorld_apply)

lemma preserves_pool_rangeOrder [preserves_intro]: "preserves pool_inv (rangeOrder xs)"
  by (auto simp: preserves_def rangeOrder_def split: list.splits)

lemma preserves_onPool_add [preserves_intro]:
  "preserves pool_inv (onPool k (add_Namespace (GInt i)))"
  "preserves pool_inv (onPool k (add_UsedIp (GStr x)))"
  "preserves pool_inv (onPool k (add_CapIp (GSlice sl)))"
  by (rule preserves_onPool, metis add_to_cache_pool(1) hashable.simps(3) outcome.inject(1),
      rule preserves_onPool, metis add_to_cache_pool(3) hashable.simps(2) outcome.inject(1),
      rule preserves_onPool, metis add_to_cache_pool(4) outcome.distinct(1))

lemma pool_Reconcile_preserves: "preserves pool_inv (pool_Reconcile c unmarshal n)"
  unfolding pool_Reconcile_def Let_def
  by (intro preserves_andThen preserves_case_sum preserves_if preserves_case_option
      preserves_case_list preserves_intro)
    (auto intro!: pool_inv_delete pool_inv_update simp: cache_pool_def wf_pool_def)

lemma keeps_onPool [keeps_intro]: "keeps pool_ch (onPool k f)"
  by (auto simp: onPool_def intro!: keeps_intro)

lemma pool_Reconcile_channel: "keeps pool_ch (pool_Reconcile c unmarshal n)"
  unfolding pool_Reconcile_def Let_def
  by (intro keeps_intro) (auto intro!: keeps_intro split: list.splits)

lemma index_loop:
  assumes "pool_inv s" and "lookup (pools s) k = Some p"
  shows "\<exists>s'. forEach (\<lambda>i. onPool k (add_Namespace (GInt (int i)))) is s = (Done (), s') \<and>
     pool_inv s' \<and> lookup (pools s') k \<noteq> None"
  using assms
proof (induction "is" arbitrary: s p)
  case (Cons i "is")
  obtain q where q: "onPool k (add_Namespace (GInt (int i))) s =
      (Done (), s\<lparr>pools := AList.update k q (pools s)\<rparr>)" "cache_pool q"
    using onPool_cases [OF Cons.prems] add_to_cache_pool(1) by (metis hashable.simps(3))
  let ?s = "s\<lparr>pools := AList.update k q (pools s)\<rparr>"
  have "pool_inv ?s" "lookup (pools ?s) k = Some q"
    using Cons.prems q(2) by (simp_all add: pool_inv_update)
  from Cons.IH [OF this] q(1) show ?case by simp
qed simp

text \<open>
  (C9) Every branch of the reconciler. An object the API server does not know is dropped from the
  cache; any other read error is returned and changes nothing; an object without the subnet
  annotation is ignored. For every annotated object the reconciler panics: on an object without
  node names the index is out of range, on any other the whole address slice is put into a hash
  set. Hence the code behind \<open>pool.CapIp.Add(in.Spec.IPs)\<close> never runs.
\<close>

theorem pool_Reconcile_outcome:
  assumes inv: "pool_inv s" and get: "c_Get c n (world s) = (r, w)"
  shows "case r of
      Inl e \<Rightarrow> pool_Reconcile c unmarshal n s =
        (if IsNotFound e then (Done None, s\<lparr>world := w, pools := AList.delete n (pools s)\<rparr>)
         else (Done (Some e), s\<lparr>world := w\<rparr>))
    | Inr pool \<Rightarrow>
        if \<not> pool_filter pool then pool_Reconcile c unmarshal n s = (Done None, s\<lparr>world := w\<rparr>)
        else if lookup (pools s) (metaName (sp_meta pool)) = None \<and> elems (sp_NodeName (sp_spec pool)) = []
        then pool_Reconcile c unmarshal n s = (Panic IndexRange, s\<lparr>world := w\<rparr>)
        else \<exists>s'. pool_Reconcile c unmarshal n s = (Panic Unhashable, s')"
proof (cases r)
  case (Inl e)
  then show ?thesis using get by (simp add: pool_Reconcile_def)
next
  case (Inr pool)
  let ?k = "metaName (sp_meta pool)" and ?s1 = "s\<lparr>world := w\<rparr>"
  have panics: "\<exists>s'. andThen (forEach (\<lambda>i. onPool ?k (add_Namespace (GInt (int i)))) is) (\<lambda>_.
      andThen (onPool ?k (add_CapIp (GSlice sl))) rest) s2 = (Panic Unhashable, s')"
    if i2: "pool_inv s2" and l2: "lookup (pools s2) ?k = Some p" for s2 p "is" sl
      and rest :: "unit \<Rightarrow> (('a, 'b) pool_ctrl_scheme, err) go"
  proof -
    obtain s3 where s3: "forEach (\<lambda>i. onPool ?k (add_Namespace (GInt (int i)))) is s2 = (Done (), s3)"
      "pool_inv s3" "lookup (pools s3) ?k \<noteq> None" using index_loop [OF i2 l2] by blast
    then obtain q where "lookup (pools s3) ?k = Some q" "cache_pool q"
      using pool_inv_lookup by blast
    then have "onPool ?k (add_CapIp (GSlice sl)) s3 = (Panic Unhashable, s3)"
      by (simp add: onPool_def add_to_cache_pool(4))
    with s3(1) show ?thesis by simp
  qed
  show ?thesis
  proof (cases "lookup (Annotations (sp_meta pool)) SubnatAnnotationsKey")
    case None
    then show ?thesis using Inr get by (simp add: pool_Reconcile_def pool_filter_def)
  next
    case (Some subnat)
    show ?thesis
    proof (cases "lookup (pools s) ?k")
      case (Some p)
      moreover have "pool_inv ?s1" using inv by simp
      ultimately show ?thesis
        using Inr get \<open>lookup (Annotations _) _ = Some subnat\<close> panics [of ?s1 p]
        by (simp add: pool_Reconcile_def pool_filter_def Let_def)
    next
      case None
      show ?thesis
      proof (cases "elems (sp_NodeName (sp_spec pool))")
        case Nil
        with None Some Inr get show ?thesis by (simp add: pool_Reconcile_def pool_filter_def Let_def)
      next
        case (Cons nd nds)
        let ?p = "\<lparr>pl_NodeName = nd, MainId = [], Subnat = subnat, Namespace = Some [],
            CapIp = Some [], UsedIp = Some []\<rparr>"
        let ?s2 = "?s1\<lparr>pools := AList.update ?k ?p (pools ?s1)\<rparr>"
        have "pool_inv ?s2"
          using inv by (intro pool_inv_update) (simp_all add: cache_pool_def wf_pool_def)
        moreover have "lookup (pools ?s2) ?k = Some ?p" by simp
        ultimately show ?thesis
          using None Some Inr get Cons panics [of ?s2 ?p]
          by (simp add: pool_Reconcile_def pool_filter_def Let_def)
      qed
    qed
  qed
qed

section \<open>Runs of the controller\<close>

text \<open>
  The states the controller can be in: it starts empty, reconciles objects, is asked to update
  pools, and the world changes under it at any time. A call may return or panic; the states
  after a panic are included, so the facts below hold whether or not the framework recovers it.
\<close>

inductive pool_reachable ::
  "'w pool_client \<Rightarrow> (string \<Rightarrow> string list option) \<Rightarrow> 'w pool_ctrl \<Rightarrow> bool"
  for c unmarshal where
  start: "pool_reachable c unmarshal (pool_NewControllerManager w t)"
| reconcile: "pool_reachable c unmarshal s \<Longrightarrow> pool_Reconcile c unmarshal n s = (r, s') \<Longrightarrow>
    pool_reachable c unmarshal s'"
| update: "pool_reachable c unmarshal s \<Longrightarrow> pool_UpdatePool c p ev s = (r, s') \<Longrightarrow>
    pool_reachable c unmarshal s'"
| environment: "pool_reachable c unmarshal s \<Longrightarrow> pool_reachable c unmarshal (s\<lparr>world := w\<rparr>)"

lemma pool_reachable_inv: "pool_reachable c unmarshal s \<Longrightarrow> pool_inv s \<and> pool_ch s = []"
proof (induction rule: pool_reachable.induct)
  case (start w t)
  show ?case by (simp add: pool_NewControllerManager_def pool_inv_alt)
next
  case (reconcile s n r s')
  then show ?case
    using preservesD [OF pool_Reconcile_preserves] keepsD [OF pool_Reconcile_channel] by metis
next
  case (update s p ev r s')
  then have f: "pool_frame s' = pool_frame s" using keepsD [OF keeps_UpdatePool] by blast
  show ?case using pool_frameD [OF f] update.IH by (simp add: pool_inv_def)
next
  case (environment s w)
  then show ?case by simp
qed

text \<open>
  (C12) In every run of the controller the cache is well formed, no cached pool carries its id,
  and nothing is ever put on the callback channel: the callback loop waits for ever, whatever
  callbacks are registered, and updating, creating or deleting any pool read from the cache
  fails with an error before the API server is asked.
\<close>

theorem pool_callbacks_never_run:
  assumes "pool_reachable c unmarshal s"
  shows "cache_ok s \<and> pool_handlerCallback postfns s = (Blocked, s) \<and>
    (\<forall>p ev. p \<in> cached s \<longrightarrow> (\<exists>e. pool_UpdatePool c (Some p) ev s = (Done (Some e), s)))"
  using pool_reachable_inv [OF assms]
  by (auto simp: pool_handlerCallback_def pool_inv_def pool_UpdatePool_def)

section \<open>Witnesses\<close>

text \<open>A pool object with two addresses, a cached pool that keeps one of them, and API servers that answer with a fixed object.\<close>

definition ex_obj :: SpiderIPPool where
  "ex_obj = \<lparr>sp_meta = emptyMeta\<lparr>metaName := ''eni-1'', Finalizers := [''controller.eni.io''],
       Annotations := [(''pool.eni.io/subnatname'', ''default'')]\<rparr>,
     sp_spec = \<lparr>sp_IPVersion = Some 4, sp_Subnet = [], sp_IPs = Some [''10.0.0.1'', ''10.0.0.2''],
       sp_ExcludeIPs = None, sp_NamespaceName = None, sp_NodeName = Some [''node-a''], sp_rest = []\<rparr>,
     sp_status = \<lparr>AllocatedIPs = None, AllocatedIPCount = None\<rparr>\<rparr>"

definition ex_pool :: Pool where
  "ex_pool = \<lparr>pl_NodeName = ''node-a'', MainId = ''eni-1'', Subnat = ''default'',
     Namespace = Some [GStr ''kube-system''], CapIp = Some [GStr ''10.0.0.1''], UsedIp = Some []\<rparr>"

definition answering :: "go_error + SpiderIPPool \<Rightarrow> unit pool_client" where
  "answering r = \<lparr>c_Get = (\<lambda>n w. (r, w)), c_Patch = (\<lambda>a b w. (None, w)),
     c_Create = (\<lambda>a w. (None, w)), c_Delete = (\<lambda>n w. (None, w))\<rparr>"

definition ex_logged :: "(unit \<times> pool_call list) pool_ctrl" where
  "ex_logged = pool_NewControllerManager ((), []) []"

lemmas ex_pool_simps = ex_obj_def ex_pool_def answering_def ex_logged_def
  pool_NewControllerManager_def emptyMeta_def SubnatAnnotationsKey_def


theorem updatePool_accounts_witness:
  "\<exists>e s' new k. updatePool (logged (answering (Inr ex_obj))) ex_pool ex_logged = (Done e, s') \<and> k \<le> 3 \<and>
     log s' = [] @ GetC (MainId ex_pool) # replicate (Suc k) (PatchC new ex_obj) \<and>
     set (elems (sp_IPs (sp_spec new))) = strs (CapIp ex_pool) \<and>
     set (elems (sp_NamespaceName (sp_spec new))) = strs (Namespace ex_pool) \<and>
     elems (sp_ExcludeIPs (sp_spec new)) =
       filter (\<lambda>ip. ip \<notin> strs (CapIp ex_pool)) (elems (sp_IPs (sp_spec ex_obj))) \<and>
     sp_NodeName (sp_spec new) = sp_NodeName (sp_spec ex_obj) \<and>
     sp_meta new = sp_meta ex_obj \<and> sp_status new = sp_status ex_obj"
  by (rule updatePool_accounts [where w = "()" and w_get = "()"])
    (simp_all add: ex_pool_simps strings_only_def)


theorem pool_Reconcile_outcome_witness:
  "\<exists>s'. pool_Reconcile (answering (Inr ex_obj)) (\<lambda>_. None) ''eni-1''
     (pool_NewControllerManager () [] :: unit pool_ctrl) = (Panic Unhashable, s')"
  using pool_Reconcile_outcome [of "pool_NewControllerManager () [] :: unit pool_ctrl"
      "answering (Inr ex_obj)" "''eni-1''" "Inr ex_obj" "()" "\<lambda>_. None"]
  by (simp add: ex_pool_simps pool_inv_alt pool_filter_def)

definition ex_after :: "unit pool_ctrl" where
  "ex_after = snd (pool_Reconcile (answering (Inr ex_obj)) (\<lambda>_. None) ''eni-1'' (pool_NewControllerManager () []))"

theorem pool_callbacks_never_run_witness:
  "pool_handlerCallback [\<lambda>_. raise NilDeref] ex_after = (Blocked, ex_after) \<and>
   (\<exists>p. p \<in> cached ex_after \<and> pl_NodeName p = ''node-a'' \<and>
     (\<exists>e. pool_UpdatePool (answering (Inr ex_obj)) (Some p) DeleteE ex_after = (Done (Some e), ex_after)))"
proof -
  have "pool_reachable (answering (Inr ex_obj)) (\<lambda>_. None) ex_after"
    unfolding ex_after_def by (rule pool_reachable.reconcile [OF pool_reachable.start]) (rule prod.collapse [symmetric])
  note never = pool_callbacks_never_run [OF this, of "[\<lambda>_. raise NilDeref]"]
  have "\<exists>p. p \<in> cached ex_after \<and> pl_NodeName p = ''node-a''"
    by (simp add: ex_after_def pool_Reconcile_def ex_pool_simps onPool_def add_CapIp_def andThen_apply
        inWorld_apply cached_def Let_def)
  with never show ?thesis by blast
qed

end
