(* ===== verification/Node.thy ===== *)
theory Node
  imports Spiderpool
begin

text \<open>
  \<open>src/pkg/node\<close>: the controller that caches the annotated nodes of the cluster, guards their
  removal with a finalizer, and tells its callbacks about nodes through a channel of capacity
  16. It uses the pools through \<open>ippool.Manager\<close> only, and offers \<open>node.Manager\<close> to the vpc
  controller. The node API of the server is a parameter.
\<close>

section \<open>Data\<close>

record NodeInfo =
  ni_Name :: string
  NodeId :: string
  NodeIp :: string
  deleted :: bool

definition zeroNodeInfo :: NodeInfo where
  "zeroNodeInfo = \<lparr>ni_Name = [], NodeId = [], NodeIp = [], deleted = False\<rparr>"

definition node_DeepCopy :: "NodeInfo \<Rightarrow> NodeInfo" where
  "node_DeepCopy ni = zeroNodeInfo\<lparr>NodeId := NodeId ni, NodeIp := NodeIp ni, ni_Name := ni_Name ni\<rparr>"

definition IsDeleted :: "NodeInfo \<Rightarrow> bool" where
  "IsDeleted ni = deleted ni"

text \<open>
  \<open>MapDeepCopy\<close>: copies every set of \<open>src\<close> into \<open>dest\<close>; does nothing when either map is nil.
\<close>

definition MapDeepCopy ::
  "(goset_ptr gomap) option \<Rightarrow> (goset_ptr gomap) option \<Rightarrow> (('w, 'z) base_scheme, (goset_ptr gomap) option) go" where
  "MapDeepCopy src dest = (case (src, dest) of
      (Some m, Some d) \<Rightarrow> andThen (rangeOrder m) (\<lambda>kvs.
        andThen (lift (foldo (\<lambda>d (k, st). bindo (set_Copy st) (\<lambda>st'. Done (AList.update k st' d))) d kvs))
          (\<lambda>d'. ret (Some d')))
    | _ \<Rightarrow> ret dest)"

record 'w node_client =
  n_Get :: "string \<Rightarrow> 'w \<Rightarrow> (go_error + NodeObj) \<times> 'w"
  n_Patch :: "NodeObj \<Rightarrow> NodeObj \<Rightarrow> 'w \<Rightarrow> err \<times> 'w"

record 'w node_ctrl = "'w pool_ctrl" +
  nodes :: "NodeInfo gomap"
  node_ch :: "string list"

definition node_ch_cap :: nat where
  "node_ch_cap = 16"

definition node_NewControllerManager :: "'w \<Rightarrow> nat list list \<Rightarrow> 'w node_ctrl" where
  "node_NewControllerManager w t = \<lparr>world = w, tape = t, pools = [], pool_ch = [], nodes = [], node_ch = []\<rparr>"

section \<open>Operations\<close>

text \<open>The event filter registered by \<open>probe\<close>.\<close>

definition node_filter :: "NodeObj \<Rightarrow> bool" where
  "node_filter no = (lookup (Annotations (no_meta no)) InstanceAnnotationKey \<noteq> None)"

text \<open>\<open>n.ch <- name\<close> on the buffered channel.\<close>

definition node_send :: "string \<Rightarrow> (('w, 'z) node_ctrl_scheme, unit) go" where
  "node_send name = andThen (gets node_ch) (\<lambda>ch.
     if length ch < node_ch_cap then modify (\<lambda>s. s\<lparr>node_ch := ch @ [name]\<rparr>) else block)"

definition node_CouldRemove ::
  "('w, 'z) node_ctrl_scheme pool_manager \<Rightarrow> string \<Rightarrow> (('w, 'z) node_ctrl_scheme, bool) go" where
  "node_CouldRemove pm no = andThen (EachPool pm (\<lambda>err p.
      if pl_NodeName p = no
      then andThen (UpdatePool pm (Some p) DeleteE) (\<lambda>err1. ret (joinErr err err1, None))
      else ret (err, None)) None)
    (\<lambda>err. ret (err = None))"

fun internalIp :: "NodeAddress list \<Rightarrow> string option" where
  "internalIp [] = None"
| "internalIp (a # as) = (if addrType a = ''InternalIP'' then Some (Address a) else internalIp as)"

text \<open>The fields a live node object sets in its cache entry.\<close>

definition fillInfo :: "NodeObj \<Rightarrow> NodeInfo \<Rightarrow> NodeInfo" where
  "fillInfo inp info =
     (let info = (if NodeId info = []
                  then info\<lparr>NodeId := (case lookup (Annotations (no_meta inp)) InstanceAnnotationKey of
                      Some v \<Rightarrow> v | None \<Rightarrow> [])\<rparr>
                  else info)
      in case internalIp (no_Addresses inp) of
           Some ip \<Rightarrow> info\<lparr>NodeIp := ip\<rparr>
         | None \<Rightarrow> info)"

definition setNode :: "string \<Rightarrow> NodeInfo \<Rightarrow> (('w, 'z) node_ctrl_scheme, unit) go" where
  "setNode k info = modify (\<lambda>s. s\<lparr>nodes := AList.update k info (nodes s)\<rparr>)"

definition node_Reconcile ::
  "'w node_client \<Rightarrow> ('w, 'z) node_ctrl_scheme pool_manager \<Rightarrow> string \<Rightarrow> (('w, 'z) node_ctrl_scheme, err) go" where
  "node_Reconcile c pm reqName = andThen (inWorld (n_Get c reqName)) (\<lambda>r. case r of
      Inl e \<Rightarrow> if IsNotFound e then ret None else ret (Some e)
    | Inr inp \<Rightarrow> (let name = metaName (no_meta inp) in
        andThen (gets (\<lambda>s. lookup (nodes s) name)) (\<lambda>old.
        (let info = (case old of Some i \<Rightarrow> i | None \<Rightarrow> zeroNodeInfo)\<lparr>ni_Name := name\<rparr> in
        andThen (setNode name info) (\<lambda>_.
        if deleted info then
          andThen (node_CouldRemove pm name) (\<lambda>could.
            if could
            then inWorld (n_Patch c (inp\<lparr>no_meta := RemoveFinalizer (no_meta inp) FinializerController\<rparr>) inp)
            else ret None)
        else
          andThen (setNode name (fillInfo inp info)) (\<lambda>_.
          if DeletionTimestamp (no_meta inp) \<noteq> None
          then andThen (setNode name ((fillInfo inp info)\<lparr>deleted := True\<rparr>)) (\<lambda>_. ret None)
          else andThen (node_send name) (\<lambda>_.
            if \<not> ContainsFinalizer (no_meta inp) FinializerController
            then inWorld (n_Patch c (inp\<lparr>no_meta := AddFinalizer (no_meta inp) FinializerController\<rparr>) inp)
            else ret None)))))))"

text \<open>One round of \<open>handlerCallback\<close>; nil callbacks are skipped.\<close>

definition node_handlerCallback ::
  "(NodeInfo option \<Rightarrow> (('w, 'z) node_ctrl_scheme, unit) go) option list \<Rightarrow> (('w, 'z) node_ctrl_scheme, unit) go" where
  "node_handlerCallback postfns = andThen (gets node_ch) (\<lambda>ch. case ch of
      [] \<Rightarrow> block
    | name # rest \<Rightarrow> andThen (modify (\<lambda>s. s\<lparr>node_ch := rest\<rparr>)) (\<lambda>_.
        andThen (gets (\<lambda>s. map_option node_DeepCopy (lookup (nodes s) name))) (\<lambda>ori.
        forEach (\<lambda>fn. case fn of Some f \<Rightarrow> f ori | None \<Rightarrow> ret ()) postfns)))"

text \<open>\<open>GetNode\<close> fills in a partial description from the first cached node that shares a field.\<close>

fun GetNode_loop :: "NodeInfo list \<Rightarrow> NodeInfo \<Rightarrow> NodeInfo" where
  "GetNode_loop [] no = no"
| "GetNode_loop (info # is) no =
     (if NodeIp info = NodeIp no then no\<lparr>ni_Name := ni_Name info, NodeId := NodeId info\<rparr>
      else if NodeId info = NodeId no then no\<lparr>ni_Name := ni_Name info, NodeIp := NodeIp info\<rparr>
      else if ni_Name info = ni_Name no then no\<lparr>NodeId := NodeId info, NodeIp := NodeIp info\<rparr>
      else GetNode_loop is no)"

definition GetNode :: "NodeInfo option \<Rightarrow> (('w, 'z) node_ctrl_scheme, NodeInfo option) go" where
  "GetNode no = (case no of
      None \<Rightarrow> ret None
    | Some n \<Rightarrow> andThen (gets nodes) (\<lambda>m. andThen (rangeOrder (map snd m)) (\<lambda>is.
        ret (Some (GetNode_loop is n)))))"

section \<open>The interface Manager\<close>

record 's node_manager =
  NodeSeq :: "('s, NodeInfo list) go"
  CouldRemove :: "string \<Rightarrow> ('s, bool) go"

definition EachNode ::
  "'s node_manager \<Rightarrow> ('a \<Rightarrow> NodeInfo \<Rightarrow> ('s, 'a \<times> err) go) \<Rightarrow> 'a \<Rightarrow> ('s, 'a) go" where
  "EachNode nm fn a = andThen (NodeSeq nm) (\<lambda>ns. foldUntil fn a ns)"

definition node_NodeSeq :: "(('w, 'z) node_ctrl_scheme, NodeInfo list) go" where
  "node_NodeSeq = andThen (gets nodes) (\<lambda>m. rangeOrder (map snd m))"

definition node_manager_of ::
  "('w, 'z) node_ctrl_scheme pool_manager \<Rightarrow> ('w, 'z) node_ctrl_scheme node_manager" where
  "node_manager_of pm = \<lparr>NodeSeq = node_NodeSeq, CouldRemove = node_CouldRemove pm\<rparr>"

text \<open>
  The contract of \<open>EachNode\<close>: it walks over the cached nodes, each once, in some order, and changes
  nothing but the tape of orders itself.
\<close>

locale node_source =
  fixes nm :: "('w, 'z) base_scheme node_manager"
    and listed :: "('w, 'z) base_scheme \<Rightarrow> NodeInfo list"
  assumes node_seq: "\<exists>ns t. NodeSeq nm s = (Done ns, s\<lparr>tape := t\<rparr>) \<and> mset ns = mset (listed s)"
begin

lemma EachNode_walks:
  obtains ns t where "EachNode nm fn a s = foldUntil fn a ns (s\<lparr>tape := t\<rparr>)" and "set ns = set (listed s)"
proof -
  obtain ns t where n: "NodeSeq nm s = (Done ns, s\<lparr>tape := t\<rparr>)" "mset ns = mset (listed s)" using node_seq by blast
  from n(2) have "set ns = set (listed s)" by (metis set_mset_mset)
  with n(1) that show thesis by (simp add: EachNode_def)
qed

end

interpretation nms: node_source "node_manager_of pm" "\<lambda>s. map snd (nodes s)"
  for pm :: "('w, 'z) node_ctrl_scheme pool_manager"
proof
  fix s :: "('w, 'z) node_ctrl_scheme"
  obtain ns t where "rangeOrder (map snd (nodes s)) s = (Done ns, s\<lparr>tape := t\<rparr>)" "mset ns = mset (map snd (nodes s))"
    by (rule rangeOrder_Done)
  then show "\<exists>ns t. NodeSeq (node_manager_of pm) s = (Done ns, s\<lparr>tape := t\<rparr>) \<and> mset ns = mset (map snd (nodes s))"
    by (auto simp: node_manager_of_def node_NodeSeq_def)
qed

section \<open>Invariant\<close>

definition node_inv :: "('w, 'z) node_ctrl_scheme \<Rightarrow> bool" where
  "node_inv s \<longleftrightarrow> wf_map (nodes s) \<and> (\<forall>(k, i)\<in>set (nodes s). ni_Name i = k) \<and>
     length (node_ch s) \<le> node_ch_cap"

lemma node_inv_upd [simp]:
  "node_inv (s\<lparr>world := w\<rparr>) = node_inv s" "node_inv (s\<lparr>tape := t\<rparr>) = node_inv s"
  by (simp_all add: node_inv_def)

lemma node_inv_set:
  "node_inv s \<Longrightarrow> ni_Name i = k \<Longrightarrow> node_inv (s\<lparr>nodes := AList.update k i (nodes s)\<rparr>)"
  using set_update_subset [of k i "nodes s"] by (auto simp: node_inv_def)

lemma fillInfo_simps [simp]: "ni_Name (fillInfo inp info) = ni_Name info"
  "deleted (fillInfo inp info) = deleted info"
  by (simp_all add: fillInfo_def Let_def split: option.splits)

lemma fillInfo_NodeId: "NodeId (fillInfo inp info) =
    (if NodeId info \<noteq> [] then NodeId info
     else case lookup (Annotations (no_meta inp)) InstanceAnnotationKey of Some v \<Rightarrow> v | None \<Rightarrow> [])"
  by (simp add: fillInfo_def Let_def split: option.splits)

lemma internalIp_Some:
  "internalIp as = Some ip \<Longrightarrow> \<exists>a\<in>set as. addrType a = ''InternalIP'' \<and> Address a = ip"
  by (induction as) (auto split: if_splits)

section \<open>Over any pool manager\<close>

text \<open>
  What the node controller needs of the pool manager beyond its contract: pool operations
  do not touch the node cache.
\<close>

locale node_over_pools =
  ippool_manager pm cached frame ok
  for pm :: "('w, 'z) node_ctrl_scheme pool_manager"
    and cached :: "('w, 'z) node_ctrl_scheme \<Rightarrow> Pool set"
    and frame :: "('w, 'z) node_ctrl_scheme \<Rightarrow> 'f"
    and ok :: "('w, 'z) node_ctrl_scheme \<Rightarrow> bool" +
  assumes frame_nodes: "frame s' = frame s \<Longrightarrow> nodes s' = nodes s \<and> node_ch s' = node_ch s"
    and ok_nodes: "ok (s\<lparr>nodes := m\<rparr>) = ok s" and cached_nodes: "cached (s\<lparr>nodes := m\<rparr>) = cached s"
    and ok_world: "ok (s\<lparr>world := w\<rparr>) = ok s" and cached_world: "cached (s\<lparr>world := w\<rparr>) = cached s"
begin

lemma CouldRemove_spec:
  assumes "ok s"
  shows "\<exists>b s'. node_CouldRemove pm no s = (Done b, s') \<and> cached s' = cached s \<and> ok s' \<and>
     nodes s' = nodes s \<and> node_ch s' = node_ch s \<and>
     ((\<exists>p\<in>cached s. pl_NodeName p = no \<and> MainId p = []) \<longrightarrow> \<not> b) \<and>
     ((\<forall>p\<in>cached s. pl_NodeName p \<noteq> no) \<longrightarrow> b)"
proof -
  obtain e s' where "EachPool pm (\<lambda>err p.
      if pl_NodeName p = no
      then andThen (UpdatePool pm (Some p) DeleteE) (\<lambda>err1. ret (joinErr err err1, None))
      else ret (err, None)) None s = (Done e, s')"
    "cached s' = cached s" "frame s' = frame s" "ok s'"
    "(\<exists>p\<in>cached s. pl_NodeName p = no \<and> MainId p = []) \<longrightarrow> e \<noteq> None"
    "(\<forall>p\<in>cached s. pl_NodeName p \<noteq> no) \<longrightarrow> e = None"
    using removal [OF assms, of "\<lambda>p. pl_NodeName p = no"] by auto
  with frame_nodes [of s' s] show ?thesis
    by (intro exI [of _ "e = None"] exI [of _ s']) (simp add: node_CouldRemove_def)
qed

lemma keeps_CouldRemove:
  assumes "ok s" and "node_CouldRemove pm no s = (r, s')"
  shows "nodes s' = nodes s" and "node_ch s' = node_ch s" and "ok s'" and "cached s' = cached s"
  using CouldRemove_spec [OF assms(1), of no] assms(2) by (metis prod.inject)+

text \<open>A node marked as deleted: only its finalizer can still change, and only when allowed.\<close>

lemma Reconcile_deleting:
  assumes "ok s" and get: "n_Get c n (world s) = (Inr inp, w)"
    and info: "lookup (nodes s) (metaName (no_meta inp)) = Some info" and del: "deleted info"
  obtains b s1 where
    "node_Reconcile c pm n s = (if b
       then inWorld (n_Patch c (inp\<lparr>no_meta := RemoveFinalizer (no_meta inp) FinializerController\<rparr>) inp) s1
       else (Done None, s1))"
    and "nodes s1 = AList.update (metaName (no_meta inp)) (info\<lparr>ni_Name := metaName (no_meta inp)\<rparr>) (nodes s)"
    and "node_ch s1 = node_ch s" and "cached s1 = cached s" and "ok s1"
    and "(\<exists>p\<in>cached s. pl_NodeName p = metaName (no_meta inp) \<and> MainId p = []) \<Longrightarrow> \<not> b"
    and "(\<forall>p\<in>cached s. pl_NodeName p \<noteq> metaName (no_meta inp)) \<Longrightarrow> b"
proof -
  let ?k = "metaName (no_meta inp)"
  let ?s = "s\<lparr>world := w\<rparr>\<lparr>nodes := AList.update ?k (info\<lparr>ni_Name := ?k\<rparr>) (nodes s)\<rparr>"
  have "ok ?s" using assms(1) by (simp only: ok_nodes ok_world)
  then obtain b s1 where b: "node_CouldRemove pm ?k ?s = (Done b, s1)" "cached s1 = cached ?s" "ok s1"
    "nodes s1 = nodes ?s" "node_ch s1 = node_ch ?s"
    "(\<exists>p\<in>cached ?s. pl_NodeName p = ?k \<and> MainId p = []) \<longrightarrow> \<not> b"
    "(\<forall>p\<in>cached ?s. pl_NodeName p \<noteq> ?k) \<longrightarrow> b" using CouldRemove_spec [of ?s ?k] by blast
  have c: "cached ?s = cached s" by (simp only: cached_nodes cached_world)
  have "node_Reconcile c pm n s = (if b
       then inWorld (n_Patch c (inp\<lparr>no_meta := RemoveFinalizer (no_meta inp) FinializerController\<rparr>) inp) s1
       else (Done None, s1))"
    using get info del b(1) by (simp add: node_Reconcile_def Let_def setNode_def)
  with b c that [of b s1] show thesis by simp
qed

end

interpretation nsp: node_over_pools "spider_manager c" cached pool_frame cache_ok
  for c :: "'w pool_client"
proof
  fix s s' :: "('w, 'z) node_ctrl_scheme"
  assume "pool_frame s' = pool_frame s"
  then have "pool_ctrl.more s' = pool_ctrl.more s" by (simp add: pool_frame_def)
  then show "nodes s' = nodes s \<and> node_ch s' = node_ch s"
    by (cases s, cases s') simp
qed (simp_all add: cache_ok_def cached_def)

section \<open>Properties of the node controller over the spiderpool cache\<close>

lemma pool_inv_ok: "pool_inv s \<Longrightarrow> cache_ok s"
  by (simp add: pool_inv_def)

text \<open>
  A node could be removed exactly when no cached pool names it. In particular a node that
  owns a cached pool can never be released: the cache holds pools without an id, and deleting
  such a pool fails. The check leaves the node and pool caches as they are.
\<close>

theorem node_CouldRemove_iff:
  assumes "pool_inv s"
  shows "\<exists>s'. node_CouldRemove (spider_manager c) no s =
      (Done (\<forall>p\<in>cached s. pl_NodeName p \<noteq> no), s') \<and> cached s' = cached s \<and> nodes s' = nodes s"
proof -
  obtain b s' where b: "node_CouldRemove (spider_manager c) no s = (Done b, s')"
    "cached s' = cached s" "nodes s' = nodes s"
    "(\<exists>p\<in>cached s. pl_NodeName p = no \<and> MainId p = []) \<longrightarrow> \<not> b"
    "(\<forall>p\<in>cached s. pl_NodeName p \<noteq> no) \<longrightarrow> b"
    using nsp.CouldRemove_spec [OF pool_inv_ok [OF assms], of c no] by (elim exE conjE) (rule that)
  moreover have "\<forall>p\<in>cached s. MainId p = []" using assms by (simp add: pool_inv_def)
  ultimately have "b = (\<forall>p\<in>cached s. pl_NodeName p \<noteq> no)" by blast
  with b show ?thesis by blast
qed


lemma Reconcile_live:
  assumes get: "n_Get c n (world s) = (Inr inp, w)"
    and name: "name = metaName (no_meta inp)"
    and info: "info = (case lookup (nodes s) name of Some i \<Rightarrow> i | None \<Rightarrow> zeroNodeInfo)\<lparr>ni_Name := name\<rparr>"
    and live: "\<not> deleted info"
    and s1: "s1 = s\<lparr>world := w, nodes := AList.update name (fillInfo inp info) (nodes s)\<rparr>"
  shows "node_Reconcile c pm n s =
     (if DeletionTimestamp (no_meta inp) \<noteq> None
      then (Done None, s1\<lparr>nodes := AList.update name ((fillInfo inp info)\<lparr>deleted := True\<rparr>) (nodes s)\<rparr>)
      else if \<not> length (node_ch s) < node_ch_cap then (Blocked, s1)
      else if ContainsFinalizer (no_meta inp) FinializerController
      then (Done None, s1\<lparr>node_ch := node_ch s @ [name]\<rparr>)
      else inWorld (n_Patch c (inp\<lparr>no_meta := AddFinalizer (no_meta inp) FinializerController\<rparr>) inp)
        (s1\<lparr>node_ch := node_ch s @ [name]\<rparr>))"
proof -
  have "node_Reconcile c pm n s = (andThen (setNode name info) (\<lambda>_.
          andThen (setNode name (fillInfo inp info)) (\<lambda>_.
          if DeletionTimestamp (no_meta inp) \<noteq> None
          then andThen (setNode name ((fillInfo inp info)\<lparr>deleted := True\<rparr>)) (\<lambda>_. ret None)
          else andThen (node_send name) (\<lambda>_.
            if \<not> ContainsFinalizer (no_meta inp) FinializerController
            then inWorld (n_Patch c (inp\<lparr>no_meta := AddFinalizer (no_meta inp) FinializerController\<rparr>) inp)
            else ret None)))) (s\<lparr>world := w\<rparr>)"
    using get live unfolding node_Reconcile_def Let_def name info by simp
  then show ?thesis by (auto simp: setNode_def node_send_def s1)
qed


text \<open>
  A node stays marked as deleted. Once a cached node is marked, every later reconcile, of
  whatever object and with whatever outcome, leaves it marked; and reconciling an object of that
  name never announces it to the callbacks again, even if it is a new node that took the name.
\<close>

theorem node_deleted_forever:
  fixes c :: "'w node_client" and pc :: "'w pool_client"
  assumes inv: "pool_inv s" and mark: "lookup (nodes s) k = Some i" "deleted i"
    and run: "node_Reconcile c (spider_manager pc) n s = (r, s')"
  shows "(\<exists>i'. lookup (nodes s') k = Some i' \<and> deleted i') \<and>
    (\<forall>inp w. n_Get c n (world s) = (Inr inp, w) \<and> metaName (no_meta inp) = k \<longrightarrow> node_ch s' = node_ch s)"
proof -
  obtain g w where get: "n_Get c n (world s) = (g, w)" by (cases "n_Get c n (world s)")
  show ?thesis
  proof (cases g)
    case (Inl e)
    then show ?thesis using run get mark by (auto simp: node_Reconcile_def split: if_splits)
  next
    case (Inr inp)
    let ?k = "metaName (no_meta inp)"
    have get': "n_Get c n (world s) = (Inr inp, w)" using get Inr by simp
    show ?thesis
    proof (cases "\<exists>info. lookup (nodes s) ?k = Some info \<and> deleted info")
      case True
      then obtain info where info: "lookup (nodes s) ?k = Some info" "deleted info" by blast
      obtain b s1 where b: "node_Reconcile c (spider_manager pc) n s = (if b
           then inWorld (n_Patch c (inp\<lparr>no_meta := RemoveFinalizer (no_meta inp) FinializerController\<rparr>) inp) s1
           else (Done None, s1))"
        "nodes s1 = AList.update ?k (info\<lparr>ni_Name := ?k\<rparr>) (nodes s)" "node_ch s1 = node_ch s"
        using nsp.Reconcile_deleting [OF pool_inv_ok [OF inv] get' info] by metis
      have "nodes s' = nodes s1" "node_ch s' = node_ch s1"
        using b(1) run by (auto simp: inWorld_apply split: if_splits)
      with b(2,3) mark info show ?thesis by auto
    next
      case False
      let ?info = "(case lookup (nodes s) ?k of Some i \<Rightarrow> i | None \<Rightarrow> zeroNodeInfo)\<lparr>ni_Name := ?k\<rparr>"
      from False have nd: "\<not> deleted ?info" by (auto simp: zeroNodeInfo_def split: option.split)
      from False mark have "k \<noteq> ?k" by auto
      moreover have "\<exists>j. nodes s' = AList.update ?k j (nodes s)"
        using Reconcile_live [OF get' refl refl nd refl, of "spider_manager pc"] run
        by (auto simp: inWorld_apply split: if_splits)
      ultimately show ?thesis using mark get' by auto
    qed
  qed
qed

text \<open>
  \<open>GetNode\<close> completes a partial node description consistently: whatever the iteration order,
  the result either is the argument unchanged, because no cached node shares its address, id or
  name, or carries name, id and address of one cached node.
\<close>

theorem GetNode_consistent:
  "\<exists>m s'. GetNode (Some no) s = (Done (Some m), s') \<and>
     ((\<exists>i\<in>set (map snd (nodes s)). ni_Name m = ni_Name i \<and> NodeId m = NodeId i \<and> NodeIp m = NodeIp i) \<or>
      m = no \<and> \<not> (\<exists>i\<in>set (map snd (nodes s)).
        NodeIp i = NodeIp no \<or> NodeId i = NodeId no \<or> ni_Name i = ni_Name no))"
proof -
  have loop: "(\<exists>i\<in>set is. ni_Name (GetNode_loop is no) = ni_Name i \<and>
        NodeId (GetNode_loop is no) = NodeId i \<and> NodeIp (GetNode_loop is no) = NodeIp i) \<or>
      GetNode_loop is no = no \<and> \<not> (\<exists>i\<in>set is. NodeIp i = NodeIp no \<or> NodeId i = NodeId no \<or>
        ni_Name i = ni_Name no)" for "is"
    by (induction "is") auto
  obtain "is" t where r: "rangeOrder (map snd (nodes s)) s = (Done is, s\<lparr>tape := t\<rparr>)"
    and m: "mset is = mset (map snd (nodes s))" by (rule rangeOrder_Done)
  from m have "set is = set (map snd (nodes s))" by (metis set_mset_mset)
  moreover have "GetNode (Some no) s = (Done (Some (GetNode_loop is no)), s\<lparr>tape := t\<rparr>)"
    using r by (simp add: GetNode_def)
  ultimately show ?thesis using loop [of "is"] by (metis (no_types, lifting))
qed

section \<open>Witnesses\<close>

text \<open>
  A live node object, the same object without its finalizer, and a controller whose cache marks
  the node as deleted while one cached pool still names it.
\<close>

definition ex_node :: NodeObj where
  "ex_node = \<lparr>no_meta = emptyMeta\<lparr>metaName := ''node-a'', Annotations := [(''node.eni.io/instance'', ''i-1'')]\<rparr>,
     no_Addresses = [\<lparr>addrType = ''Hostname'', Address = ''node-a''\<rparr>, \<lparr>addrType = ''InternalIP'', Address = ''10.0.0.9''\<rparr>]\<rparr>"

definition ex_cached :: Pool where
  "ex_cached = \<lparr>pl_NodeName = ''node-a'', MainId = [], Subnat = ''default'',
     Namespace = Some [], CapIp = Some [], UsedIp = Some []\<rparr>"

definition ex_dead :: "unit node_ctrl" where
  "ex_dead = (node_NewControllerManager () [])\<lparr>pools := [(''eni-1'', ex_cached)],
     nodes := [(''node-a'', \<lparr>ni_Name = ''node-a'', NodeId = ''i-1'', NodeIp = ''10.0.0.9'', deleted = True\<rparr>)]\<rparr>"

definition node_answering :: "go_error + NodeObj \<Rightarrow> unit node_client" where
  "node_answering r = \<lparr>n_Get = (\<lambda>n w. (r, w)), n_Patch = (\<lambda>a b w. (None, w))\<rparr>"

lemmas ex_node_simps = ex_node_def ex_cached_def ex_dead_def node_answering_def
  node_NewControllerManager_def emptyMeta_def InstanceAnnotationKey_def

lemma ex_dead_inv: "pool_inv ex_dead"
  by (simp add: ex_node_simps pool_inv_def cache_ok_def cached_def wf_map_def wf_pool_def)

theorem node_CouldRemove_iff_witness:
  "\<exists>s'. node_CouldRemove (spider_manager (answering (Inr ex_obj))) ''node-a'' ex_dead = (Done False, s') \<and>
     cached s' = cached ex_dead \<and> nodes s' = nodes ex_dead"
  using node_CouldRemove_iff [OF ex_dead_inv, of "answering (Inr ex_obj)" "''node-a''"]
  by (simp add: ex_node_simps cached_def)



theorem node_deleted_forever_witness:
  "(let s' = snd (node_Reconcile (node_answering (Inr ex_node)) (spider_manager (answering (Inr ex_obj))) ''node-a'' ex_dead)
    in (\<exists>i'. lookup (nodes s') ''node-a'' = Some i' \<and> deleted i') \<and> node_ch s' = node_ch ex_dead)"
proof -
  obtain r s' where run: "node_Reconcile (node_answering (Inr ex_node))
      (spider_manager (answering (Inr ex_obj))) ''node-a'' ex_dead = (r, s')" by fastforce
  have l: "lookup (nodes ex_dead) ''node-a'' =
      Some \<lparr>ni_Name = ''node-a'', NodeId = ''i-1'', NodeIp = ''10.0.0.9'', deleted = True\<rparr>"
    by (simp add: ex_node_simps)
  have "n_Get (node_answering (Inr ex_node)) ''node-a'' (world ex_dead) = (Inr ex_node, ())"
    "metaName (no_meta ex_node) = ''node-a''"
    by (simp_all add: ex_node_simps)
  with node_deleted_forever [OF ex_dead_inv l _ run] run show ?thesis by auto
qed

end
