(* ===== verification/Node_Lock.thy ===== *)
theory Node_Lock
  imports Node
begin

text \<open>
  The node controller of \<open>src/pkg/node/node.go\<close> with its read-write mutex and its channel as
  steps of their own: the one worker of the controller runtime that calls \<open>Reconcile\<close>, the
  goroutine \<open>handlerCallback\<close>, and any number of goroutines inside \<open>EachNode\<close> or \<open>GetNode\<close>.
  The mutex is Go's \<open>sync.RWMutex\<close>: a writer that waits keeps new readers out. Of a
  registered callback only counts for which arguments it returns, and that it may take the read
  lock on the way, as the callback of the vpc controller does through \<open>EachNode\<close>.
\<close>

section \<open>States\<close>

text \<open>
  Where \<open>handlerCallback\<close> is: at its select, before and after \<open>RLock\<close> with the name it received,
  in the loop over the callbacks with those still to run, before and after the \<open>RLock\<close> a
  callback asks for, in a callback that does not return, gone.
\<close>

type_synonym callback = "NodeInfo option \<Rightarrow> bool"

datatype handler_pc =
    HSelect
  | HWant string
  | HRead string
  | HCall "NodeInfo option" "callback list"
  | HCallWant "NodeInfo option" "callback list"
  | HCallRead "NodeInfo option" "callback list"
  | HHung
  | HExit

text \<open>
  Where \<open>Reconcile\<close> is: not running, before \<open>Lock\<close>, announced to the readers and waiting for
  them to leave, in the critical section, at the send, and past it with the lock still held
  for the patch.
\<close>

datatype reconcile_pc =
    RIdle
  | RWant NodeObj
  | RWait NodeObj
  | RHeld NodeObj
  | RSend NodeObj
  | RPatch NodeObj

record node_sys =
  sys_nodes :: "NodeInfo gomap"
  sys_ch :: "string list"
  sys_done :: bool             \<comment> \<open>\<open>ctx\<close> is cancelled\<close>
  sys_h :: handler_pc
  sys_r :: reconcile_pc
  sys_readers :: "nat set"     \<comment> \<open>other goroutines that hold the read lock\<close>

definition node_sys_init :: node_sys where
  "node_sys_init = \<lparr>sys_nodes = [], sys_ch = [], sys_done = False, sys_h = HSelect, sys_r = RIdle, sys_readers = {}\<rparr>"

fun handler_reads :: "handler_pc \<Rightarrow> bool" where
  "handler_reads (HRead _) = True"
| "handler_reads (HCallRead _ _) = True"
| "handler_reads _ = False"

fun handler_waits :: "handler_pc \<Rightarrow> bool" where
  "handler_waits (HWant _) = True"
| "handler_waits (HCallWant _ _) = True"
| "handler_waits _ = False"

fun writer_announced :: "reconcile_pc \<Rightarrow> bool" where
  "writer_announced RIdle = False"
| "writer_announced (RWant _) = False"
| "writer_announced _ = True"

fun writer_holds :: "reconcile_pc \<Rightarrow> bool" where
  "writer_holds (RHeld _) = True"
| "writer_holds (RSend _) = True"
| "writer_holds (RPatch _) = True"
| "writer_holds _ = False"

section \<open>Steps\<close>

text \<open>
  The critical section of \<open>Reconcile\<close> up to the send: the cache afterwards, and whether the node
  is announced. The removal of a deleted node's pools and the patches do not touch the cache.
\<close>

definition reconcile_section :: "NodeObj \<Rightarrow> NodeInfo gomap \<Rightarrow> NodeInfo gomap \<times> bool" where
  "reconcile_section inp m = (let name = metaName (no_meta inp);
      info = (case lookup m name of Some i \<Rightarrow> i | None \<Rightarrow> zeroNodeInfo)\<lparr>ni_Name := name\<rparr> in
    if deleted info then (AList.update name info m, False)
    else if DeletionTimestamp (no_meta inp) \<noteq> None
    then (AList.update name ((fillInfo inp info)\<lparr>deleted := True\<rparr>) m, False)
    else (AList.update name (fillInfo inp info) m, True))"

text \<open>One action of the goroutine that runs \<open>Reconcile\<close>; \<open>None\<close> while it has to wait.\<close>

definition reconcile_act :: "node_sys \<Rightarrow> node_sys option" where
  "reconcile_act s = (case sys_r s of
      RIdle \<Rightarrow> None
    | RWant inp \<Rightarrow> Some (s\<lparr>sys_r := RWait inp\<rparr>)
    | RWait inp \<Rightarrow> if sys_readers s = {} \<and> \<not> handler_reads (sys_h s) then Some (s\<lparr>sys_r := RHeld inp\<rparr>) else None
    | RHeld inp \<Rightarrow> (case reconcile_section inp (sys_nodes s) of
        (m, announce) \<Rightarrow> Some (s\<lparr>sys_nodes := m, sys_r := (if announce then RSend inp else RPatch inp)\<rparr>))
    | RSend inp \<Rightarrow> if length (sys_ch s) < node_ch_cap
        then Some (s\<lparr>sys_ch := sys_ch s @ [metaName (no_meta inp)], sys_r := RPatch inp\<rparr>) else None
    | RPatch inp \<Rightarrow> Some (s\<lparr>sys_r := RIdle\<rparr>))"

text \<open>
  One action of \<open>handlerCallback\<close> with the callbacks \<open>fns\<close>. Its select takes a ready case, of two
  ready ones either (\<open>choice\<close>); inside a callback \<open>choice\<close> is whether the callback asks for the
  read lock or goes on to its end.
\<close>

definition handler_act :: "callback list \<Rightarrow> bool \<Rightarrow> node_sys \<Rightarrow> node_sys option" where
  "handler_act fns choice s = (case sys_h s of
      HSelect \<Rightarrow>
        if sys_done s \<and> (choice \<or> sys_ch s = []) then Some (s\<lparr>sys_h := HExit\<rparr>)
        else (case sys_ch s of [] \<Rightarrow> None | name # ch \<Rightarrow> Some (s\<lparr>sys_ch := ch, sys_h := HWant name\<rparr>))
    | HWant name \<Rightarrow> if writer_announced (sys_r s) then None else Some (s\<lparr>sys_h := HRead name\<rparr>)
    | HRead name \<Rightarrow> Some (s\<lparr>sys_h := HCall (map_option node_DeepCopy (lookup (sys_nodes s) name)) fns\<rparr>)
    | HCall ori [] \<Rightarrow> Some (s\<lparr>sys_h := HSelect\<rparr>)
    | HCall ori (f # fs) \<Rightarrow> Some (s\<lparr>sys_h := (if choice then HCallWant ori (f # fs) else if f ori then HCall ori fs else HHung)\<rparr>)
    | HCallWant ori fs \<Rightarrow> if writer_announced (sys_r s) then None else Some (s\<lparr>sys_h := HCallRead ori fs\<rparr>)
    | HCallRead ori fs \<Rightarrow> Some (s\<lparr>sys_h := HCall ori fs\<rparr>)
    | HHung \<Rightarrow> None
    | HExit \<Rightarrow> None)"

text \<open>The progress of what has begun.\<close>

inductive node_step :: "callback list \<Rightarrow> node_sys \<Rightarrow> node_sys \<Rightarrow> bool" for fns where
  reconcile: "reconcile_act s = Some s' \<Longrightarrow> node_step fns s s'"
| handler: "handler_act fns choice s = Some s' \<Longrightarrow> node_step fns s s'"
| leave: "g \<in> sys_readers s \<Longrightarrow> node_step fns s (s\<lparr>sys_readers := sys_readers s - {g}\<rparr>)"

text \<open>What arrives from outside: an object to reconcile, a reader, the end of the context.\<close>

inductive node_arrival :: "node_sys \<Rightarrow> node_sys \<Rightarrow> bool" where
  request: "sys_r s = RIdle \<Longrightarrow> node_arrival s (s\<lparr>sys_r := RWant inp\<rparr>)"
| reader: "\<not> writer_announced (sys_r s) \<Longrightarrow> g \<notin> sys_readers s \<Longrightarrow>
     node_arrival s (s\<lparr>sys_readers := insert g (sys_readers s)\<rparr>)"
| cancel: "node_arrival s (s\<lparr>sys_done := True\<rparr>)"

inductive node_evolves :: "callback list \<Rightarrow> node_sys \<Rightarrow> node_sys \<Rightarrow> bool" for fns where
  here: "node_evolves fns s s"
| step: "node_evolves fns s s' \<Longrightarrow> node_step fns s' s'' \<Longrightarrow> node_evolves fns s s''"
| arrival: "node_evolves fns s s' \<Longrightarrow> node_arrival s' s'' \<Longrightarrow> node_evolves fns s s''"

inductive_simps node_step_iff: "node_step fns s s'"

lemma node_evolves_trans: "node_evolves fns s' s'' \<Longrightarrow> node_evolves fns s s' \<Longrightarrow> node_evolves fns s s''"
  by (induction rule: node_evolves.induct) (auto intro: node_evolves.intros)

section \<open>Invariant\<close>

text \<open>Each entry of the cache is kept under the name it carries.\<close>

definition named :: "NodeInfo gomap \<Rightarrow> bool" where
  "named m \<longleftrightarrow> wf_map m \<and> (\<forall>(k, i)\<in>set m. ni_Name i = k)"

definition node_sys_inv :: "node_sys \<Rightarrow> bool" where
  "node_sys_inv s \<longleftrightarrow> length (sys_ch s) \<le> node_ch_cap \<and>
     (writer_holds (sys_r s) \<longrightarrow> sys_readers s = {} \<and> \<not> handler_reads (sys_h s)) \<and>
     named (sys_nodes s)"

lemma node_sys_inv_init: "node_sys_inv node_sys_init"
  by (simp add: named_def node_sys_inv_def node_sys_init_def)

lemma reconcile_section_named:
  assumes "named m" and "reconcile_section inp m = (m', b)"
  shows "named m'"
proof -
  obtain i where "m' = AList.update (metaName (no_meta inp)) i m" "ni_Name i = metaName (no_meta inp)"
    using assms(2) that by (auto simp: reconcile_section_def Let_def split: if_splits)
  with assms(1) set_update_subset [of "metaName (no_meta inp)" i m] show ?thesis by (auto simp: named_def)
qed

lemma reconcile_act_inv: "node_sys_inv s \<Longrightarrow> reconcile_act s = Some s' \<Longrightarrow> node_sys_inv s'"
  by (auto simp: node_sys_inv_def reconcile_act_def split: reconcile_pc.splits if_splits prod.splits
      dest: reconcile_section_named)

lemma handler_act_inv: "node_sys_inv s \<Longrightarrow> handler_act fns choice s = Some s' \<Longrightarrow> node_sys_inv s'"
  by (auto simp: node_sys_inv_def handler_act_def split: handler_pc.splits if_splits list.splits
      elim: writer_announced.elims writer_holds.elims)

lemma node_evolves_inv: "node_evolves fns s s' \<Longrightarrow> node_sys_inv s \<Longrightarrow> node_sys_inv s'"
proof (induction rule: node_evolves.induct)
  case (step s s' s'')
  then show ?case
    by (auto elim!: node_step.cases intro: reconcile_act_inv handler_act_inv) (simp add: node_sys_inv_def)
next
  case (arrival s s' s'')
  then show ?case by (auto elim!: node_arrival.cases writer_announced.elims simp: node_sys_inv_def)
qed

section \<open>The critical section is that of \<open>Reconcile\<close>\<close>

lemma section_live:
  assumes "DeletionTimestamp (no_meta inp) = None"
    and "\<forall>i. lookup m (metaName (no_meta inp)) = Some i \<longrightarrow> \<not> deleted i"
  obtains m' where "reconcile_section inp m = (m', True)"
    and "\<forall>i. lookup m' (metaName (no_meta inp)) = Some i \<longrightarrow> \<not> deleted i"
proof -
  let ?info = "(case lookup m (metaName (no_meta inp)) of Some i \<Rightarrow> i | None \<Rightarrow> zeroNodeInfo)\<lparr>ni_Name := metaName (no_meta inp)\<rparr>"
  have "\<not> deleted ?info" using assms(2) by (auto simp: zeroNodeInfo_def split: option.split)
  with assms(1) that [of "AList.update (metaName (no_meta inp)) (fillInfo inp ?info) m"] show thesis
    by (simp add: reconcile_section_def Let_def)
qed

text \<open>
  Run without interference, as it is under the write lock, \<open>Reconcile\<close> leaves the cache that
  the critical section computes, appends the name to the channel when the section announces it,
  and blocks exactly when it has to announce and the channel is full.
\<close>

theorem node_Reconcile_section:
  fixes c :: "'w node_client" and pc :: "'w pool_client"
  assumes inv: "pool_inv s" and get: "n_Get c n (world s) = (Inr inp, w)"
    and run: "node_Reconcile c (spider_manager pc) n s = (r, s')"
    and sec: "reconcile_section inp (nodes s) = (m, announce)"
  shows "nodes s' = m \<and> (r = Blocked \<longleftrightarrow> announce \<and> \<not> length (node_ch s) < node_ch_cap) \<and>
    node_ch s' = node_ch s @ (if announce \<and> r \<noteq> Blocked then [metaName (no_meta inp)] else [])"
proof -
  let ?name = "metaName (no_meta inp)"
  let ?info = "(case lookup (nodes s) ?name of Some i \<Rightarrow> i | None \<Rightarrow> zeroNodeInfo)\<lparr>ni_Name := ?name\<rparr>"
  show ?thesis
  proof (cases "deleted ?info")
    case True
    then obtain i where i: "lookup (nodes s) ?name = Some i" "deleted i"
      by (auto simp: zeroNodeInfo_def split: option.splits)
    obtain b s1 where "node_Reconcile c (spider_manager pc) n s = (if b
         then inWorld (n_Patch c (inp\<lparr>no_meta := RemoveFinalizer (no_meta inp) FinializerController\<rparr>) inp) s1
         else (Done None, s1))"
      "nodes s1 = AList.update ?name (i\<lparr>ni_Name := ?name\<rparr>) (nodes s)" "node_ch s1 = node_ch s"
      using nsp.Reconcile_deleting [OF pool_inv_ok [OF inv] get i] by metis
    with run sec i show ?thesis
      by (auto simp: reconcile_section_def Let_def inWorld_def split: if_splits prod.splits)
  next
    case False
    from Reconcile_live [OF get refl refl False refl, of "spider_manager pc"] run sec False show ?thesis
      by (auto simp: reconcile_section_def Let_def inWorld_def split: if_splits prod.splits)
  qed
qed

section \<open>Stuck states\<close>

definition handler_stopped :: "handler_pc \<Rightarrow> bool" where
  "handler_stopped h \<longleftrightarrow> h = HExit \<or> h = HHung"

text \<open>Nothing has begun that is not finished, a callback that hangs or the end of the handler aside.\<close>

definition node_resting :: "node_sys \<Rightarrow> bool" where
  "node_resting s \<longleftrightarrow> sys_r s = RIdle \<and> sys_readers s = {} \<and>
     (sys_h s = HSelect \<and> sys_ch s = [] \<and> \<not> sys_done s \<or> handler_stopped (sys_h s))"

text \<open>\<open>Reconcile\<close> is at its send under the lock and the channel is full.\<close>

definition send_blocked :: "node_sys \<Rightarrow> bool" where
  "send_blocked s \<longleftrightarrow> (\<exists>inp. sys_r s = RSend inp) \<and> \<not> length (sys_ch s) < node_ch_cap"

text \<open>Nobody is left to make room: the handler waits for the lock \<open>Reconcile\<close> holds, or has stopped.\<close>

definition node_deadlock :: "node_sys \<Rightarrow> bool" where
  "node_deadlock s \<longleftrightarrow> send_blocked s \<and> (handler_waits (sys_h s) \<or> handler_stopped (sys_h s))"

lemma no_step_iff:
  "(\<nexists>s'. node_step fns s s') \<longleftrightarrow> reconcile_act s = None \<and> (\<forall>choice. handler_act fns choice s = None) \<and> sys_readers s = {}"
  by (auto simp: node_step_iff) (metis not_None_eq)+

lemma handler_act_None:
  "(\<forall>choice. handler_act fns choice s = None) \<longleftrightarrow> handler_stopped (sys_h s) \<or> sys_h s = HSelect \<and> sys_ch s = [] \<and> \<not> sys_done s \<or>
     handler_waits (sys_h s) \<and> writer_announced (sys_r s)"
  by (cases "sys_h s") (auto simp: handler_act_def handler_stopped_def split: list.splits)

lemma reconcile_act_None:
  "reconcile_act s = None \<longleftrightarrow> sys_r s = RIdle \<or> send_blocked s \<or>
     (\<exists>inp. sys_r s = RWait inp) \<and> (sys_readers s \<noteq> {} \<or> handler_reads (sys_h s))"
  by (cases "sys_r s") (auto simp: reconcile_act_def send_blocked_def split: prod.splits)

lemma deadlock_kept_step: "node_deadlock s \<Longrightarrow> node_sys_inv s \<Longrightarrow> \<not> node_step fns s s'"
  using no_step_iff [of fns s] handler_act_None [of fns s] reconcile_act_None [of s]
  by (auto simp: node_deadlock_def send_blocked_def node_sys_inv_def)

lemma deadlock_kept_arrival: "node_deadlock s \<Longrightarrow> node_arrival s s' \<Longrightarrow> s' = s\<lparr>sys_done := True\<rparr>"
  by (auto simp: node_deadlock_def send_blocked_def elim: node_arrival.cases)

lemma deadlock_forever:
  assumes "node_evolves fns s s'" and "node_deadlock s" and "node_sys_inv s"
  shows "s' = s \<or> s' = s\<lparr>sys_done := True\<rparr>"
  using assms
proof (induction rule: node_evolves.induct)
  case (step s s' s'')
  then have "node_deadlock s' \<and> node_sys_inv s'"
    by (auto simp: node_deadlock_def send_blocked_def node_sys_inv_def)
  with step deadlock_kept_step show ?case by blast
next
  case (arrival s s' s'')
  then have "node_deadlock s'" by (auto simp: node_deadlock_def send_blocked_def)
  with arrival deadlock_kept_arrival show ?case by fastforce
qed simp


lemma stopped_forever:
  "node_evolves fns s s' \<Longrightarrow> handler_stopped (sys_h s) \<Longrightarrow> sys_h s' = sys_h s \<and> (\<exists>ns. sys_ch s' = sys_ch s @ ns)"
proof (induction rule: node_evolves.induct)
  case (step s s' s'')
  then have "handler_act fns choice s' = None" for choice using handler_act_None [of fns s'] by simp
  with step show ?case
    by (auto simp: node_step_iff reconcile_act_def split: reconcile_pc.splits if_splits prod.splits)
next
  case (arrival s s' s'')
  then show ?case by (auto elim!: node_arrival.cases)
qed simp

text \<open>
  Once a callback hangs, or the handler has ended, nobody empties the channel: from then on
  at most as many nodes can be announced as the channel has room for, whatever is reconciled,
  and the next live node blocks \<open>Reconcile\<close> under the write lock.
\<close>

theorem node_hung_handler:
  assumes "node_evolves fns node_sys_init s" and "handler_stopped (sys_h s)" and "node_evolves fns s s'"
  shows "\<exists>ns. sys_ch s' = sys_ch s @ ns \<and> length ns \<le> node_ch_cap - length (sys_ch s) \<and>
    (length ns = node_ch_cap - length (sys_ch s) \<and> (\<exists>inp. sys_r s' = RSend inp) \<longrightarrow>
      (\<forall>s''. node_evolves fns s' s'' \<longrightarrow> s'' = s' \<or> s'' = s'\<lparr>sys_done := True\<rparr>))"
proof -
  have s': "node_evolves fns node_sys_init s'" using node_evolves_trans [OF assms(3,1)] .
  have inv: "node_sys_inv s'" by (rule node_evolves_inv [OF s' node_sys_inv_init])
  obtain ns where ns: "sys_h s' = sys_h s" "sys_ch s' = sys_ch s @ ns" using stopped_forever [OF assms(3,2)] by blast
  have len: "length (sys_ch s') \<le> node_ch_cap" using inv by (simp add: node_sys_inv_def)
  have "s'' = s' \<or> s'' = s'\<lparr>sys_done := True\<rparr>"
    if "length ns = node_ch_cap - length (sys_ch s)" "\<exists>inp. sys_r s' = RSend inp" "node_evolves fns s' s''" for s''
  proof (rule deadlock_forever [OF that(3) _ inv])
    show "node_deadlock s'" using ns that(1,2) assms(2) by (simp add: node_deadlock_def send_blocked_def)
  qed
  with ns len show ?thesis by (intro exI [of _ ns]) auto
qed

section \<open>A reachable deadlock\<close>

lemma evolves_reconcile: "reconcile_act s' = Some s'' \<Longrightarrow> node_evolves fns s s' \<Longrightarrow> node_evolves fns s s''"
  by (rule node_evolves.step [OF _ node_step.reconcile])

text \<open>A live object brings \<open>Reconcile\<close> to its send while nobody reads.\<close>

lemma reaches_send:
  assumes "sys_r s = RIdle" "sys_readers s = {}" "\<not> handler_reads (sys_h s)"
    and "reconcile_section inp (sys_nodes s) = (m, True)"
  shows "node_evolves fns s (s\<lparr>sys_nodes := m, sys_r := RSend inp\<rparr>)"
proof -
  have "node_evolves fns s (s\<lparr>sys_r := RWant inp\<rparr>)"
    by (rule node_evolves.arrival [OF node_evolves.here node_arrival.request [OF assms(1)]])
  then have "node_evolves fns s (s\<lparr>sys_r := RWait inp\<rparr>)"
    by (rule evolves_reconcile [rotated]) (simp add: reconcile_act_def)
  then have "node_evolves fns s (s\<lparr>sys_r := RHeld inp\<rparr>)"
    by (rule evolves_reconcile [rotated]) (simp add: reconcile_act_def assms)
  then show ?thesis
    by (rule evolves_reconcile [rotated]) (simp add: reconcile_act_def assms)
qed

lemma passes_send:
  assumes "sys_r s = RSend inp" "length (sys_ch s) < node_ch_cap"
  shows "node_evolves fns s (s\<lparr>sys_ch := sys_ch s @ [metaName (no_meta inp)], sys_r := RIdle\<rparr>)"
proof -
  have "node_evolves fns s (s\<lparr>sys_ch := sys_ch s @ [metaName (no_meta inp)], sys_r := RPatch inp\<rparr>)"
    by (rule evolves_reconcile [OF _ node_evolves.here]) (simp add: reconcile_act_def assms)
  then show ?thesis
    by (rule evolves_reconcile [rotated]) (simp add: reconcile_act_def)
qed

text \<open>The node of the object is not marked as deleted.\<close>

abbreviation cached_live :: "NodeObj \<Rightarrow> node_sys \<Rightarrow> bool" where
  "cached_live inp s \<equiv> \<forall>i. lookup (sys_nodes s) (metaName (no_meta inp)) = Some i \<longrightarrow> \<not> deleted i"

text \<open>Announcing the node once, and as often as the channel takes while the handler does not move.\<close>

lemma announces:
  fixes inp :: NodeObj
  assumes "sys_r s = RIdle" "sys_readers s = {}" "\<not> handler_reads (sys_h s)" "cached_live inp s"
    and live: "DeletionTimestamp (no_meta inp) = None" and "length (sys_ch s) < node_ch_cap"
  obtains m where "node_evolves fns s (s\<lparr>sys_nodes := m, sys_ch := sys_ch s @ [metaName (no_meta inp)]\<rparr>)"
    and "\<forall>i. lookup m (metaName (no_meta inp)) = Some i \<longrightarrow> \<not> deleted i"
proof -
  obtain m where m: "reconcile_section inp (sys_nodes s) = (m, True)"
    "\<forall>i. lookup m (metaName (no_meta inp)) = Some i \<longrightarrow> \<not> deleted i"
    using section_live [OF live assms(4)] by blast
  let ?s = "s\<lparr>sys_nodes := m, sys_r := RSend inp\<rparr>"
  have "node_evolves fns s (?s\<lparr>sys_ch := sys_ch ?s @ [metaName (no_meta inp)], sys_r := RIdle\<rparr>)"
    by (rule node_evolves_trans [OF passes_send reaches_send]) (use assms m in simp_all)
  moreover have "s\<lparr>sys_nodes := m, sys_ch := sys_ch s @ [metaName (no_meta inp)], sys_r := RIdle\<rparr> =
      s\<lparr>sys_nodes := m, sys_ch := sys_ch s @ [metaName (no_meta inp)]\<rparr>" using assms(1) by (cases s) simp
  ultimately show thesis using m(2) that [of m] by simp
qed

lemma fills:
  fixes inp :: NodeObj
  assumes "sys_r s = RIdle" "sys_readers s = {}" "\<not> handler_reads (sys_h s)" "cached_live inp s"
    and "DeletionTimestamp (no_meta inp) = None" and "length (sys_ch s) + k \<le> node_ch_cap"
  shows "\<exists>m. node_evolves fns s (s\<lparr>sys_nodes := m, sys_ch := sys_ch s @ replicate k (metaName (no_meta inp))\<rparr>) \<and>
    (\<forall>i. lookup m (metaName (no_meta inp)) = Some i \<longrightarrow> \<not> deleted i)"
  using assms
proof (induction k arbitrary: s)
  case 0
  then show ?case by (intro exI [of _ "sys_nodes s"]) (simp add: node_evolves.here)
next
  case (Suc k)
  obtain m where m: "node_evolves fns s (s\<lparr>sys_nodes := m, sys_ch := sys_ch s @ [metaName (no_meta inp)]\<rparr>)"
    "\<forall>i. lookup m (metaName (no_meta inp)) = Some i \<longrightarrow> \<not> deleted i"
    using announces [of s inp fns] Suc.prems by auto
  with Suc.IH [of "s\<lparr>sys_nodes := m, sys_ch := sys_ch s @ [metaName (no_meta inp)]\<rparr>"] Suc.prems
  obtain m' where "node_evolves fns (s\<lparr>sys_nodes := m, sys_ch := sys_ch s @ [metaName (no_meta inp)]\<rparr>)
      (s\<lparr>sys_nodes := m', sys_ch := sys_ch s @ metaName (no_meta inp) # replicate k (metaName (no_meta inp))\<rparr>)"
    "\<forall>i. lookup m' (metaName (no_meta inp)) = Some i \<longrightarrow> \<not> deleted i" by auto
  with node_evolves_trans [OF _ m(1)] show ?case by auto
qed

text \<open>
  (C15) The deadlock is reachable, whatever the callbacks do and with one live node only: the
  handler has received a name and not yet taken the read lock, the reconciler announces the node
  until the channel is full and once more. From there nothing ever changes but the context, and
  its end wakes nobody up.
\<close>

theorem node_deadlock_reachable:
  fixes inp :: NodeObj
  assumes "DeletionTimestamp (no_meta inp) = None"
  shows "\<exists>s. node_evolves fns node_sys_init s \<and> node_deadlock s \<and> handler_waits (sys_h s) \<and> \<not> sys_done s \<and>
    set (sys_ch s) = {metaName (no_meta inp)} \<and>
    (\<forall>s'. node_evolves fns s s' \<longrightarrow> s' = s \<or> s' = s\<lparr>sys_done := True\<rparr>)"
proof -
  let ?k = "metaName (no_meta inp)"
  obtain m where m: "node_evolves fns node_sys_init (node_sys_init\<lparr>sys_nodes := m, sys_ch := [?k]\<rparr>)"
    "\<forall>i. lookup m ?k = Some i \<longrightarrow> \<not> deleted i"
    by (rule announces [of node_sys_init inp fns]) (use assms in \<open>auto simp: node_sys_init_def node_ch_cap_def\<close>)
  let ?a = "node_sys_init\<lparr>sys_nodes := m, sys_h := HWant ?k\<rparr>"
  have a: "node_evolves fns node_sys_init ?a"
    by (rule node_evolves.step [OF m(1) node_step.handler [of fns False]]) (simp add: handler_act_def node_sys_init_def)
  obtain m' where b: "node_evolves fns ?a (?a\<lparr>sys_nodes := m', sys_ch := replicate node_ch_cap ?k\<rparr>)"
    "\<forall>i. lookup m' ?k = Some i \<longrightarrow> \<not> deleted i"
    using fills [of ?a inp node_ch_cap fns] assms m(2) by (auto simp: node_sys_init_def)
  obtain m'' where c: "reconcile_section inp m' = (m'', True)" using section_live [OF assms b(2)] by blast
  let ?s = "?a\<lparr>sys_nodes := m'', sys_ch := replicate node_ch_cap ?k, sys_r := RSend inp\<rparr>"
  have "node_evolves fns (?a\<lparr>sys_nodes := m', sys_ch := replicate node_ch_cap ?k\<rparr>) ?s"
    using reaches_send [of "?a\<lparr>sys_nodes := m', sys_ch := replicate node_ch_cap ?k\<rparr>" inp m'' fns] c
    by (simp add: node_sys_init_def)
  then have s: "node_evolves fns node_sys_init ?s" using node_evolves_trans a b(1) by blast
  have d: "node_deadlock ?s" by (simp add: node_deadlock_def send_blocked_def)
  have e: "handler_waits (sys_h ?s)" "\<not> sys_done ?s" "set (sys_ch ?s) = {?k}" by (simp_all add: node_sys_init_def node_ch_cap_def)
  have "\<forall>s'. node_evolves fns ?s s' \<longrightarrow> s' = ?s \<or> s' = ?s\<lparr>sys_done := True\<rparr>"
    using deadlock_forever [OF _ d node_evolves_inv [OF s node_sys_inv_init]] by blast
  with s d e show ?thesis by blast
qed

section \<open>Examples\<close>


text \<open>A callback that never returns: the first announced node leaves the handler in it.\<close>

definition ex_hung :: node_sys where
  "ex_hung = node_sys_init\<lparr>sys_nodes := fst (reconcile_section ex_node []), sys_h := HHung\<rparr>"

lemma ex_hung_reached: "node_evolves [\<lambda>_. False] node_sys_init ex_hung"
proof -
  let ?m = "fst (reconcile_section ex_node [])" and ?k = "metaName (no_meta ex_node)"
  have live: "DeletionTimestamp (no_meta ex_node) = None" by (simp add: ex_node_simps)
  have sec: "reconcile_section ex_node [] = (?m, True)"
    by (rule section_live [OF live, of "[]"]) simp_all
  let ?a = "node_sys_init\<lparr>sys_nodes := ?m, sys_r := RSend ex_node\<rparr>"
  have "node_evolves [\<lambda>_. False] node_sys_init (?a\<lparr>sys_ch := sys_ch ?a @ [?k], sys_r := RIdle\<rparr>)"
    by (rule node_evolves_trans [OF passes_send reaches_send])
      (use sec in \<open>simp_all add: node_sys_init_def node_ch_cap_def\<close>)
  then have "node_evolves [\<lambda>_. False] node_sys_init (node_sys_init\<lparr>sys_nodes := ?m, sys_h := HWant ?k\<rparr>)"
    by (rule node_evolves.step [OF _ node_step.handler [of _ False]]) (simp add: handler_act_def node_sys_init_def)
  then have "node_evolves [\<lambda>_. False] node_sys_init (node_sys_init\<lparr>sys_nodes := ?m, sys_h := HRead ?k\<rparr>)"
    by (rule node_evolves.step [OF _ node_step.handler [of _ False]]) (simp add: handler_act_def node_sys_init_def)
  then have "node_evolves [\<lambda>_. False] node_sys_init (node_sys_init\<lparr>sys_nodes := ?m,
      sys_h := HCall (map_option node_DeepCopy (lookup ?m ?k)) [\<lambda>_. False]\<rparr>)"
    by (rule node_evolves.step [OF _ node_step.handler [of _ False]]) (simp add: handler_act_def node_sys_init_def)
  then show ?thesis unfolding ex_hung_def
    by (rule node_evolves.step [OF _ node_step.handler [of _ False]]) (simp add: handler_act_def node_sys_init_def)
qed

theorem node_hung_handler_witness:
  "node_evolves [\<lambda>_. False] node_sys_init ex_hung \<and> handler_stopped (sys_h ex_hung) \<and>
   (\<nexists>s'. node_evolves [\<lambda>_. False] ex_hung s' \<and> length (sys_ch s') > 16)"
proof -
  have h: "handler_stopped (sys_h ex_hung)" by (simp add: ex_hung_def handler_stopped_def)
  have "length (sys_ch s') \<le> 16" if "node_evolves [\<lambda>_. False] ex_hung s'" for s'
    using node_hung_handler [OF ex_hung_reached h that] by (auto simp: node_ch_cap_def ex_hung_def node_sys_init_def)
  with h ex_hung_reached show ?thesis by (metis not_le)
qed

theorem node_deadlock_reachable_witness:
  "DeletionTimestamp (no_meta ex_node) = None \<and>
   (\<exists>s. node_evolves [\<lambda>_. True] node_sys_init s \<and> node_deadlock s \<and> set (sys_ch s) = {metaName (no_meta ex_node)} \<and>
     (\<nexists>s'. node_evolves [\<lambda>_. True] s s' \<and> sys_ch s' \<noteq> sys_ch s))"
proof -
  have live: "DeletionTimestamp (no_meta ex_node) = None" by (simp add: ex_node_simps)
  obtain s where "node_evolves [\<lambda>_. True] node_sys_init s" "node_deadlock s" "set (sys_ch s) = {metaName (no_meta ex_node)}"
    and stay: "\<And>s'. node_evolves [\<lambda>_. True] s s' \<Longrightarrow> s' = s \<or> s' = s\<lparr>sys_done := True\<rparr>"
    using node_deadlock_reachable [OF live, of "[\<lambda>_. True]"] by auto
  moreover have "\<nexists>s'. node_evolves [\<lambda>_. True] s s' \<and> sys_ch s' \<noteq> sys_ch s" using stay by (metis node_sys.select_convs(2) node_sys.surjective node_sys.update_convs(3))
  ultimately show ?thesis using live by blast
qed

end
