(* ===== verification/Strconv.thy ===== *)
theory Strconv
  imports Prelude
begin

text \<open>
  The conversions of Go's standard library that the sources use: \<open>%d\<close> of \<open>fmt.Sprintf\<close>,
  \<open>strconv.Atoi\<close> and \<open>strconv.ParseBool\<close>, \<open>strings.TrimSpace\<close>, \<open>HasPrefix\<close> and \<open>TrimPrefix\<close>. A string is the list of its bytes;
  white space is that of ASCII.
\<close>

section \<open>Printing integers\<close>

definition digitChar :: "nat \<Rightarrow> char" where
  "digitChar d = char_of (48 + d)"

fun dec :: "nat \<Rightarrow> string" where
  "dec n = (if n < 10 then [digitChar n] else dec (n div 10) @ [digitChar (n mod 10)])"

definition Itoa :: "int \<Rightarrow> string" where
  "Itoa i = (if i < 0 then CHR ''-'' # dec (nat (- i)) else dec (nat i))"

section \<open>Reading integers\<close>

definition digitVal :: "char \<Rightarrow> nat option" where
  "digitVal c = (if 48 \<le> (of_char c :: nat) \<and> (of_char c :: nat) \<le> 57 then Some (of_char c - 48) else None)"

fun readDigits :: "nat \<Rightarrow> string \<Rightarrow> nat option" where
  "readDigits acc [] = Some acc"
| "readDigits acc (c # cs) = (case digitVal c of
      None \<Rightarrow> None
    | Some d \<Rightarrow> readDigits (10 * acc + d) cs)"

text \<open>
  \<open>strconv.Atoi\<close>: an optional sign, at least one digit, and a value that fits into 64 bits;
  \<open>None\<close> is an error.
\<close>

definition unsignedAtoi :: "string \<Rightarrow> nat option" where
  "unsignedAtoi s = (if s = [] then None else readDigits 0 s)"

definition Atoi :: "string \<Rightarrow> int option" where
  "Atoi s = (case s of
      [] \<Rightarrow> None
    | c # cs \<Rightarrow>
        if c = CHR ''-'' then
          (case unsignedAtoi cs of
             None \<Rightarrow> None
           | Some n \<Rightarrow> if n \<le> 2 ^ 63 then Some (- int n) else None)
        else
          (case unsignedAtoi (if c = CHR ''+'' then cs else s) of
             None \<Rightarrow> None
           | Some n \<Rightarrow> if n < 2 ^ 63 then Some (int n) else None))"

definition ParseBool :: "string \<Rightarrow> bool option" where
  "ParseBool s =
     (if s \<in> set [''1'', ''t'', ''T'', ''true'', ''TRUE'', ''True''] then Some True
      else if s \<in> set [''0'', ''f'', ''F'', ''false'', ''FALSE'', ''False''] then Some False
      else None)"

section \<open>White space\<close>

definition isSpace :: "char \<Rightarrow> bool" where
  "isSpace c \<longleftrightarrow> (of_char c :: nat) \<in> {9, 10, 11, 12, 13, 32}"

definition TrimSpace :: "string \<Rightarrow> string" where
  "TrimSpace s = rev (dropWhile isSpace (rev (dropWhile isSpace s)))"

section \<open>Prefixes\<close>

text \<open>\<open>strings.HasPrefix\<close> and \<open>strings.TrimPrefix\<close>.\<close>

definition HasPrefix :: "string \<Rightarrow> string \<Rightarrow> bool" where
  "HasPrefix s prefix \<longleftrightarrow> length s \<ge> length prefix \<and> take (length prefix) s = prefix"

definition TrimPrefix :: "string \<Rightarrow> string \<Rightarrow> string" where
  "TrimPrefix s prefix = (if HasPrefix s prefix then drop (length prefix) s else s)"

section \<open>Lemmas\<close>

lemma HasPrefix_append [simp]: "HasPrefix (p @ s) p"
  by (simp add: HasPrefix_def)

lemma TrimPrefix_append [simp]: "TrimPrefix (p @ s) p = s"
  by (simp add: TrimPrefix_def)

declare dec.simps [simp del]

lemma of_char_digitChar: "d < 10 \<Longrightarrow> (of_char (digitChar d) :: nat) = 48 + d"
  by (simp add: digitChar_def take_bit_eq_mod)

lemma digitVal_digitChar [simp]: "d < 10 \<Longrightarrow> digitVal (digitChar d) = Some d"
  by (simp add: digitVal_def of_char_digitChar)

lemma readDigits_append:
  "readDigits acc (xs @ ys) = (case readDigits acc xs of None \<Rightarrow> None | Some a \<Rightarrow> readDigits a ys)"
  by (induction xs arbitrary: acc) (auto split: option.splits)

lemma readDigits_dec: "readDigits 0 (dec n) = Some n"
proof (induction n rule: dec.induct)
  case (1 n)
  show ?case
  proof (cases "n < 10")
    case True
    then show ?thesis by (simp add: dec.simps [of n])
  next
    case False
    with 1 have "readDigits 0 (dec (n div 10)) = Some (n div 10)" by simp
    moreover have "10 * (n div 10) + n mod 10 = n" by simp
    ultimately show ?thesis using False
      by (simp add: dec.simps [of n] readDigits_append)
  qed
qed

lemma dec_inject: "dec m = dec n \<Longrightarrow> m = n"
  by (metis option.inject readDigits_dec)

lemma dec_nonempty [simp]: "dec n \<noteq> []"
  by (simp add: dec.simps [of n])

lemma hd_dec: "\<exists>d<10. hd (dec n) = digitChar d"
proof (induction n rule: dec.induct)
  case (1 n)
  then show ?case by (cases "n < 10") (auto simp: dec.simps [of n])
qed

lemma hd_dec_not_sign: "hd (dec n) \<noteq> CHR ''-''" "hd (dec n) \<noteq> CHR ''+''"
proof -
  obtain d where d: "d < 10" "hd (dec n) = digitChar d" using hd_dec by blast
  then have c: "(of_char (hd (dec n)) :: nat) = 48 + d" by (simp add: of_char_digitChar)
  have "(of_char CHR ''-'' :: nat) = 45" "(of_char CHR ''+'' :: nat) = 43" by simp_all
  with c show "hd (dec n) \<noteq> CHR ''-''" "hd (dec n) \<noteq> CHR ''+''" by force+
qed

lemma Atoi_dec: "Atoi (dec n) = (if n < 2 ^ 63 then Some (int n) else None)"
proof -
  obtain c cs where d: "dec n = c # cs" by (meson dec_nonempty list.exhaust)
  have "c \<noteq> CHR ''-''" "c \<noteq> CHR ''+''" using hd_dec_not_sign [of n] d by auto
  moreover have "unsignedAtoi (c # cs) = Some n"
    using readDigits_dec [of n] d by (simp add: unsignedAtoi_def)
  ultimately show ?thesis using d by (simp add: Atoi_def)
qed

lemma Atoi_Itoa:
  assumes "- (2 ^ 63) \<le> i" and "i < 2 ^ 63"
  shows "Atoi (Itoa i) = Some i"
proof (cases "i < 0")
  case True
  then have "Itoa i = CHR ''-'' # dec (nat (- i))" by (simp add: Itoa_def)
  moreover have "unsignedAtoi (dec (nat (- i))) = Some (nat (- i))"
    by (simp add: unsignedAtoi_def readDigits_dec)
  moreover have "nat (- i) \<le> 2 ^ 63" using assms(1) by simp
  ultimately show ?thesis using True by (simp add: Atoi_def)
next
  case False
  then have "Itoa i = dec (nat i)" by (simp add: Itoa_def)
  with False assms(2) show ?thesis by (simp add: Atoi_dec)
qed

lemma Itoa_inject: "Itoa i = Itoa j \<Longrightarrow> i = j"
proof -
  have sign: "Itoa k = Itoa l \<Longrightarrow> k < 0 \<Longrightarrow> l < 0" for k l
    using hd_dec_not_sign(1) [of "nat l"] by (auto simp: Itoa_def split: if_splits) (metis list.sel(1))
  assume "Itoa i = Itoa j"
  moreover from this sign have "i < 0 \<longleftrightarrow> j < 0" by metis
  ultimately show "i = j"
    by (cases "i < 0") (auto simp: Itoa_def dest!: dec_inject)
qed

lemma dropWhile_none: "(\<And>c. c \<in> set s \<Longrightarrow> \<not> P c) \<Longrightarrow> dropWhile P s = s"
  by (cases s) simp_all

lemma TrimSpace_id: "(\<And>c. c \<in> set s \<Longrightarrow> \<not> isSpace c) \<Longrightarrow> TrimSpace s = s"
  using dropWhile_none [of s isSpace] dropWhile_none [of "rev s" isSpace] by (simp add: TrimSpace_def)

lemma TrimSpace_idem [simp]: "TrimSpace (TrimSpace s) = TrimSpace s"
proof -
  let ?u = "dropWhile isSpace s" and ?t = "TrimSpace s"
  have t: "?t = rev (dropWhile isSpace (rev ?u))" by (simp add: TrimSpace_def)
  have "dropWhile isSpace ?t = ?t"
  proof (cases ?t)
    case (Cons c cs)
    have "rev ?u = takeWhile isSpace (rev ?u) @ rev ?t"
      by (simp add: t)
    then have "?u = ?t @ rev (takeWhile isSpace (rev ?u))" by (metis rev_append rev_rev_ident)
    with Cons have "?u = c # (cs @ rev (takeWhile isSpace (rev ?u)))" by (metis append_Cons)
    then have "hd ?u = c" "?u \<noteq> []" by (metis list.sel(1), metis list.distinct(1))
    then have "\<not> isSpace c" by (metis hd_dropWhile)
    with Cons show ?thesis by simp
  qed simp
  moreover have "dropWhile isSpace (rev ?t) = rev ?t"
    by (metis dropWhile_idem rev_rev_ident t)
  ultimately show ?thesis by (simp add: TrimSpace_def [of ?t])
qed

end
