(* ===== verification/Infra.thy ===== *)
theory Infra
  imports Util Strconv
begin

text \<open>
  \<open>src/pkg/infra\<close>: the types of the infrastructure layer (\<open>interface.go\<close>), the names of the ports
  it creates and the choice of a client (\<open>controller.go\<close>, \<open>config.go\<close>). The interface \<open>Client\<close> is a
  record of operations on an arbitrary state. A callback handed to an asynchronous operation is
  a value of the type \<open>'cb\<close>; the state that holds the pending work decides when it runs.
\<close>

section \<open>Data\<close>

record AddressPair =
  ap_Ip :: string
  ap_Mac :: string

text \<open>\<open>Second\<close> maps an address to the secondary interface that carries it; it may be nil.\<close>

datatype Interface = Interface
  (if_Name: string) (if_Id: string) (if_Ip: string) (if_SubnatId: string) (if_Mac: string)
  (if_Second: "(string \<times> Interface) list option")

definition if_DeepCopy :: "Interface \<Rightarrow> Interface" where
  "if_DeepCopy i = Interface [] (if_Id i) (if_Ip i) (if_SubnatId i) (if_Mac i) None"

record Instance =
  is_Id :: string
  is_DefaultIp :: string
  is_NodeName :: string
  is_Interface :: "(Interface gomap) option"

definition mapEntries :: "('v gomap) option \<Rightarrow> 'v gomap" where
  "mapEntries m = (case m of None \<Rightarrow> [] | Some es \<Rightarrow> es)"

text \<open>The loop stores each copy under its key in a fresh map; the order does not matter.\<close>

definition is_DeepCopy :: "Instance \<Rightarrow> Instance" where
  "is_DeepCopy i = \<lparr>is_Id = is_Id i, is_DefaultIp = is_DefaultIp i, is_NodeName = is_NodeName i,
     is_Interface = Some (foldl (\<lambda>m (k, v). AList.update k (if_DeepCopy v) m) [] (mapEntries (is_Interface i)))\<rparr>"

record Subnat_info =
  si_Cidr :: string
  si_GwIp :: string
  si_Id :: string
  si_Name :: string
  si_VpcId :: string

record Opt =
  o_Subnet :: string
  o_Vpc :: string
  o_Project :: string
  o_Port :: string
  o_Instance :: string
  o_PortName :: string
  o_InstanceName :: string
  o_Ip :: string

definition emptyOpt :: Opt where
  "emptyOpt = \<lparr>o_Subnet = [], o_Vpc = [], o_Project = [], o_Port = [], o_Instance = [], o_PortName = [],
     o_InstanceName = [], o_Ip = []\<rparr>"

section \<open>Port names\<close>

definition VMInterfaceName :: string where
  "VMInterfaceName = ''cilium-vm-port-''"

definition PodInterfaceName :: string where
  "PodInterfaceName = ''cilium-pod-port-''"

definition GetInstancePortName :: "Opt \<Rightarrow> string" where
  "GetInstancePortName o1 =
     (if o_InstanceName o1 \<noteq> [] then VMInterfaceName @ o_InstanceName o1 else VMInterfaceName @ o_Instance o1)"

definition GetInterfacePortName :: "Opt \<Rightarrow> string" where
  "GetInterfacePortName o1 =
     (if o_PortName o1 \<noteq> [] then PodInterfaceName @ o_PortName o1 else PodInterfaceName @ o_Port o1)"

section \<open>The interface Client and its choice\<close>

record ('s, 'cb) infra_client =
  ic_GetInterface :: "Opt \<Rightarrow> ('s, Interface option) go"
  ic_GetInstance :: "Opt \<Rightarrow> ('s, Instance option) go"
  ic_GetSubnat :: "Opt \<Rightarrow> ('s, Subnat_info option) go"
  ic_UpdatePort :: "Opt \<Rightarrow> int \<Rightarrow> Event \<Rightarrow> bool \<Rightarrow> 'cb option \<Rightarrow> ('s, err) go"
  ic_EachInterface :: "Opt \<Rightarrow> (Interface option \<Rightarrow> ('s, bool \<times> err) go) \<Rightarrow> ('s, err) go"
  ic_UpdateInstancePort :: "Opt \<Rightarrow> Event \<Rightarrow> bool \<Rightarrow> 'cb option \<Rightarrow> ('s, err) go"
  ic_UpdateInterfacePort :: "string \<Rightarrow> AddressPair list option \<Rightarrow> Event \<Rightarrow> bool \<Rightarrow> 'cb option \<Rightarrow> ('s, err) go"

definition OpenstackType :: string where
  "OpenstackType = ''openstack''"

record OpenstackCfg =
  AuthUrl :: string
  CredentialId :: string
  CredentialSecret :: string

record InfraCfg =
  InfraType :: string
  InfraTimeout :: int
  InfraMutexOnCreate :: bool
  Openstack_cfg :: OpenstackCfg

text \<open>\<open>NewInfra\<close>, with the constructor of the OpenStack client as an argument.\<close>

definition infra_NewInfra :: "(InfraCfg \<Rightarrow> go_error + 'c) \<Rightarrow> InfraCfg option \<Rightarrow> go_error + 'c" where
  "infra_NewInfra newOpenstackClient cfg = (case cfg of
      None \<Rightarrow> Inl (Errorf ''not found infra config'' [])
    | Some c \<Rightarrow>
        if InfraType c = OpenstackType then newOpenstackClient c
        else Inl (Errorf ''not support infra type %s'' [InfraType c]))"

section \<open>Lemmas\<close>

lemma prefixes_differ:
  "\<not> HasPrefix (VMInterfaceName @ s) PodInterfaceName" "\<not> HasPrefix (PodInterfaceName @ s) VMInterfaceName"
  by (simp_all add: HasPrefix_def VMInterfaceName_def PodInterfaceName_def)

text \<open>
  Names of ports : the name given to a port of an instance or of an interface tells the two
  kinds apart and gives back the name it was made from, which is how \<open>processSubnatWork\<close> finds
  the node or the interface of a listed port.
\<close>

theorem port_names_roundtrip:
  "HasPrefix (GetInstancePortName o1) VMInterfaceName \<and> \<not> HasPrefix (GetInstancePortName o1) PodInterfaceName \<and>
   TrimPrefix (GetInstancePortName o1) VMInterfaceName =
     (if o_InstanceName o1 \<noteq> [] then o_InstanceName o1 else o_Instance o1) \<and>
   HasPrefix (GetInterfacePortName o1) PodInterfaceName \<and> \<not> HasPrefix (GetInterfacePortName o1) VMInterfaceName \<and>
   TrimPrefix (GetInterfacePortName o1) PodInterfaceName =
     (if o_PortName o1 \<noteq> [] then o_PortName o1 else o_Port o1)"
  by (simp add: GetInstancePortName_def GetInterfacePortName_def prefixes_differ)

lemma if_DeepCopy_fields [simp]: "if_Id (if_DeepCopy i) = if_Id i" "if_Ip (if_DeepCopy i) = if_Ip i"
  "if_Mac (if_DeepCopy i) = if_Mac i" "if_SubnatId (if_DeepCopy i) = if_SubnatId i"
  by (simp_all add: if_DeepCopy_def)

lemma lookup_copies:
  assumes "distinct (map fst es)"
  shows "lookup (foldl (\<lambda>m (k, v). AList.update k (f v) m) m0 es) k =
    (case lookup es k of Some v \<Rightarrow> Some (f v) | None \<Rightarrow> lookup m0 k)"
  using assms
proof (induction es arbitrary: m0)
  case (Cons e es)
  obtain k' v where e: "e = (k', v)" by (cases e)
  have "lookup es k' = None" using Cons.prems e by (simp add: map_of_eq_None_iff)
  with Cons e show ?case by (auto split: option.splits)
qed simp

end
