(* ===== verification/Vpc_Config.thy ===== *)
theory Vpc_Config
  imports Infra
begin

text \<open>
  \<open>src/pkg/vpc/config.go\<close>: the cached description of a subnet, the configuration of the vpc
  controller, and the events it computes for the infrastructure layer. The struct \<open>Event\<close> of
  that file is not used anywhere.
\<close>

definition defaultSubnat :: string where
  "defaultSubnat = ''default''"

record Sninfo =
  sn_Name :: string
  sn_Namespace :: goset_ptr
  sn_Node :: goset_ptr
  allnode :: bool
  allnamespace :: bool
  sn_Deleted :: bool
  sn_Id :: string
  sn_projectId :: string
  sn_vpcId :: string
  sn_PreAllocated :: int
  sn_MinAvaliab :: int

definition zeroSninfo :: Sninfo where
  "zeroSninfo = \<lparr>sn_Name = [], sn_Namespace = None, sn_Node = None, allnode = False, allnamespace = False,
     sn_Deleted = False, sn_Id = [], sn_projectId = [], sn_vpcId = [], sn_PreAllocated = 0, sn_MinAvaliab = 0\<rparr>"

definition sn_DeepCopy :: "Sninfo \<Rightarrow> Sninfo outcome" where
  "sn_DeepCopy sn = bindo (set_Copy (sn_Namespace sn)) (\<lambda>ns. bindo (set_Copy (sn_Node sn)) (\<lambda>no.
     Done (zeroSninfo\<lparr>sn_Name := sn_Name sn, sn_Namespace := ns, sn_Node := no, sn_Id := sn_Id sn,
       sn_Deleted := sn_Deleted sn\<rparr>)))"

record VpcCfg =
  cfg_PreAllocated :: int
  cfg_MinAvaliable :: int
  WorkerNumber :: int
  DefaultSubnatId :: string
  DefaultProjectId :: string

record poolEvent =
  pe_mainId :: string
  pe_add :: int
  pe_remove :: goset_ptr

record nodeEvent =
  ne_nodeName :: string
  ne_nodeId :: string
  ne_defaultIp :: string
  ne_add :: int
  ne_remove :: goset_ptr
  ne_pools :: "poolEvent list"

record subnatEvent =
  se_vpcId :: string
  se_projectId :: string
  se_subnatId :: string
  se_subnatName :: string
  se_nodes :: "nodeEvent list"

text \<open>The copy keeps the sets and the identity of a subnet, and forgets its policy.\<close>

lemma sn_DeepCopy_wf:
  assumes "wf_set (sn_Namespace sn)" and "wf_set (sn_Node sn)"
  shows "sn_DeepCopy sn = Done (sn\<lparr>allnode := False, allnamespace := False, sn_projectId := [], sn_vpcId := [],
    sn_PreAllocated := 0, sn_MinAvaliab := 0\<rparr>)"
  using assms by (simp add: sn_DeepCopy_def zeroSninfo_def)

end
