(* ===== verification/Vpc_Manager.thy ===== *)
theory Vpc_Manager
  imports Node Vpc_Config
begin

text \<open>
  \<open>src/pkg/vpc/vpc.go\<close>: the controller of the custom resource \<open>Subnet\<close>. It caches the subnets,
  guards their removal with the pools, and, told about pools, nodes and namespaces, computes
  the events for the infrastructure layer. It uses the pools, the nodes and the infrastructure
  through their interfaces only. \<open>Manager.ch\<close> is never made: a send on it blocks for ever and a
  receive from it is never ready.
\<close>

section \<open>State\<close>

record 'w vpc_client =
  v_Get :: "string \<Rightarrow> 'w \<Rightarrow> (go_error + SubnetObj) \<times> 'w"
  v_Create :: "SubnetObj \<Rightarrow> 'w \<Rightarrow> err \<times> 'w"
  v_Patch :: "SubnetObj \<Rightarrow> SubnetObj \<Rightarrow> 'w \<Rightarrow> err \<times> 'w"
  v_ListNamespaces :: "'w \<Rightarrow> (go_error + string list) \<times> 'w"

record 'w vpc_ctrl = "'w node_ctrl" +
  subnats :: "Sninfo gomap"

text \<open>\<open>NewManager\<close>: the manager with an empty cache, and the error of registering it.\<close>

definition vpc_NewManager :: "VpcCfg \<Rightarrow> err \<Rightarrow> (Sninfo gomap) option \<times> err" where
  "vpc_NewManager cfg probe =
     (if DefaultProjectId cfg = [] \<or> DefaultSubnatId cfg = []
      then (None, Some (Errorf ''must set default projectid and subnatid'' []))
      else (Some [], probe))"

section \<open>The default subnet\<close>

definition defaultEniSubnat :: "VpcCfg \<Rightarrow> SubnetObj" where
  "defaultEniSubnat cfg = \<lparr>sn_meta = emptyMeta\<lparr>metaName := defaultSubnat\<rparr>,
     sn_spec = \<lparr>IPVersion = Ipv4Family, Subnet = DefaultSubnatId cfg, Vpc = [], Project = DefaultProjectId cfg,
       PreAllocated = Some (cfg_PreAllocated cfg), MinAvaliable = Some (cfg_MinAvaliable cfg),
       NamespaceName = None, NodeName = None\<rparr>,
     sn_status = \<lparr>SubnatName = None, VpcName = None, Gateway = None, Cidr = None,
       st_NamespaceName = None, st_NodeName = None\<rparr>\<rparr>"

text \<open>\<open>Start\<close>, after it has started the goroutine of \<open>processWork\<close>; a differing object is only logged.\<close>

definition vpc_Start :: "'w vpc_client \<Rightarrow> VpcCfg \<Rightarrow> (('w, 'z) base_scheme, err) go" where
  "vpc_Start c cfg = andThen (Backoff (ret None)) (\<lambda>err.
     if err \<noteq> None then ret err
     else Backoff (andThen (inWorld (v_Get c defaultSubnat)) (\<lambda>r. case r of
       Inl e \<Rightarrow> if IsNotFound e then inWorld (v_Create c (defaultEniSubnat cfg)) else ret (Some e)
     | Inr _ \<Rightarrow> ret None)))"

section \<open>Reconcile\<close>

definition vpc_couldRemove :: "('w, 'z) vpc_ctrl_scheme pool_manager \<Rightarrow> string \<Rightarrow> (('w, 'z) vpc_ctrl_scheme, bool) go" where
  "vpc_couldRemove pm name = andThen (EachPool pm (\<lambda>err p.
      if Subnat p = name
      then andThen (UpdatePool pm (Some p) DeleteE) (\<lambda>err1. ret (joinErr err err1, None))
      else ret (err, None)) None)
    (\<lambda>err. ret (err = None))"

definition setSubnat :: "string \<Rightarrow> Sninfo \<Rightarrow> (('w, 'z) vpc_ctrl_scheme, unit) go" where
  "setSubnat k sn = modify (\<lambda>s. s\<lparr>subnats := AList.update k sn (subnats s)\<rparr>)"

text \<open>The fields a reconciled object sets before its deletion is looked at.\<close>

definition snPolicy :: "VpcCfg \<Rightarrow> SubnetSpec \<Rightarrow> Sninfo \<Rightarrow> Sninfo" where
  "snPolicy cfg spec sn = sn\<lparr>sn_projectId := Project spec, sn_vpcId := Vpc spec, sn_Id := Subnet spec,
     sn_PreAllocated := (case PreAllocated spec of Some n \<Rightarrow> n | None \<Rightarrow> cfg_PreAllocated cfg),
     sn_MinAvaliab := (case MinAvaliable spec of Some n \<Rightarrow> n | None \<Rightarrow> cfg_MinAvaliable cfg)\<rparr>"

text \<open>The two loops that collect the namespaces and the nodes of a live object.\<close>

definition snMembers :: "SubnetObj \<Rightarrow> Sninfo \<Rightarrow> Sninfo outcome" where
  "snMembers inp sn =
     (let nslist = (if NamespaceName (sn_spec inp) \<noteq> None then NamespaceName (sn_spec inp)
                    else st_NamespaceName (sn_status inp));
          nolist = (if NodeName (sn_spec inp) \<noteq> None then NodeName (sn_spec inp) else st_NodeName (sn_status inp))
      in bindo (foldo (\<lambda>p x. set_Add p [GStr x]) (sn_Namespace sn) (elems nslist)) (\<lambda>ns.
         bindo (foldo (\<lambda>p x. set_Add p [GStr x]) (sn_Node sn) (elems nolist)) (\<lambda>no.
         Done (sn\<lparr>sn_Namespace := ns, sn_Node := no,
           allnamespace := allnamespace sn \<or> NamespaceName (sn_spec inp) = None,
           allnode := allnode sn \<or> NodeName (sn_spec inp) = None\<rparr>))))"

definition vpc_Reconcile ::
  "'w vpc_client \<Rightarrow> VpcCfg \<Rightarrow> ('w, 'z) vpc_ctrl_scheme pool_manager \<Rightarrow> string \<Rightarrow> (('w, 'z) vpc_ctrl_scheme, err) go" where
  "vpc_Reconcile c cfg pm reqName = andThen (inWorld (v_Get c reqName)) (\<lambda>r. case r of
      Inl e \<Rightarrow> ret None
    | Inr inp \<Rightarrow>
        (let spec = sn_spec inp; name = metaName (sn_meta inp) in
        if Project spec = [] \<or> Vpc spec = [] \<or> Subnet spec = [] then ret None
        else andThen (gets (\<lambda>s. lookup (subnats s) name)) (\<lambda>old.
        (let sn = (case old of
             Some i \<Rightarrow> i
           | None \<Rightarrow> zeroSninfo\<lparr>sn_Node := Some [], sn_Namespace := Some [], sn_Id := Subnet spec\<rparr>) in
        andThen (setSubnat name sn) (\<lambda>_.
        if sn_Deleted sn then
          andThen (vpc_couldRemove pm name) (\<lambda>could.
            if could
            then inWorld (v_Patch c (inp\<lparr>sn_meta := RemoveFinalizer (sn_meta inp) FinializerController\<rparr>) inp)
            else ret None)
        else
          andThen (setSubnat name (snPolicy cfg spec sn)) (\<lambda>_.
          if DeletionTimestamp (sn_meta inp) \<noteq> None
          then andThen (setSubnat name ((snPolicy cfg spec sn)\<lparr>sn_Deleted := True\<rparr>)) (\<lambda>_. ret None)
          else andThen (lift (snMembers inp (snPolicy cfg spec sn))) (\<lambda>sn'.
            andThen (setSubnat name sn') (\<lambda>_. ret None)))))))) "

definition getPolicy :: "VpcCfg \<Rightarrow> string \<Rightarrow> (('w, 'z) vpc_ctrl_scheme, int \<times> int) go" where
  "getPolicy cfg name = gets (\<lambda>s. case lookup (subnats s) name of
      None \<Rightarrow> (cfg_PreAllocated cfg, cfg_MinAvaliable cfg)
    | Some sn \<Rightarrow> (sn_PreAllocated sn, sn_MinAvaliab sn))"

definition getNamespace :: "'w vpc_client \<Rightarrow> (('w, 'z) base_scheme, slice) go" where
  "getNamespace c = andThen (inWorld (v_ListNamespaces c)) (\<lambda>r. case r of
      Inl e \<Rightarrow> ret None
    | Inr ns \<Rightarrow> ret (appended ns))"

section \<open>Events\<close>

text \<open>\<open>getNodeInterface\<close>: the ids of the interfaces of a node other than its default one.\<close>

definition getNodeInterface ::
  "(('w, 'z) base_scheme, 'cb) infra_client \<Rightarrow> NodeInfo \<Rightarrow> (('w, 'z) base_scheme, goset_ptr) go" where
  "getNodeInterface api info = andThen (ic_GetInstance api (emptyOpt\<lparr>o_Instance := NodeId info\<rparr>)) (\<lambda>inst.
     case inst of
       None \<Rightarrow> ret None
     | Some i \<Rightarrow> andThen (rangeOrder (map snd (mapEntries (is_Interface i)))) (\<lambda>ports.
         lift (foldo (\<lambda>st port. if if_Ip port = NodeIp info then Done st else set_Add st [GStr (if_Id port)])
           (Some []) ports)))"

text \<open>
  The loop of \<open>calPoolEvent\<close> over the addresses that can be released; \<open>i\<close> counts all of them, and an
  address without an interface is skipped.
\<close>

fun release_loop ::
  "Interface gomap \<Rightarrow> int \<Rightarrow> goval list \<Rightarrow> int \<Rightarrow> goset_ptr \<times> goset_ptr \<Rightarrow> (goset_ptr \<times> goset_ptr) outcome" where
  "release_loop second delnum [] i (rm, cap) = Done (rm, cap)"
| "release_loop second delnum (v # vs) i (rm, cap) =
     (if i \<ge> delnum then Done (rm, cap)
      else bindo (asString v) (\<lambda>ip. case lookup second ip of
          None \<Rightarrow> release_loop second delnum vs (i + 1) (rm, cap)
        | Some info \<Rightarrow>
            bindo (set_Add rm [GPair (if_Ip info) (if_Mac info)]) (\<lambda>rm'.
            bindo (set_Remove cap [GStr (if_Ip info)]) (\<lambda>cap'.
            release_loop second delnum vs (i + 1) (rm', cap')))))"

text \<open>\<open>calPoolEvent\<close> returns its error and the event it has updated.\<close>

definition calPoolEvent ::
  "(('w, 'z) base_scheme, 'cb) infra_client \<Rightarrow> ('w, 'z) base_scheme pool_manager \<Rightarrow>
   Sninfo option \<Rightarrow> Pool option \<Rightarrow> poolEvent option \<Rightarrow> (('w, 'z) base_scheme, err \<times> poolEvent option) go" where
  "calPoolEvent api pm sn1 po1 plev1 = (case (sn1, po1, plev1) of
      (Some sn, Some po, Some plev) \<Rightarrow>
        andThen (ic_GetInterface api (emptyOpt\<lparr>o_Ip := MainId po\<rparr>)) (\<lambda>ifinfo. case ifinfo of
          None \<Rightarrow> ret (Some (Errorf ''not found interface by id %s'' [MainId po]), plev1)
        | Some ifi \<Rightarrow>
            (let second = mapEntries (if_Second ifi) in
            andThen (rangeOrder (map fst second)) (\<lambda>sips.
            andThen (lift (foldo (\<lambda>p x. set_Add p [GStr x]) (CapIp po) sips)) (\<lambda>cap.
            andThen (lift (set_Size (UsedIp po))) (\<lambda>used.
            andThen (lift (set_Size cap)) (\<lambda>capn.
            (let addnum = wrap64 (wrap64 (used + sn_MinAvaliab sn) - capn);
                 plev' = (if addnum > 0 then plev\<lparr>pe_add := addnum\<rparr> else plev);
                 delnum = wrap64 (wrap64 (capn - sn_PreAllocated sn) - used);
                 finish = (\<lambda>plev cap. andThen (Backoff (UpdatePool pm (Some (po\<lparr>CapIp := cap\<rparr>)) UpdateE))
                    (\<lambda>e. ret (e, Some plev)))
             in if delnum > 0
                then andThen (lift (set_Difference cap (UsedIp po))) (\<lambda>delset.
                  andThen (set_Values delset) (\<lambda>vs.
                  andThen (lift (release_loop second delnum vs 0 (pe_remove plev', cap))) (\<lambda>(rm, cap').
                  finish (plev'\<lparr>pe_remove := rm\<rparr>) cap')))
                else finish plev' cap)))))))
    | _ \<Rightarrow> ret (Some (Errorf ''update pool event, but params is null'' []), plev1))"

text \<open>The walk over the pools of one node of a subnet: the events of the pools and the removals.\<close>

definition poolStep ::
  "(('w, 'z) base_scheme, 'cb) infra_client \<Rightarrow> ('w, 'z) base_scheme pool_manager \<Rightarrow>
   ('w, 'z) base_scheme node_manager \<Rightarrow> Sninfo \<Rightarrow> NodeInfo \<Rightarrow> nodeEvent \<Rightarrow> Pool \<Rightarrow>
   (('w, 'z) base_scheme, nodeEvent \<times> err) go" where
  "poolStep api pm nm sn ni noev p =
     (if pl_NodeName p \<noteq> ne_nodeName noev \<or> Subnat p \<noteq> sn_Name sn then ret (noev, None)
      else
        let poev = \<lparr>pe_mainId = MainId p, pe_add = 0, pe_remove = None\<rparr>;
            withPool = (\<lambda>pe. noev\<lparr>ne_pools := ne_pools noev @ [pe]\<rparr>);
            drop = andThen (lift (set_Add (ne_remove noev) [GStr (NodeId ni)])) (\<lambda>rm.
              ret ((withPool poev)\<lparr>ne_remove := rm\<rparr>, None))
        in andThen (if IsDeleted ni then CouldRemove nm (ni_Name ni) else ret False) (\<lambda>could.
          if could then drop
          else if sn_Deleted sn then
            andThen (UpdatePool pm (Some p) DeleteE) (\<lambda>err.
              if err = None then drop else ret (withPool poev, None))
          else andThen (calPoolEvent api pm (Some sn) (Some p) (Some poev)) (\<lambda>(_, pe).
            ret (withPool (case pe of Some e \<Rightarrow> e | None \<Rightarrow> poev), None))))"

definition nodeStep ::
  "'w vpc_client \<Rightarrow> (('w, 'z) base_scheme, 'cb) infra_client \<Rightarrow> ('w, 'z) base_scheme pool_manager \<Rightarrow>
   ('w, 'z) base_scheme node_manager \<Rightarrow> Sninfo \<Rightarrow> nodeEvent list \<Rightarrow> NodeInfo \<Rightarrow>
   (('w, 'z) base_scheme, nodeEvent list \<times> err) go" where
  "nodeStep c api pm nm sn evs ni =
     andThen (lift (set_Contains (sn_Node sn) [GStr (ni_Name ni)])) (\<lambda>inNode.
     if \<not> inNode then ret (evs, None)
     else
       andThen (getNodeInterface api ni) (\<lambda>noifs.
       andThen (EachPool pm (poolStep api pm nm sn ni)
         \<lparr>ne_nodeName = ni_Name ni, ne_nodeId = NodeId ni, ne_defaultIp = NodeIp ni, ne_add = 1,
          ne_remove = Some [], ne_pools = []\<rparr>) (\<lambda>noev.
       andThen (getNamespace c) (\<lambda>ns.
       andThen (lift (set_New [GSlice ns])) (\<lambda>nset.
       andThen (set_Values noifs) (\<lambda>infos.
       andThen (forEach (\<lambda>info. andThen (lift (asString info)) (\<lambda>mid.
           andThen (lift (set_Contains (ne_remove noev) [GStr mid])) (\<lambda>gone.
           if gone then ret ()
           else andThen (UpdatePool pm (Some \<lparr>pl_NodeName = ni_Name ni, MainId = mid, Subnat = sn_Name sn,
               Namespace = nset, CapIp = None, UsedIp = None\<rparr>) CreateE) (\<lambda>_. ret ())))) infos) (\<lambda>_.
       ret (evs @ [noev\<lparr>ne_add := ne_add noev - int (length (ne_pools noev))\<rparr>], None))))))))"

definition getSubnatEvent ::
  "'w vpc_client \<Rightarrow> (('w, 'z) base_scheme, 'cb) infra_client \<Rightarrow> ('w, 'z) base_scheme pool_manager \<Rightarrow>
   ('w, 'z) base_scheme node_manager \<Rightarrow> Sninfo option \<Rightarrow> (('w, 'z) base_scheme, subnatEvent option) go" where
  "getSubnatEvent c api pm nm sn1 = (case sn1 of
      None \<Rightarrow> ret None
    | Some sn \<Rightarrow> andThen (EachNode nm (nodeStep c api pm nm sn) []) (\<lambda>evs.
        ret (Some \<lparr>se_vpcId = sn_vpcId sn, se_projectId = sn_projectId sn, se_subnatId = sn_Id sn,
          se_subnatName = sn_Name sn, se_nodes = evs\<rparr>)))"

section \<open>Callbacks and the work loop\<close>

text \<open>What the callback is told about; the pointers to pools and nodes may be nil.\<close>

datatype vpc_arg = PoolArg "Pool option" | NodeArg "NodeInfo option" | NamespaceArg string

text \<open>Whether a subnet is concerned, evaluated from left to right.\<close>

fun concerned :: "vpc_arg \<Rightarrow> Sninfo \<Rightarrow> bool outcome" where
  "concerned (PoolArg None) sn = Panic NilDeref"
| "concerned (PoolArg (Some p)) sn = Done (sn_Name sn = Subnat p)"
| "concerned (NodeArg n) sn = (if allnode sn then Done True
     else case n of None \<Rightarrow> Panic NilDeref | Some ni \<Rightarrow> set_Contains (sn_Node sn) [GStr (ni_Name ni)])"
| "concerned (NamespaceArg n) sn = (if allnamespace sn then Done True
     else set_Contains (sn_Namespace sn) [GStr n])"

text \<open>\<open>vpc.ch <- vpc.getSubnatEvent(sn)\<close>: the event is computed, then the send blocks.\<close>

definition vpc_callback ::
  "'w vpc_client \<Rightarrow> (('w, 'z) vpc_ctrl_scheme, 'cb) infra_client \<Rightarrow> ('w, 'z) vpc_ctrl_scheme pool_manager \<Rightarrow>
   ('w, 'z) vpc_ctrl_scheme node_manager \<Rightarrow> vpc_arg \<Rightarrow> (('w, 'z) vpc_ctrl_scheme, unit) go" where
  "vpc_callback c api pm nm v = andThen (gets subnats) (\<lambda>m. andThen (rangeOrder (map snd m)) (\<lambda>sns.
     forEach (\<lambda>sn. andThen (lift (concerned v sn)) (\<lambda>b.
       if b then andThen (getSubnatEvent c api pm nm (Some sn)) (\<lambda>_. block) else ret ())) sns))"

text \<open>
  One turn of \<open>processWork\<close>: the ready case of its select. \<open>evmap\<close> holds the latest event of each
  subnet name; a tick hands them to the infrastructure layer and clears the map.
\<close>

datatype work_case = Received "subnatEvent option" | Ticked | ContextDone

text \<open>The cases that can be ready: nothing is ever received from the nil channel.\<close>

fun work_ready :: "work_case \<Rightarrow> bool" where
  "work_ready (Received _) = False"
| "work_ready Ticked = True"
| "work_ready ContextDone = True"

definition processWork_turn ::
  "(subnatEvent \<Rightarrow> (('w, 'z) base_scheme, unit) go) \<Rightarrow> work_case \<Rightarrow> subnatEvent gomap \<Rightarrow>
   (('w, 'z) base_scheme, (subnatEvent gomap) option) go" where
  "processWork_turn process wc evmap = (case wc of
      Received ev \<Rightarrow> (case ev of
          None \<Rightarrow> raise NilDeref
        | Some e \<Rightarrow> ret (Some (AList.update (se_subnatName e) e evmap)))
    | Ticked \<Rightarrow> andThen (rangeOrder (map snd evmap)) (\<lambda>es.
        andThen (forEach process es) (\<lambda>_. ret (Some [])))
    | ContextDone \<Rightarrow> ret None)"

fun processWork ::
  "(subnatEvent \<Rightarrow> (('w, 'z) base_scheme, unit) go) \<Rightarrow> work_case list \<Rightarrow> subnatEvent gomap \<Rightarrow>
   (('w, 'z) base_scheme, bool) go" where
  "processWork process [] evmap = ret False"
| "processWork process (wc # wcs) evmap = andThen (processWork_turn process wc evmap) (\<lambda>m.
     case m of None \<Rightarrow> ret True | Some evmap' \<Rightarrow> processWork process wcs evmap')"

section \<open>Removal of a subnet\<close>

text \<open>What the vpc controller needs of the pools beyond their contract.\<close>

locale vpc_over_pools =
  ippool_manager pm cached frame ok
  for pm :: "('w, 'z) vpc_ctrl_scheme pool_manager"
    and cached :: "('w, 'z) vpc_ctrl_scheme \<Rightarrow> Pool set"
    and frame :: "('w, 'z) vpc_ctrl_scheme \<Rightarrow> 'f"
    and ok :: "('w, 'z) vpc_ctrl_scheme \<Rightarrow> bool" +
  assumes frame_subnats: "frame s' = frame s \<Longrightarrow> subnats s' = subnats s \<and> nodes s' = nodes s"
    and ok_subnats: "ok (s\<lparr>subnats := m\<rparr>) = ok s" and cached_subnats: "cached (s\<lparr>subnats := m\<rparr>) = cached s"
    and ok_world: "ok (s\<lparr>world := w\<rparr>) = ok s" and cached_world: "cached (s\<lparr>world := w\<rparr>) = cached s"
begin

lemma couldRemove_spec:
  assumes "ok s"
  shows "\<exists>b s'. vpc_couldRemove pm name s = (Done b, s') \<and> cached s' = cached s \<and> ok s' \<and>
     subnats s' = subnats s \<and> nodes s' = nodes s \<and>
     ((\<exists>p\<in>cached s. Subnat p = name \<and> MainId p = []) \<longrightarrow> \<not> b) \<and>
     ((\<forall>p\<in>cached s. Subnat p \<noteq> name) \<longrightarrow> b)"
proof -
  obtain e s' where "EachPool pm (\<lambda>err p.
      if Subnat p = name
      then andThen (UpdatePool pm (Some p) DeleteE) (\<lambda>err1. ret (joinErr err err1, None))
      else ret (err, None)) None s = (Done e, s')"
    "cached s' = cached s" "frame s' = frame s" "ok s'"
    "(\<exists>p\<in>cached s. Subnat p = name \<and> MainId p = []) \<longrightarrow> e \<noteq> None"
    "(\<forall>p\<in>cached s. Subnat p \<noteq> name) \<longrightarrow> e = None"
    using removal [OF assms, of "\<lambda>p. Subnat p = name"] by auto
  with frame_subnats [of s' s] show ?thesis
    by (intro exI [of _ "e = None"] exI [of _ s']) (simp add: vpc_couldRemove_def)
qed

lemma Reconcile_deleting:
  assumes ok: "ok s" and get: "v_Get c n (world s) = (Inr inp, w)"
    and spec: "Project (sn_spec inp) \<noteq> []" "Vpc (sn_spec inp) \<noteq> []" "Subnet (sn_spec inp) \<noteq> []"
    and sn: "lookup (subnats s) (metaName (sn_meta inp)) = Some sn" and del: "sn_Deleted sn"
  shows "\<exists>b s1. vpc_Reconcile c cfg pm n s =
      (if b then inWorld (v_Patch c (inp\<lparr>sn_meta := RemoveFinalizer (sn_meta inp) FinializerController\<rparr>) inp) s1
       else (Done None, s1)) \<and>
     lookup (subnats s1) = lookup (subnats s) \<and> nodes s1 = nodes s \<and> cached s1 = cached s \<and>
     ((\<exists>p\<in>cached s. Subnat p = metaName (sn_meta inp) \<and> MainId p = []) \<longrightarrow> \<not> b) \<and>
     ((\<forall>p\<in>cached s. Subnat p \<noteq> metaName (sn_meta inp)) \<longrightarrow> b)"
proof -
  let ?k = "metaName (sn_meta inp)"
  let ?s = "s\<lparr>world := w, subnats := AList.update ?k sn (subnats s)\<rparr>"
  have "ok ?s" "cached ?s = cached s" using ok by (simp_all add: ok_subnats ok_world cached_subnats cached_world)
  then obtain b s1 where b: "vpc_couldRemove pm ?k ?s = (Done b, s1)" "cached s1 = cached s"
      "subnats s1 = subnats ?s" "nodes s1 = nodes s"
      "(\<exists>p\<in>cached s. Subnat p = ?k \<and> MainId p = []) \<longrightarrow> \<not> b" "(\<forall>p\<in>cached s. Subnat p \<noteq> ?k) \<longrightarrow> b"
    using couldRemove_spec [of ?s ?k] by auto
  have "(lookup (subnats s))(?k \<mapsto> sn) = lookup (subnats s)" using sn by (simp add: fun_upd_idem)
  with b(3) have "lookup (subnats s1) = lookup (subnats s)" by simp
  moreover have "vpc_Reconcile c cfg pm n s = (if b
      then inWorld (v_Patch c (inp\<lparr>sn_meta := RemoveFinalizer (sn_meta inp) FinializerController\<rparr>) inp) s1
      else (Done None, s1))"
    using get spec sn del b(1) by (simp add: vpc_Reconcile_def setSubnat_def Let_def)
  ultimately show ?thesis using b(2,4,5,6) by blast
qed

end

interpretation vsp: vpc_over_pools "spider_manager c" cached pool_frame cache_ok
  for c :: "'w pool_client"
proof
  fix s s' :: "('w, 'z) vpc_ctrl_scheme"
  assume "pool_frame s' = pool_frame s"
  then have "pool_ctrl.more s' = pool_ctrl.more s" by (simp add: pool_frame_def)
  then show "subnats s' = subnats s \<and> nodes s' = nodes s"
    by (cases s, cases s') simp
qed (simp_all add: cache_ok_def cached_def)


section \<open>Caching a subnet\<close>

text \<open>A cached subnet: its sets hold strings, and its name is never set.\<close>

definition sn_ok :: "Sninfo \<Rightarrow> bool" where
  "sn_ok sn \<longleftrightarrow> wf_set (sn_Namespace sn) \<and> wf_set (sn_Node sn) \<and> sn_Name sn = []"

definition vpc_inv :: "('w, 'z) vpc_ctrl_scheme \<Rightarrow> bool" where
  "vpc_inv s \<longleftrightarrow> wf_map (subnats s) \<and> (\<forall>sn\<in>set (map snd (subnats s)). sn_ok sn)"

definition newSn :: "Sninfo gomap \<Rightarrow> SubnetObj \<Rightarrow> Sninfo" where
  "newSn m inp = (case lookup m (metaName (sn_meta inp)) of
      Some i \<Rightarrow> i
    | None \<Rightarrow> zeroSninfo\<lparr>sn_Node := Some [], sn_Namespace := Some [], sn_Id := Subnet (sn_spec inp)\<rparr>)"

lemma snPolicy_simps [simp]: "sn_ok (snPolicy cfg spec sn) = sn_ok sn" "sn_Node (snPolicy cfg spec sn) = sn_Node sn"
  "sn_Namespace (snPolicy cfg spec sn) = sn_Namespace sn" "sn_Deleted (snPolicy cfg spec sn) = sn_Deleted sn"
  "sn_Name (snPolicy cfg spec sn) = sn_Name sn"
  by (simp_all add: snPolicy_def sn_ok_def)

lemma newSn_ok: "vpc_inv s \<Longrightarrow> sn_ok (newSn (subnats s) inp)"
  using lookup_values [of "subnats s" "metaName (sn_meta inp)"]
  by (auto simp: newSn_def vpc_inv_def zeroSninfo_def split: option.splits) (simp add: sn_ok_def)

lemma vpc_inv_update:
  assumes "vpc_inv s" and "sn_ok sn"
  shows "vpc_inv (s\<lparr>subnats := AList.update k sn (subnats s)\<rparr>)"
proof -
  have "sn_ok x" if "x \<in> set (map snd (AList.update k sn (subnats s)))" for x
    using that values_update_subset [of k sn "subnats s"] assms unfolding vpc_inv_def by blast
  with assms(1) show ?thesis by (simp add: vpc_inv_def)
qed

lemma snMembers_ok:
  assumes "sn_ok sn"
  obtains sn' where "snMembers inp sn = Done sn'" "sn_ok sn'"
    "sn' = sn\<lparr>sn_Namespace := sn_Namespace sn', sn_Node := sn_Node sn',
       allnamespace := allnamespace sn \<or> NamespaceName (sn_spec inp) = None,
       allnode := allnode sn \<or> NodeName (sn_spec inp) = None\<rparr>"
    "members (sn_Namespace sn') = members (sn_Namespace sn) \<union> GStr ` set (elems (
       if NamespaceName (sn_spec inp) \<noteq> None then NamespaceName (sn_spec inp) else st_NamespaceName (sn_status inp)))"
    "members (sn_Node sn') = members (sn_Node sn) \<union> GStr ` set (elems (
       if NodeName (sn_spec inp) \<noteq> None then NodeName (sn_spec inp) else st_NodeName (sn_status inp)))"
proof -
  let ?ns = "if NamespaceName (sn_spec inp) \<noteq> None then NamespaceName (sn_spec inp) else st_NamespaceName (sn_status inp)"
  let ?no = "if NodeName (sn_spec inp) \<noteq> None then NodeName (sn_spec inp) else st_NodeName (sn_status inp)"
  have wf: "wf_set (sn_Namespace sn)" "wf_set (sn_Node sn)" "sn_Name sn = []" using assms by (simp_all add: sn_ok_def)
  obtain p q where p: "foldo (\<lambda>p x. set_Add p [GStr x]) (sn_Namespace sn) (elems ?ns) = Done p" "wf_set p"
      "members p = members (sn_Namespace sn) \<union> GStr ` set (elems ?ns)"
    and q: "foldo (\<lambda>p x. set_Add p [GStr x]) (sn_Node sn) (elems ?no) = Done q" "wf_set q"
      "members q = members (sn_Node sn) \<union> GStr ` set (elems ?no)"
    using hs.add_strings [OF wf(1)] hs.add_strings [OF wf(2)] by metis
  let ?sn = "sn\<lparr>sn_Namespace := p, sn_Node := q, allnamespace := allnamespace sn \<or> NamespaceName (sn_spec inp) = None,
      allnode := allnode sn \<or> NodeName (sn_spec inp) = None\<rparr>"
  have "snMembers inp sn = Done ?sn" using p(1) q(1) by (simp add: snMembers_def Let_def)
  moreover have "sn_ok ?sn" using p q wf by (simp add: sn_ok_def)
  ultimately show thesis using that [of ?sn] p(3) q(3) by simp
qed


section \<open>The default subnet is never cached\<close>

text \<open>
  The default subnet : \<open>Start\<close> creates it when it is missing, but leaves its vpc empty, so that
  reconciling the very object it has created rejects it. The cache of subnets stays as it was.
\<close>

theorem vpc_default_rejected:
  fixes s :: "('w, 'z) vpc_ctrl_scheme"
  assumes "v_Get c defaultSubnat (world s) = (Inl (ApiStatus NotFound), w1)"
    and "v_Create c (defaultEniSubnat cfg) w1 = (None, w2)"
    and "v_Get c n w2 = (Inr (defaultEniSubnat cfg), w3)"
  shows "vpc_Start c cfg s = (Done None, s\<lparr>world := w2\<rparr>) \<and>
    vpc_Reconcile c cfg pm n (s\<lparr>world := w2\<rparr>) = (Done None, s\<lparr>world := w3\<rparr>)"
proof -
  have "Backoff (ret None) s = (Done None, s)" by (rule Backoff_Done) simp
  moreover have "Backoff (andThen (inWorld (v_Get c defaultSubnat)) (\<lambda>r. case r of
       Inl e \<Rightarrow> if IsNotFound e then inWorld (v_Create c (defaultEniSubnat cfg)) else ret (Some e)
     | Inr _ \<Rightarrow> ret None)) s = (Done None, s\<lparr>world := w2\<rparr>)"
    by (rule Backoff_Done) (simp add: assms(1,2))
  ultimately show ?thesis
    using assms(3) by (simp add: vpc_Start_def vpc_Reconcile_def defaultEniSubnat_def)
qed

section \<open>Computing an event\<close>

lemma nodeStep_in:
  assumes "set_Contains (sn_Node sn) [GStr (ni_Name ni)] = Done True"
  shows "\<not> isDone (nodeStep c api pm nm sn evs ni s)"
  using assms by (auto simp: nodeStep_def isDone_andThen set_New_def)

lemma nodeStep_out:
  assumes "set_Contains (sn_Node sn) [GStr (ni_Name ni)] = Done False"
  shows "nodeStep c api pm nm sn evs ni s = (Done (evs, None), s)"
  using assms by (simp add: nodeStep_def)

lemma nodes_loop:
  assumes "wf_set (sn_Node sn)"
  shows "if \<exists>ni\<in>set nis. GStr (ni_Name ni) \<in> members (sn_Node sn)
     then \<not> isDone (foldUntil (nodeStep c api pm nm sn) evs nis s)
     else foldUntil (nodeStep c api pm nm sn) evs nis s = (Done evs, s)"
proof (induction nis)
  case (Cons ni nis)
  show ?case
  proof (cases "GStr (ni_Name ni) \<in> members (sn_Node sn)")
    case True
    then have "set_Contains (sn_Node sn) [GStr (ni_Name ni)] = Done True"
      using set_Contains_ok [OF assms, of "GStr (ni_Name ni)"] by simp
    from isDone_fails [OF nodeStep_in [OF this]] True show ?thesis by simp
  next
    case False
    then have "set_Contains (sn_Node sn) [GStr (ni_Name ni)] = Done False"
      using set_Contains_ok [OF assms, of "GStr (ni_Name ni)"] by simp
    from nodeStep_out [OF this, of c api pm nm evs s] False Cons show ?thesis by simp
  qed
qed simp

context node_source
begin

lemma event_over_nodes:
  assumes "wf_set (sn_Node sn)"
  shows "if \<exists>ni\<in>set (listed s). GStr (ni_Name ni) \<in> members (sn_Node sn)
    then \<not> isDone (getSubnatEvent c api pm nm (Some sn) s)
    else \<exists>t. getSubnatEvent c api pm nm (Some sn) s =
      (Done (Some \<lparr>se_vpcId = sn_vpcId sn, se_projectId = sn_projectId sn, se_subnatId = sn_Id sn,
         se_subnatName = sn_Name sn, se_nodes = []\<rparr>), s\<lparr>tape := t\<rparr>)"
proof -
  obtain ns t where n: "EachNode nm (nodeStep c api pm nm sn) [] s = foldUntil (nodeStep c api pm nm sn) [] ns (s\<lparr>tape := t\<rparr>)"
    "set ns = set (listed s)" by (rule EachNode_walks)
  have "if \<exists>ni\<in>set (listed s). GStr (ni_Name ni) \<in> members (sn_Node sn)
      then \<not> isDone (EachNode nm (nodeStep c api pm nm sn) [] s)
      else EachNode nm (nodeStep c api pm nm sn) [] s = (Done [], s\<lparr>tape := t\<rparr>)"
    using nodes_loop [OF assms, of ns c api pm nm "[]" "s\<lparr>tape := t\<rparr>"] unfolding n(1) n(2) .
  then show ?thesis
    by (cases "\<exists>ni\<in>set (listed s). GStr (ni_Name ni) \<in> members (sn_Node sn)")
      (simp_all only: if_True if_False getSubnatEvent_def option.case isDone_fails not_False_eq_True andThen_Done ret_apply,
        auto)
qed

end

lemma event_empty:
  fixes s :: "('w, 'z) node_ctrl_scheme"
  assumes "wf_set (sn_Node sn)"
  shows "if \<exists>ni\<in>set (map snd (nodes s)). GStr (ni_Name ni) \<in> members (sn_Node sn)
    then \<not> isDone (getSubnatEvent c api pm (node_manager_of npm) (Some sn) s)
    else \<exists>t. getSubnatEvent c api pm (node_manager_of npm) (Some sn) s =
      (Done (Some \<lparr>se_vpcId = sn_vpcId sn, se_projectId = sn_projectId sn, se_subnatId = sn_Id sn,
         se_subnatName = sn_Name sn, se_nodes = []\<rparr>), s\<lparr>tape := t\<rparr>)"
  using assms by (rule nms.event_over_nodes)

text \<open>
  \<open>getSubnatEvent\<close> returns an event exactly when no cached node belongs to the subnet, and that
  event is empty: for a node of the subnet the names of all namespaces are put into a set as one
  slice, which cannot be hashed. The result does not depend on what the services answer.
\<close>

theorem getSubnatEvent_empty:
  fixes s :: "('w, 'z) node_ctrl_scheme"
  assumes "wf_set (sn_Node sn)"
  shows "if \<exists>ni\<in>set (map snd (nodes s)). GStr (ni_Name ni) \<in> members (sn_Node sn)
    then \<not> isDone (getSubnatEvent c api pm (node_manager_of npm) (Some sn) s)
    else \<exists>t. getSubnatEvent c api pm (node_manager_of npm) (Some sn) s =
      (Done (Some \<lparr>se_vpcId = sn_vpcId sn, se_projectId = sn_projectId sn, se_subnatId = sn_Id sn,
         se_subnatName = sn_Name sn, se_nodes = []\<rparr>), s\<lparr>tape := t\<rparr>)"
  by (rule event_empty [OF assms])

section \<open>Callbacks\<close>

lemma callback_loop:
  "isDone (forEach (\<lambda>sn. andThen (lift (concerned v sn)) (\<lambda>b.
      if b then andThen (f sn) (\<lambda>_. block) else ret ())) sns s) \<longleftrightarrow>
   (\<forall>sn\<in>set sns. concerned v sn = Done False)"
proof (induction sns)
  case (Cons sn sns)
  show ?case
  proof (cases "concerned v sn = Done False")
    case True
    with Cons show ?thesis by simp
  next
    case False
    have "\<not> isDone (andThen (lift (concerned v sn)) (\<lambda>b.
        if b then andThen (f sn) (\<lambda>_. block) else ret ()) s)"
      by (cases "concerned v sn") (use False in \<open>auto simp: isDone_andThen\<close>)
    then have "\<not> isDone (forEach (\<lambda>sn. andThen (lift (concerned v sn)) (\<lambda>b.
        if b then andThen (f sn) (\<lambda>_. block) else ret ())) (sn # sns) s)"
      unfolding forEach.simps by (rule isDone_fails)
    with False show ?thesis by (metis list.set_intros(1))
  qed
qed simp

text \<open>
  The callback of the vpc controller, told about a pool, a node or a namespace, returns exactly
  when no cached subnet is concerned. Otherwise it panics or is stuck for ever in the send on the
  channel nobody has made.
\<close>

theorem vpc_callback_returns_iff:
  "isDone (vpc_callback c api pm nm v s) \<longleftrightarrow> (\<forall>sn\<in>set (map snd (subnats s)). concerned v sn = Done False)"
proof -
  obtain sns t where r: "rangeOrder (map snd (subnats s)) s = (Done sns, s\<lparr>tape := t\<rparr>)"
    and m: "mset sns = mset (map snd (subnats s))" by (rule rangeOrder_Done)
  have "set sns = set (map snd (subnats s))" using m by (metis set_mset_mset)
  with r callback_loop [of v "\<lambda>sn. getSubnatEvent c api pm nm (Some sn)" sns "s\<lparr>tape := t\<rparr>"]
  show ?thesis by (simp add: vpc_callback_def)
qed

text \<open>
  The work loop never hands an event to the infrastructure layer: as nothing can be received
  from the nil channel, every tick finds the map of events empty. The loop ends when the context
  is done.
\<close>

theorem processWork_idle:
  fixes s :: "('w, 'z) base_scheme"
  assumes "\<forall>wc\<in>set wcs. work_ready wc"
  shows "\<exists>t. processWork process wcs [] s = (Done (ContextDone \<in> set wcs), s\<lparr>tape := t\<rparr>)"
  using assms
proof (induction wcs arbitrary: s)
  case (Cons wc wcs)
  show ?case
  proof (cases wc)
    case Ticked
    obtain t where t: "rangeOrder ([] :: subnatEvent list) s = (Done [], s\<lparr>tape := t\<rparr>)"
      by (rule rangeOrder_Done [of "[] :: subnatEvent list" s]) simp
    obtain t' where "processWork process wcs [] (s\<lparr>tape := t\<rparr>) = (Done (ContextDone \<in> set wcs), s\<lparr>tape := t'\<rparr>)"
      using Cons.IH [of "s\<lparr>tape := t\<rparr>"] Cons.prems by (auto simp del: processWork.simps)
    with Ticked t show ?thesis by (intro exI [of _ t']) (simp add: processWork_turn_def)
  next
    case ContextDone
    then show ?thesis by (intro exI [of _ "tape s"]) (simp add: processWork_turn_def)
  qed (use Cons.prems in simp)
next
  case Nil
  show ?case by (intro exI [of _ "tape s"]) simp
qed

section \<open>Watermarks of a pool\<close>

text \<open>What the loop over the releasable addresses does when the event has a set to collect them.\<close>

lemma release_loop_ok:
  assumes "wf_set rm" and "wf_set cap" and "distinct vs" and "set vs \<subseteq> members cap"
    and "\<forall>v\<in>set vs. \<exists>x. v = GStr x" and "\<forall>ip info. lookup second ip = Some info \<longrightarrow> if_Ip info = ip"
  shows "\<exists>rm' cap'. release_loop second delnum vs i (rm, cap) = Done (rm', cap') \<and> wf_set rm' \<and> wf_set cap' \<and>
    members cap' \<subseteq> members cap \<and>
    members cap - members cap' \<subseteq> set vs \<inter> GStr ` dom (lookup second) \<and>
    int (card (members cap - members cap')) \<le> max 0 (delnum - i) \<and>
    members rm' = members rm \<union> {GPair ip (if_Mac info) | ip info.
       GStr ip \<in> members cap - members cap' \<and> lookup second ip = Some info}"
  using assms(1-5)
proof (induction vs arbitrary: i rm cap)
  case Nil
  then show ?case by auto
next
  case (Cons v vs)
  obtain x where x: "v = GStr x" using Cons.prems(5) by auto
  consider "i \<ge> delnum" | "i < delnum" "lookup second x = None" | info where "i < delnum" "lookup second x = Some info"
    by fastforce
  then show ?case
  proof cases
    case 1
    with Cons.prems show ?thesis by auto
  next
    case 2
    have "set vs \<subseteq> members cap" "distinct vs" "\<forall>v\<in>set vs. \<exists>x. v = GStr x" using Cons.prems by auto
    from Cons.IH [OF Cons.prems(1,2) this(2,1,3), of "i + 1"] obtain rm' cap' where
      "release_loop second delnum vs (i + 1) (rm, cap) = Done (rm', cap')" "wf_set rm'" "wf_set cap'"
      "members cap' \<subseteq> members cap" "members cap - members cap' \<subseteq> set vs \<inter> GStr ` dom (lookup second)"
      "int (card (members cap - members cap')) \<le> max 0 (delnum - (i + 1))"
      "members rm' = members rm \<union> {GPair ip (if_Mac info) | ip info.
         GStr ip \<in> members cap - members cap' \<and> lookup second ip = Some info}" by (elim exE conjE) (rule that)
    moreover from this have "members cap - members cap' \<subseteq> set (v # vs) \<inter> GStr ` dom (lookup second)" by auto
    moreover have "release_loop second delnum (v # vs) i (rm, cap) = release_loop second delnum vs (i + 1) (rm, cap)"
      using 2 x by simp
    ultimately show ?thesis by (intro exI [of _ rm'] exI [of _ cap'] conjI) (assumption | simp)+
  next
    case 3
    have ip: "if_Ip info = x" using assms(6) 3(2) by simp
    obtain rm1 where rm1: "set_Add rm [GPair x (if_Mac info)] = Done rm1" "wf_set rm1"
        "members rm1 = insert (GPair x (if_Mac info)) (members rm)"
      using hs.add_one [OF Cons.prems(1), of "GPair x (if_Mac info)"] by auto
    obtain cap1 where cap1: "set_Remove cap [GStr x] = Done cap1" "wf_set cap1" "members cap1 = members cap - {GStr x}"
      using set_Remove_ok [OF Cons.prems(2), of "[GStr x]"] by auto
    have "set vs \<subseteq> members cap1" "distinct vs" "\<forall>v\<in>set vs. \<exists>x. v = GStr x" using Cons.prems x cap1(3) by auto
    from Cons.IH [OF rm1(2) cap1(2) this(2,1,3), of "i + 1"] obtain rm' cap' where
      r: "release_loop second delnum vs (i + 1) (rm1, cap1) = Done (rm', cap')" "wf_set rm'" "wf_set cap'"
      "members cap' \<subseteq> members cap1" "members cap1 - members cap' \<subseteq> set vs \<inter> GStr ` dom (lookup second)"
      "int (card (members cap1 - members cap')) \<le> max 0 (delnum - (i + 1))"
      "members rm' = members rm1 \<union> {GPair ip (if_Mac info) | ip info.
         GStr ip \<in> members cap1 - members cap' \<and> lookup second ip = Some info}" by (elim exE conjE) (rule that)
    have D: "members cap - members cap' = insert (GStr x) (members cap1 - members cap')"
      using r(4) cap1(3) Cons.prems(4) x by auto
    have fin: "finite (members cap1 - members cap')" by (cases cap1) simp_all
    have "card (members cap - members cap') \<le> Suc (card (members cap1 - members cap'))"
      unfolding D using fin by (simp add: card_insert_if)
    then have card: "int (card (members cap - members cap')) \<le> max 0 (delnum - i)" using r(6) 3(1) by linarith
    have rm: "members rm' = members rm \<union> {GPair ip (if_Mac info) | ip info.
         GStr ip \<in> members cap - members cap' \<and> lookup second ip = Some info}"
      unfolding r(7) rm1(3) D using 3(2) by auto
    have "members cap' \<subseteq> members cap" using r(4) cap1(3) by auto
    moreover have "members cap - members cap' \<subseteq> set (v # vs) \<inter> GStr ` dom (lookup second)"
      unfolding D using r(5) x 3(2) by auto
    moreover have "release_loop second delnum (v # vs) i (rm, cap) = Done (rm', cap')"
      using x 3 ip rm1(1) cap1(1) r(1) by simp
    ultimately show ?thesis using r(2,3) card rm by blast
  qed
qed

text \<open>Without such a set the first address with an interface is fatal.\<close>

lemma release_loop_nil:
  assumes "\<forall>v\<in>set vs. \<exists>x. v = GStr x \<and> x \<in> dom (lookup second)" and "vs \<noteq> []" and "i < delnum"
  shows "release_loop second delnum vs i (None, cap) = Panic NilDeref"
proof (cases vs)
  case (Cons v vs')
  with assms obtain x info where "v = GStr x" "lookup second x = Some info" by auto
  with Cons assms(3) show ?thesis by simp
qed (use assms in simp)


section \<open>Examples\<close>

definition ex_subnet :: SubnetObj where
  "ex_subnet = \<lparr>sn_meta = emptyMeta\<lparr>metaName := ''sub'', Finalizers := [FinializerController]\<rparr>,
     sn_spec = \<lparr>IPVersion = Some 4, Subnet = ''s1'', Vpc = ''v1'', Project = ''p1'', PreAllocated = Some 2,
       MinAvaliable = None, NamespaceName = None, NodeName = Some [''n1'']\<rparr>,
     sn_status = \<lparr>SubnatName = None, VpcName = None, Gateway = None, Cidr = None,
       st_NamespaceName = None, st_NodeName = None\<rparr>\<rparr>"

definition ex_cfg :: VpcCfg where
  "ex_cfg = \<lparr>cfg_PreAllocated = 5, cfg_MinAvaliable = 3, WorkerNumber = 1, DefaultSubnatId = ''s0'', DefaultProjectId = ''p0''\<rparr>"

text \<open>A server that answers every read with the same object and accepts every write, counting them.\<close>

definition vpc_answering :: "go_error + SubnetObj \<Rightarrow> nat vpc_client" where
  "vpc_answering r = \<lparr>v_Get = (\<lambda>_ w. (r, w)), v_Create = (\<lambda>_ w. (None, w + 1)), v_Patch = (\<lambda>_ _ w. (None, w + 1)),
     v_ListNamespaces = (\<lambda>w. (Inr [''ns''], w))\<rparr>"

definition ex_sn :: Sninfo where
  "ex_sn = zeroSninfo\<lparr>sn_Node := Some [GStr ''n1''], sn_Namespace := Some [], sn_MinAvaliab := 3, sn_PreAllocated := 0\<rparr>"

definition ex_vpc :: "nat vpc_ctrl" where
  "ex_vpc = \<lparr>world = 0, tape = [], pools = [], pool_ch = [],
     nodes = [(''n1'', \<lparr>ni_Name = ''n1'', NodeId = ''i1'', NodeIp = ''10.0.0.1'', deleted = False\<rparr>)], node_ch = [], subnats = []\<rparr>"

lemmas ex_vpc_simps = ex_subnet_def ex_cfg_def vpc_answering_def ex_sn_def ex_vpc_def zeroSninfo_def emptyMeta_def

text \<open>A pool manager and a client without effects.\<close>

definition idle_pools :: "'s pool_manager" where
  "idle_pools = \<lparr>UpdatePool = (\<lambda>_ _. ret None), PoolSeq = ret []\<rparr>"

definition ex_second :: "Interface gomap" where
  "ex_second = [(''10.0.0.7'', Interface ''x'' ''id7'' ''10.0.0.7'' ''s1'' ''mac7'' None)]"

definition ex_api :: "(nat vpc_ctrl, unit) infra_client" where
  "ex_api = \<lparr>ic_GetInterface = (\<lambda>_. ret (Some (Interface ''m'' ''id'' ''10.0.0.2'' ''s1'' ''mac'' (Some ex_second)))),
     ic_GetInstance = (\<lambda>_. ret None), ic_GetSubnat = (\<lambda>_. ret None), ic_UpdatePort = (\<lambda>_ _ _ _ _. ret None),
     ic_EachInterface = (\<lambda>_ _. ret None), ic_UpdateInstancePort = (\<lambda>_ _ _ _. ret None),
     ic_UpdateInterfacePort = (\<lambda>_ _ _ _ _. ret None)\<rparr>"

definition ex_pools :: "nat pool_client" where
  "ex_pools = \<lparr>c_Get = (\<lambda>_ w. (Inl (ApiStatus NotFound), w)), c_Patch = (\<lambda>_ _ w. (None, w)), c_Create = (\<lambda>_ w. (None, w)),
     c_Delete = (\<lambda>_ w. (None, w))\<rparr>"



theorem vpc_default_rejected_witness:
  "\<exists>c. vpc_Start c ex_cfg ex_vpc = (Done None, ex_vpc\<lparr>world := 1\<rparr>) \<and>
    vpc_Reconcile c ex_cfg idle_pools defaultSubnat (ex_vpc\<lparr>world := 1\<rparr>) = (Done None, ex_vpc\<lparr>world := 1\<rparr>)"
proof -
  let ?c = "(vpc_answering (Inl (ApiStatus NotFound)))\<lparr>v_Get := (\<lambda>_ w. (if w = 0 then Inl (ApiStatus NotFound)
    else Inr (defaultEniSubnat ex_cfg), w))\<rparr>"
  show ?thesis
    using vpc_default_rejected [of ?c ex_vpc 0 ex_cfg 1 defaultSubnat 1 idle_pools]
    by (intro exI [of _ ?c]) (simp add: vpc_answering_def ex_vpc_def)
qed

theorem getSubnatEvent_empty_witness:
  "\<not> isDone (getSubnatEvent (vpc_answering (Inr ex_subnet)) ex_api idle_pools (node_manager_of idle_pools) (Some ex_sn) ex_vpc)"
  using getSubnatEvent_empty [of ex_sn ex_vpc "vpc_answering (Inr ex_subnet)" ex_api idle_pools idle_pools]
  by (simp add: ex_sn_def ex_vpc_def)

theorem vpc_callback_returns_iff_witness:
  "\<not> isDone (vpc_callback (vpc_answering (Inr ex_subnet)) ex_api idle_pools (node_manager_of idle_pools)
      (NodeArg (Some (snd (hd (nodes ex_vpc))))) (ex_vpc\<lparr>subnats := [(''sub'', ex_sn)]\<rparr>)) \<and>
   isDone (vpc_callback (vpc_answering (Inr ex_subnet)) ex_api idle_pools (node_manager_of idle_pools)
      (NodeArg None) ex_vpc)"
  by (simp add: vpc_callback_returns_iff) (simp add: ex_sn_def ex_vpc_def zeroSninfo_def)

theorem processWork_idle_witness:
  "\<exists>t. processWork (\<lambda>_. raise NilDeref) [Ticked, Ticked, ContextDone] [] ex_vpc = (Done True, ex_vpc\<lparr>tape := t\<rparr>)"
  using processWork_idle [of "[Ticked, Ticked, ContextDone]" "\<lambda>_. raise NilDeref" ex_vpc] by simp

text \<open>
  One used address, one free one that the interface carries, and nothing preallocated: only the
  free address can be released, while two new ones are asked for.
\<close>

definition ex_full_pool :: Pool where
  "ex_full_pool = \<lparr>pl_NodeName = ''n1'', MainId = ''m'', Subnat = [], Namespace = Some [],
     CapIp = Some [GStr ''10.0.0.6''], UsedIp = Some [GStr ''10.0.0.6'']\<rparr>"


end
