(* ===== verification/Vpc_Lock.thy ===== *)
theory Vpc_Lock
  imports Vpc_Manager
begin

text \<open>
  The vpc controller of \<open>src/pkg/vpc/vpc.go\<close> with its read-write mutex as steps of its goroutines: the
  one worker of the controller runtime that calls \<open>Reconcile\<close>, and any number of goroutines inside
  \<open>callback\<close>. The mutex is Go's \<open>sync.RWMutex\<close>: a writer that waits keeps new readers out.
\<close>

section \<open>States\<close>

text \<open>
  A call of \<open>callback\<close>: before \<open>RLock\<close>, in its loop with the subnets still to visit, over a concerned
  subnet or a panic with the read lock held (\<open>vpc_callback\<close> does not get past it, as the send is on a nil channel and
  the lock is released by no \<open>defer\<close>), returned.
\<close>

datatype cb_pc = CWant vpc_arg | CLoop vpc_arg "Sninfo list" | CHang vpc_arg | CReturned

text \<open>A call of \<open>Reconcile\<close> that has read a complete object: before \<open>Lock\<close>, waiting for the readers to leave, holding the lock.\<close>

datatype vr_pc = VIdle | VWant SubnetObj | VWait SubnetObj | VHeld SubnetObj

record vpc_sys =
  vs_subnats :: "Sninfo gomap"
  vs_cbs :: "cb_pc list"
  vs_r :: vr_pc

definition vpc_sys_init :: vpc_sys where
  "vpc_sys_init = \<lparr>vs_subnats = [], vs_cbs = [], vs_r = VIdle\<rparr>"

fun cb_reads :: "cb_pc \<Rightarrow> bool" where
  "cb_reads (CLoop _ _) = True"
| "cb_reads (CHang _) = True"
| "cb_reads _ = False"

fun vr_announced :: "vr_pc \<Rightarrow> bool" where
  "vr_announced (VWait _) = True"
| "vr_announced (VHeld _) = True"
| "vr_announced _ = False"

section \<open>Steps\<close>

text \<open>The cache after the critical section of \<open>Reconcile\<close>.\<close>

definition subnat_section :: "VpcCfg \<Rightarrow> SubnetObj \<Rightarrow> Sninfo gomap \<Rightarrow> Sninfo gomap" where
  "subnat_section cfg inp m = (let name = metaName (sn_meta inp); sn = newSn m inp; pol = snPolicy cfg (sn_spec inp) sn in
     if sn_Deleted sn then AList.update name sn m
     else if DeletionTimestamp (sn_meta inp) \<noteq> None then AList.update name (pol\<lparr>sn_Deleted := True\<rparr>) m
     else case snMembers inp pol of Done sn' \<Rightarrow> AList.update name sn' m | _ \<Rightarrow> AList.update name pol m)"

text \<open>One turn of the loop of \<open>callback\<close>.\<close>

definition cb_turn :: "vpc_arg \<Rightarrow> Sninfo \<Rightarrow> Sninfo list \<Rightarrow> cb_pc" where
  "cb_turn v sn sns = (if concerned v sn = Done False then CLoop v sns else CHang v)"

definition setCb :: "nat \<Rightarrow> cb_pc \<Rightarrow> vpc_sys \<Rightarrow> vpc_sys" where
  "setCb c pc s = s\<lparr>vs_cbs := (vs_cbs s)[c := pc]\<rparr>"

inductive vpc_step :: "VpcCfg \<Rightarrow> vpc_sys \<Rightarrow> vpc_sys \<Rightarrow> bool" for cfg where
  acquire: "c < length (vs_cbs s) \<Longrightarrow> vs_cbs s ! c = CWant v \<Longrightarrow> \<not> vr_announced (vs_r s) \<Longrightarrow>
     mset sns = mset (map snd (vs_subnats s)) \<Longrightarrow> vpc_step cfg s (setCb c (CLoop v sns) s)"
| turn: "c < length (vs_cbs s) \<Longrightarrow> vs_cbs s ! c = CLoop v (sn # sns) \<Longrightarrow> vpc_step cfg s (setCb c (cb_turn v sn sns) s)"
| release: "c < length (vs_cbs s) \<Longrightarrow> vs_cbs s ! c = CLoop v [] \<Longrightarrow> vpc_step cfg s (setCb c CReturned s)"
| announce: "vs_r s = VWant inp \<Longrightarrow> vpc_step cfg s (s\<lparr>vs_r := VWait inp\<rparr>)"
| lock: "vs_r s = VWait inp \<Longrightarrow> \<forall>pc\<in>set (vs_cbs s). \<not> cb_reads pc \<Longrightarrow> vpc_step cfg s (s\<lparr>vs_r := VHeld inp\<rparr>)"
| finish: "vs_r s = VHeld inp \<Longrightarrow> vpc_step cfg s (s\<lparr>vs_subnats := subnat_section cfg inp (vs_subnats s), vs_r := VIdle\<rparr>)"

text \<open>What arrives from outside: a call of \<open>callback\<close>, an object to reconcile.\<close>

inductive vpc_arrival :: "vpc_sys \<Rightarrow> vpc_sys \<Rightarrow> bool" where
  call: "vpc_arrival s (s\<lparr>vs_cbs := vs_cbs s @ [CWant v]\<rparr>)"
| request: "vs_r s = VIdle \<Longrightarrow> vpc_arrival s (s\<lparr>vs_r := VWant inp\<rparr>)"

inductive vpc_evolves :: "VpcCfg \<Rightarrow> vpc_sys \<Rightarrow> vpc_sys \<Rightarrow> bool" for cfg where
  here: "vpc_evolves cfg s s"
| step: "vpc_evolves cfg s s' \<Longrightarrow> vpc_step cfg s' s'' \<Longrightarrow> vpc_evolves cfg s s''"
| arrival: "vpc_evolves cfg s s' \<Longrightarrow> vpc_arrival s' s'' \<Longrightarrow> vpc_evolves cfg s s''"

inductive_cases vpc_arrivalE: "vpc_arrival s s'"

lemma setCb_simps [simp]: "vs_subnats (setCb c pc s) = vs_subnats s" "vs_r (setCb c pc s) = vs_r s"
    "length (vs_cbs (setCb c pc s)) = length (vs_cbs s)"
    "d < length (vs_cbs s) \<Longrightarrow> vs_cbs (setCb c pc s) ! d = (if d = c then pc else vs_cbs s ! d)"
  by (simp_all add: setCb_def nth_list_update)

section \<open>The critical section is that of \<open>Reconcile\<close>\<close>

text \<open>
  Run without interference, as it is under the write lock, \<open>Reconcile\<close> of a complete object leaves
  the cache that the critical section computes.
\<close>

theorem vpc_Reconcile_section:
  fixes c :: "'w vpc_client" and pc :: "'w pool_client"
  assumes inv: "pool_inv s" "vpc_inv s" and get: "v_Get c n (world s) = (Inr inp, w)"
    and spec: "Project (sn_spec inp) \<noteq> []" "Vpc (sn_spec inp) \<noteq> []" "Subnet (sn_spec inp) \<noteq> []"
    and run: "vpc_Reconcile c cfg (spider_manager pc) n s = (r, s')"
  shows "lookup (subnats s') = lookup (subnat_section cfg inp (subnats s))"
proof (cases "sn_Deleted (newSn (subnats s) inp)")
  case True
  then obtain sn where sn: "lookup (subnats s) (metaName (sn_meta inp)) = Some sn" "sn_Deleted sn" "newSn (subnats s) inp = sn"
    by (auto simp: newSn_def zeroSninfo_def split: option.splits)
  have "lookup (subnats s') = lookup (subnats s)"
    using vsp.Reconcile_deleting [OF pool_inv_ok [OF inv(1)] get spec sn(1,2), of cfg pc] run
    by (auto simp: inWorld_def split: if_splits prod.splits)
  then show ?thesis using sn by (auto simp: subnat_section_def Let_def fun_upd_idem)
next
  case False
  let ?k = "metaName (sn_meta inp)" and ?sn = "newSn (subnats s) inp"
  let ?pol = "snPolicy cfg (sn_spec inp) ?sn"
  let ?m = "AList.update ?k ?pol (AList.update ?k ?sn (subnats s))"
  have ok: "sn_ok ?pol" using newSn_ok [OF inv(2)] by simp
  obtain sn' where m: "snMembers inp ?pol = Done sn'" by (rule snMembers_ok [OF ok])
  let ?s1 = "s\<lparr>world := w, subnats := ?m\<rparr>"
  show ?thesis
  proof (cases "DeletionTimestamp (sn_meta inp)")
    case None
    have "vpc_Reconcile c cfg (spider_manager pc) n s = (Done None, ?s1\<lparr>subnats := AList.update ?k sn' (subnats ?s1)\<rparr>)"
      using get spec False None m by (simp add: vpc_Reconcile_def setSubnat_def newSn_def Let_def)
    with run have "s' = ?s1\<lparr>subnats := AList.update ?k sn' (subnats ?s1)\<rparr>" by simp
    with None False m show ?thesis by (simp add: subnat_section_def Let_def)
  next
    case (Some t)
    have "vpc_Reconcile c cfg (spider_manager pc) n s = (Done None, ?s1\<lparr>subnats := AList.update ?k (?pol\<lparr>sn_Deleted := True\<rparr>) (subnats ?s1)\<rparr>)"
      using get spec False Some by (simp add: vpc_Reconcile_def setSubnat_def newSn_def Let_def)
    with run have "s' = ?s1\<lparr>subnats := AList.update ?k (?pol\<lparr>sn_Deleted := True\<rparr>) (subnats ?s1)\<rparr>" by simp
    with Some False show ?thesis by (simp add: subnat_section_def Let_def)
  qed
qed

section \<open>Invariant\<close>

definition cache_wf :: "Sninfo gomap \<Rightarrow> bool" where
  "cache_wf m \<longleftrightarrow> wf_map m \<and> (\<forall>sn\<in>set (map snd m). sn_ok sn)"

definition vpc_sys_inv :: "vpc_sys \<Rightarrow> bool" where
  "vpc_sys_inv s \<longleftrightarrow> cache_wf (vs_subnats s) \<and>
     ((\<exists>inp. vs_r s = VHeld inp) \<longrightarrow> (\<forall>pc\<in>set (vs_cbs s). \<not> cb_reads pc))"

lemma cache_wf_update:
  assumes "cache_wf m" and "sn_ok sn"
  shows "cache_wf (AList.update k sn m)"
proof -
  have "sn_ok x" if "x \<in> set (map snd (AList.update k sn m))" for x
    using that values_update_subset [of k sn m] assms unfolding cache_wf_def by blast
  with assms(1) show ?thesis by (simp add: cache_wf_def)
qed

lemma subnat_section_wf:
  assumes "cache_wf m"
  shows "cache_wf (subnat_section cfg inp m)"
proof -
  have sn: "sn_ok (newSn m inp)"
    using lookup_values [of m "metaName (sn_meta inp)"] assms
    by (auto simp: newSn_def cache_wf_def zeroSninfo_def split: option.splits) (simp add: sn_ok_def)
  then obtain sn' where "snMembers inp (snPolicy cfg (sn_spec inp) (newSn m inp)) = Done sn'" "sn_ok sn'"
    using snMembers_ok [of "snPolicy cfg (sn_spec inp) (newSn m inp)" inp] by (metis snPolicy_simps(1))
  with sn assms show ?thesis by (auto simp: subnat_section_def Let_def sn_ok_def intro!: cache_wf_update)
qed

lemma vpc_sys_inv_init: "vpc_sys_inv vpc_sys_init"
  by (simp add: vpc_sys_inv_def vpc_sys_init_def cache_wf_def)

lemma set_setCb: "pc' \<in> set (vs_cbs (setCb c pc s)) \<Longrightarrow> pc' = pc \<or> pc' \<in> set (vs_cbs s)"
  using set_update_subset_insert [of "vs_cbs s" c pc] by (auto simp: setCb_def)

lemma vpc_step_inv:
  assumes "vpc_step cfg s s'" and inv: "vpc_sys_inv s"
  shows "vpc_sys_inv s'"
  using assms(1)
proof (cases rule: vpc_step.cases)
  case (turn c v sn sns)
  then have "cb_reads (vs_cbs s ! c)" "vs_cbs s ! c \<in> set (vs_cbs s)" by simp_all (metis nth_mem)
  with inv turn show ?thesis by (auto simp: vpc_sys_inv_def)
qed (use inv in \<open>auto simp: vpc_sys_inv_def subnat_section_wf dest!: set_setCb\<close>)

lemma vpc_evolves_inv: "vpc_evolves cfg s s' \<Longrightarrow> vpc_sys_inv s \<Longrightarrow> vpc_sys_inv s'"
proof (induction rule: vpc_evolves.induct)
  case (step s s' s'')
  then show ?case using vpc_step_inv by blast
next
  case (arrival s s' s'')
  then show ?case by (auto elim!: vpc_arrivalE simp: vpc_sys_inv_def)
qed

section \<open>A callback that hangs\<close>

text \<open>Whoever holds the read lock keeps it, and keeps the cache as it is.\<close>

lemma reader_step:
  assumes "vpc_step cfg s s'" and "c < length (vs_cbs s)" and "vs_cbs s ! c = CHang v" and inv: "vpc_sys_inv s"
  shows "vs_subnats s' = vs_subnats s \<and> c < length (vs_cbs s') \<and> vs_cbs s' ! c = CHang v \<and>
    (\<forall>inp. vs_r s = VWait inp \<longrightarrow> vs_r s' = VWait inp \<and> (\<forall>d w. d < length (vs_cbs s) \<and> vs_cbs s ! d = CWant w \<longrightarrow> vs_cbs s' ! d = CWant w)) \<and>
    length (vs_cbs s') = length (vs_cbs s)"
proof -
  have reads: "\<exists>pc\<in>set (vs_cbs s). cb_reads pc" using assms(2,3) by (metis cb_reads.simps(2) nth_mem)
  then have "vs_r s \<noteq> VHeld inp" for inp using inv by (auto simp: vpc_sys_inv_def)
  with assms(1) reads show ?thesis
    by (cases rule: vpc_step.cases) (use assms(2,3) in auto)
qed

lemma reader_arrival:
  assumes "vpc_arrival s s'" and "c < length (vs_cbs s)"
  shows "vs_subnats s' = vs_subnats s \<and> c < length (vs_cbs s') \<and> vs_cbs s' ! c = vs_cbs s ! c \<and>
    (\<forall>inp. vs_r s = VWait inp \<longrightarrow> vs_r s' = VWait inp) \<and> (\<forall>d<length (vs_cbs s). vs_cbs s' ! d = vs_cbs s ! d) \<and>
    length (vs_cbs s) \<le> length (vs_cbs s')"
  using assms by (auto elim!: vpc_arrivalE simp: nth_append)

lemma hang_forever:
  assumes "vpc_evolves cfg s s'" and "c < length (vs_cbs s)" and "vs_cbs s ! c = CHang v" and "vpc_sys_inv s"
  shows "vs_subnats s' = vs_subnats s \<and> length (vs_cbs s) \<le> length (vs_cbs s') \<and> vs_cbs s' ! c = CHang v \<and>
    (\<forall>inp. vs_r s = VWait inp \<longrightarrow> vs_r s' = VWait inp \<and> (\<forall>d w. d < length (vs_cbs s) \<and> vs_cbs s ! d = CWant w \<longrightarrow> vs_cbs s' ! d = CWant w))"
  using assms
proof (induction rule: vpc_evolves.induct)
  case (step s s' s'')
  then have "c < length (vs_cbs s')" "vpc_sys_inv s'" using vpc_evolves_inv by auto
  with step reader_step [OF step.hyps(2), of c v] show ?case by auto
next
  case (arrival s s' s'')
  then have "c < length (vs_cbs s')" by auto
  with arrival reader_arrival [OF arrival.hyps(2), of c] show ?case by auto
qed simp

text \<open>The loop of a callback comes to its end only over subnets that are not concerned.\<close>

definition loop_at :: "vpc_arg \<Rightarrow> Sninfo list \<Rightarrow> cb_pc \<Rightarrow> bool" where
  "loop_at v sns pc \<longleftrightarrow> (\<exists>us ts. sns = us @ ts \<and> (\<forall>sn\<in>set us. concerned v sn = Done False) \<and>
     (pc = CLoop v ts \<or> pc = CReturned \<and> ts = [] \<or> pc = CHang v \<and> (\<exists>sn\<in>set ts. concerned v sn \<noteq> Done False)))"

lemma loop_at_turn:
  assumes "loop_at v sns (CLoop w (sn # rest))"
  shows "loop_at v sns (cb_turn w sn rest)"
proof -
  obtain us where us: "sns = us @ sn # rest" "\<forall>sn\<in>set us. concerned v sn = Done False" "w = v"
    using assms by (auto simp: loop_at_def)
  show ?thesis
  proof (cases "concerned v sn = Done False")
    case True
    with us show ?thesis unfolding loop_at_def cb_turn_def by (intro exI [of _ "us @ [sn]"] exI [of _ rest]) auto
  next
    case False
    with us show ?thesis unfolding loop_at_def cb_turn_def by (intro exI [of _ us] exI [of _ "sn # rest"]) auto
  qed
qed

lemma loop_at_step:
  assumes "vpc_step cfg s s'" and "c < length (vs_cbs s)" and "loop_at v sns (vs_cbs s ! c)"
  shows "c < length (vs_cbs s') \<and> loop_at v sns (vs_cbs s' ! c)"
  using assms(1)
proof (cases rule: vpc_step.cases)
  case (acquire d w ts)
  then show ?thesis using assms(2,3) by (auto simp: loop_at_def)
next
  case (turn d w sn rest)
  then show ?thesis using assms(2,3) loop_at_turn [of v sns w sn rest] by auto
next
  case (release d w)
  then show ?thesis using assms(2,3) by (auto simp: loop_at_def)
qed (use assms(2,3) in auto)

lemma loop_at_forever:
  assumes "vpc_evolves cfg s s'" and "c < length (vs_cbs s)" and "vs_cbs s ! c = CLoop v sns"
  shows "c < length (vs_cbs s') \<and> loop_at v sns (vs_cbs s' ! c)"
  using assms
proof (induction rule: vpc_evolves.induct)
  case (step s s' s'')
  then show ?case using loop_at_step [OF step.hyps(2)] by blast
next
  case (arrival s s' s'')
  then show ?case using reader_arrival [OF arrival.hyps(2), of c] by auto
qed (auto simp: loop_at_def)

section \<open>Properties\<close>



text \<open>A subnet for all nodes is reconciled, a node is announced, and the subnet is reconciled again.\<close>

definition all_nodes :: SubnetObj where
  "all_nodes = ex_subnet\<lparr>sn_spec := (sn_spec ex_subnet)\<lparr>NodeName := None\<rparr>\<rparr>"

definition ex_arg :: vpc_arg where
  "ex_arg = NodeArg (Some (snd (hd (nodes ex_vpc))))"

definition frozen_cache :: "Sninfo gomap" where
  "frozen_cache = subnat_section ex_cfg all_nodes []"

lemma frozen_cache_all: "\<exists>sn. map snd frozen_cache = [sn] \<and> allnode sn"
proof -
  let ?pol = "snPolicy ex_cfg (sn_spec all_nodes) (newSn [] all_nodes)"
  have "sn_ok ?pol" by (simp add: newSn_def zeroSninfo_def sn_ok_def)
  then obtain sn' where m: "snMembers all_nodes ?pol = Done sn'"
      "sn' = ?pol\<lparr>sn_Namespace := sn_Namespace sn', sn_Node := sn_Node sn',
         allnamespace := allnamespace ?pol \<or> NamespaceName (sn_spec all_nodes) = None,
         allnode := allnode ?pol \<or> NodeName (sn_spec all_nodes) = None\<rparr>"
    by (rule snMembers_ok)
  have "allnode sn'" using arg_cong [OF m(2), of allnode] by (simp add: all_nodes_def)
  moreover have "\<not> sn_Deleted (newSn [] all_nodes)" "DeletionTimestamp (sn_meta all_nodes) = None"
    by (simp_all add: newSn_def zeroSninfo_def all_nodes_def ex_subnet_def emptyMeta_def)
  ultimately show ?thesis using m(1) by (simp add: frozen_cache_def subnat_section_def Let_def)
qed

abbreviation frozen_at :: "cb_pc list \<Rightarrow> vr_pc \<Rightarrow> vpc_sys" where
  "frozen_at cbs r \<equiv> \<lparr>vs_subnats = frozen_cache, vs_cbs = cbs, vs_r = r\<rparr>"

lemma reach_loop: "vpc_evolves ex_cfg vpc_sys_init (frozen_at [CLoop ex_arg (map snd frozen_cache)] VIdle)"
proof -
  let ?e = "\<lambda>r. \<lparr>vs_subnats = [], vs_cbs = [], vs_r = r\<rparr>"
  have "vpc_evolves ex_cfg vpc_sys_init (?e (VWant all_nodes))"
    using vpc_evolves.arrival [OF vpc_evolves.here vpc_arrival.request [of vpc_sys_init all_nodes]] by (simp add: vpc_sys_init_def)
  then have "vpc_evolves ex_cfg vpc_sys_init (?e (VWait all_nodes))"
    using vpc_evolves.step [OF _ vpc_step.announce [of "?e (VWant all_nodes)" all_nodes]] by simp
  then have "vpc_evolves ex_cfg vpc_sys_init (?e (VHeld all_nodes))"
    using vpc_evolves.step [OF _ vpc_step.lock [of "?e (VWait all_nodes)" all_nodes]] by simp
  then have "vpc_evolves ex_cfg vpc_sys_init (frozen_at [] VIdle)"
    using vpc_evolves.step [OF _ vpc_step.finish [of "?e (VHeld all_nodes)" all_nodes]] by (simp add: frozen_cache_def)
  then have "vpc_evolves ex_cfg vpc_sys_init (frozen_at [CWant ex_arg] VIdle)"
    using vpc_evolves.arrival [OF _ vpc_arrival.call [of "frozen_at [] VIdle" ex_arg]] by simp
  then show ?thesis
    using vpc_evolves.step [OF _ vpc_step.acquire [of 0 "frozen_at [CWant ex_arg] VIdle" ex_arg "map snd frozen_cache"]]
    by (simp add: setCb_def)
qed

lemma loop_hangs:
  "vpc_evolves ex_cfg (frozen_at [CLoop ex_arg (map snd frozen_cache)] VIdle) (frozen_at [CHang ex_arg] VIdle)"
proof -
  obtain sn where sn: "map snd frozen_cache = [sn]" "allnode sn" using frozen_cache_all by (elim exE conjE) (rule that)
  have "cb_turn ex_arg sn [] = CHang ex_arg" using sn(2) by (simp add: cb_turn_def ex_arg_def)
  with sn(1) show ?thesis
    using vpc_evolves.step [OF vpc_evolves.here vpc_step.turn [of 0 "frozen_at [CLoop ex_arg [sn]] VIdle" ex_arg sn "[]" ex_cfg]]
    by (simp add: setCb_def)
qed

lemma hang_waits: "vpc_evolves ex_cfg (frozen_at [CHang ex_arg] VIdle) (frozen_at [CHang ex_arg, CWant ex_arg] (VWait all_nodes))"
proof -
  have "vpc_evolves ex_cfg (frozen_at [CHang ex_arg] VIdle) (frozen_at [CHang ex_arg, CWant ex_arg] VIdle)"
    using vpc_evolves.arrival [OF vpc_evolves.here vpc_arrival.call [of "frozen_at [CHang ex_arg] VIdle" ex_arg]] by simp
  then have "vpc_evolves ex_cfg (frozen_at [CHang ex_arg] VIdle) (frozen_at [CHang ex_arg, CWant ex_arg] (VWant all_nodes))"
    using vpc_evolves.arrival [OF _ vpc_arrival.request [of "frozen_at [CHang ex_arg, CWant ex_arg] VIdle" all_nodes]] by simp
  then show ?thesis
    using vpc_evolves.step [OF _ vpc_step.announce [of "frozen_at [CHang ex_arg, CWant ex_arg] (VWant all_nodes)" all_nodes]] by simp
qed

lemma vpc_evolves_trans: "vpc_evolves cfg s' s'' \<Longrightarrow> vpc_evolves cfg s s' \<Longrightarrow> vpc_evolves cfg s s''"
  by (induction rule: vpc_evolves.induct) (auto intro: vpc_evolves.intros)



end
