(* ===== verification/Lock_Order.thy ===== *)
theory Lock_Order
  imports Prelude "HOL-Library.Sublist"
begin

text \<open>
  The mutexes of the pool, the node and the vpc controller together. Each operation is the sequence in
  which it takes and gives back the three mutexes, its calls into the other controllers
  included; what it does in between, its panics and the channels (\<open>Node_Lock\<close>, \<open>Vpc_Lock\<close>) are left out. Any number of goroutines, each
  in one operation, take turns. The mutexes are Go's \<open>sync.RWMutex\<close>: a writer first announces
  itself, which keeps new readers and other writers out, and then waits for the readers to leave.
\<close>

section \<open>Goroutines that lock\<close>

datatype 'm lock_op = RLock 'm | RUnlock 'm | WLock 'm | WUnlock 'm

text \<open>A goroutine: what is left of its operation, what it holds (\<open>True\<close> to write), whether it has announced its write.\<close>

record 'm goroutine =
  g_ops :: "'m lock_op list"
  g_held :: "('m \<times> bool) list"
  g_announced :: bool

definition start :: "'m lock_op list \<Rightarrow> 'm goroutine" where
  "start p = \<lparr>g_ops = p, g_held = [], g_announced = False\<rparr>"

definition writes :: "'m \<Rightarrow> 'm goroutine \<Rightarrow> bool" where
  "writes m g \<longleftrightarrow> (m, True) \<in> set (g_held g) \<or> g_announced g \<and> (case g_ops g of WLock m' # _ \<Rightarrow> m' = m | _ \<Rightarrow> False)"

definition reads :: "'m \<Rightarrow> 'm goroutine \<Rightarrow> bool" where
  "reads m g \<longleftrightarrow> (m, False) \<in> set (g_held g)"

text \<open>The next action of a goroutine, \<open>None\<close> while it has to wait or when it is done.\<close>

definition lock_act :: "'m goroutine list \<Rightarrow> 'm goroutine \<Rightarrow> 'm goroutine option" where
  "lock_act gs g = (case g_ops g of
      [] \<Rightarrow> None
    | RLock m # r \<Rightarrow> if list_ex (writes m) gs then None else Some (g\<lparr>g_ops := r, g_held := (m, False) # g_held g\<rparr>)
    | RUnlock m # r \<Rightarrow> Some (g\<lparr>g_ops := r, g_held := remove1 (m, False) (g_held g)\<rparr>)
    | WLock m # r \<Rightarrow>
        if g_announced g
        then (if list_ex (reads m) gs then None else Some (g\<lparr>g_ops := r, g_held := (m, True) # g_held g, g_announced := False\<rparr>))
        else (if list_ex (writes m) gs then None else Some (g\<lparr>g_announced := True\<rparr>))
    | WUnlock m # r \<Rightarrow> Some (g\<lparr>g_ops := r, g_held := remove1 (m, True) (g_held g)\<rparr>))"

text \<open>A run is a list of the goroutines whose turn it is.\<close>

fun lock_run :: "nat list \<Rightarrow> 'm goroutine list \<Rightarrow> 'm goroutine list option" where
  "lock_run [] gs = Some gs"
| "lock_run (i # is) gs = (if i < length gs
     then (case lock_act gs (gs ! i) of None \<Rightarrow> None | Some g \<Rightarrow> lock_run is (gs[i := g])) else None)"

definition finished :: "'m goroutine list \<Rightarrow> bool" where
  "finished gs \<longleftrightarrow> list_all (\<lambda>g. g_ops g = []) gs"

section \<open>The operations of the controllers\<close>

datatype mutex = VpcMu | NodeMu | PoolMu

type_synonym program = "mutex lock_op list"

text \<open>
  \<open>EachPool\<close>, \<open>GetPoolByIp\<close>, \<open>GetPoolBySubnat\<close> and \<open>Reconcile\<close> of the pool controller. A \<open>Reconcile\<close>
  comes to the cache (\<open>cached\<close>) when the object is gone or has the annotation, and not when it cannot be read.
\<close>

definition EachPool_ops :: "program list \<Rightarrow> program" where
  "EachPool_ops fns = RLock PoolMu # concat fns @ [RUnlock PoolMu]"

definition GetPool_ops :: program where
  "GetPool_ops = [RLock PoolMu, RUnlock PoolMu]"

definition pool_Reconcile_ops :: "bool \<Rightarrow> program" where
  "pool_Reconcile_ops cached = (if cached then [WLock PoolMu, WUnlock PoolMu] else [])"

text \<open>The node controller; \<open>marked\<close> when the node is marked as deleted already. \<open>UpdatePool\<close> takes no mutex.\<close>

definition CouldRemove_ops :: "nat \<Rightarrow> program" where
  "CouldRemove_ops pools = EachPool_ops (replicate pools [])"

definition node_Reconcile_ops :: "bool \<Rightarrow> bool \<Rightarrow> nat \<Rightarrow> program" where
  "node_Reconcile_ops cached marked pools =
     (if cached then WLock NodeMu # (if marked then CouldRemove_ops pools else []) @ [WUnlock NodeMu] else [])"

definition GetNode_ops :: program where
  "GetNode_ops = [RLock NodeMu, RUnlock NodeMu]"

definition EachNode_ops :: "program list \<Rightarrow> program" where
  "EachNode_ops fns = RLock NodeMu # concat fns @ [RUnlock NodeMu]"

text \<open>The vpc controller.\<close>

definition couldRemove_ops :: "nat \<Rightarrow> program" where
  "couldRemove_ops pools = EachPool_ops (replicate pools [])"

definition vpc_Reconcile_ops :: "bool \<Rightarrow> bool \<Rightarrow> nat \<Rightarrow> program" where
  "vpc_Reconcile_ops cached marked pools =
     (if cached then WLock VpcMu # (if marked then couldRemove_ops pools else []) @ [WUnlock VpcMu] else [])"

definition getPolicy_ops :: program where
  "getPolicy_ops = [RLock VpcMu, RUnlock VpcMu]"

text \<open>
  \<open>getSubnatEvent\<close>: for each node of the subnet the pools are visited, and for a pool of a node that is
  marked as deleted \<open>CouldRemove\<close> visits the pools again (\<open>Some\<close> with their number).
\<close>

definition getSubnatEvent_ops :: "nat option list list \<Rightarrow> program" where
  "getSubnatEvent_ops nodes = EachNode_ops (map (\<lambda>pools. EachPool_ops (map (case_option [] CouldRemove_ops) pools)) nodes)"

definition callback_ops :: "nat option list list list \<Rightarrow> program" where
  "callback_ops subnats = RLock VpcMu # concat (map getSubnatEvent_ops subnats) @ [RUnlock VpcMu]"

text \<open>The handlers of the pool and the node controller, with the callbacks, and the namespace controller.\<close>

definition pool_handler_ops :: "nat option list list list list \<Rightarrow> program" where
  "pool_handler_ops cbs = [RLock PoolMu, RUnlock PoolMu] @ concat (map callback_ops cbs)"

definition node_handler_ops :: "nat option list list list list \<Rightarrow> program" where
  "node_handler_ops cbs = [RLock NodeMu, RUnlock NodeMu] @ concat (map callback_ops cbs)"

definition ns_Reconcile_ops :: "nat option list list list list \<Rightarrow> program" where
  "ns_Reconcile_ops cbs = concat (map callback_ops cbs)"

text \<open>Whether a callback comes to a pool of a node that is marked as deleted.\<close>

definition revisits :: "nat option list list list \<Rightarrow> bool" where
  "revisits subnats \<longleftrightarrow> (\<exists>nodes\<in>set subnats. \<exists>pools\<in>set nodes. \<exists>x\<in>set pools. x \<noteq> None)"

text \<open>Every operation of the controllers, those that revisit the pools apart.\<close>

inductive controller_op :: "program \<Rightarrow> bool" where
  EachPool: "controller_op (EachPool_ops (replicate n []))"
| GetPool: "controller_op GetPool_ops"
| pool_Reconcile: "controller_op (pool_Reconcile_ops cached)"
| CouldRemove: "controller_op (CouldRemove_ops n)"
| node_Reconcile: "controller_op (node_Reconcile_ops cached marked n)"
| GetNode: "controller_op GetNode_ops"
| EachNode: "controller_op (EachNode_ops (replicate n []))"
| vpc_Reconcile: "controller_op (vpc_Reconcile_ops cached marked n)"
| getPolicy: "controller_op getPolicy_ops"
| callback: "\<not> revisits subnats \<Longrightarrow> controller_op (callback_ops subnats)"
| pool_handler: "\<forall>c\<in>set cbs. \<not> revisits c \<Longrightarrow> controller_op (pool_handler_ops cbs)"
| node_handler: "\<forall>c\<in>set cbs. \<not> revisits c \<Longrightarrow> controller_op (node_handler_ops cbs)"
| ns_Reconcile: "\<forall>c\<in>set cbs. \<not> revisits c \<Longrightarrow> controller_op (ns_Reconcile_ops cbs)"

section \<open>Every run ends\<close>

definition lock_size :: "'m goroutine list \<Rightarrow> nat" where
  "lock_size gs = sum_list (map (\<lambda>g. 2 * length (g_ops g) - (if g_announced g \<and> g_ops g \<noteq> [] then 1 else 0)) gs)"

lemma lock_act_size:
  assumes "i < length gs" and "lock_act gs (gs ! i) = Some g"
  shows "lock_size (gs[i := g]) < lock_size gs"
  unfolding lock_size_def
proof (rule sum_list_update_less [OF assms(1)])
  show "2 * length (g_ops g) - (if g_announced g \<and> g_ops g \<noteq> [] then 1 else 0) <
      2 * length (g_ops (gs ! i)) - (if g_announced (gs ! i) \<and> g_ops (gs ! i) \<noteq> [] then 1 else 0)"
    using assms(2) by (auto simp: lock_act_def split: list.splits lock_op.splits if_splits)
qed

lemma lock_run_length: "lock_run is gs = Some gs' \<Longrightarrow> length is + lock_size gs' \<le> lock_size gs"
proof (induction "is" arbitrary: gs)
  case (Cons i "is")
  then obtain g where "i < length gs" "lock_act gs (gs ! i) = Some g" "lock_run is (gs[i := g]) = Some gs'"
    by (auto split: if_splits option.splits)
  then show ?case using Cons.IH [of "gs[i := g]"] lock_act_size [of i gs g] by simp
qed simp

section \<open>Ordered locks\<close>

text \<open>What a goroutine holds after some actions, if it takes the mutexes in the order of their rank and gives back what it has.\<close>

fun after :: "('m \<Rightarrow> nat) \<Rightarrow> ('m \<times> bool) list \<Rightarrow> 'm lock_op list \<Rightarrow> ('m \<times> bool) list option" where
  "after rank H [] = Some H"
| "after rank H (RLock m # r) = (if \<forall>h\<in>set H. rank (fst h) < rank m then after rank ((m, False) # H) r else None)"
| "after rank H (RUnlock m # r) = (if (m, False) \<in> set H then after rank (remove1 (m, False) H) r else None)"
| "after rank H (WLock m # r) = (if \<forall>h\<in>set H. rank (fst h) < rank m then after rank ((m, True) # H) r else None)"
| "after rank H (WUnlock m # r) = (if (m, True) \<in> set H then after rank (remove1 (m, True) H) r else None)"

lemma after_append: "after rank H (xs @ ys) = (case after rank H xs of None \<Rightarrow> None | Some H' \<Rightarrow> after rank H' ys)"
  by (induction rank H xs rule: after.induct) auto

text \<open>Actions that may be done by whoever holds only mutexes of a rank below \<open>k\<close>, and leave no trace.\<close>

definition neutral :: "('m \<Rightarrow> nat) \<Rightarrow> nat \<Rightarrow> 'm lock_op list \<Rightarrow> bool" where
  "neutral rank k p \<longleftrightarrow> (\<forall>H. (\<forall>h\<in>set H. rank (fst h) < k) \<longrightarrow> after rank H p = Some H)"

lemma neutralD: "neutral rank k p \<Longrightarrow> \<forall>h\<in>set H. rank (fst h) < k \<Longrightarrow> after rank H p = Some H"
  by (simp add: neutral_def)

lemma neutral_Nil [simp]: "neutral rank k []"
  by (simp add: neutral_def)

lemma neutral_append: "neutral rank k p \<Longrightarrow> neutral rank k q \<Longrightarrow> neutral rank k (p @ q)"
  by (simp add: neutral_def after_append)

lemma neutral_concat: "\<forall>p\<in>set ps. neutral rank k p \<Longrightarrow> neutral rank k (concat ps)"
  by (induction ps) (auto intro: neutral_append)

lemma neutral_read:
  fixes rank :: "'m \<Rightarrow> nat"
  assumes "neutral rank (Suc (rank m)) p" and "k \<le> rank m"
  shows "neutral rank k (RLock m # p @ [RUnlock m])"
  unfolding neutral_def
proof (intro allI impI)
  fix H :: "('m \<times> bool) list"
  assume "\<forall>h\<in>set H. rank (fst h) < k"
  then have *: "\<forall>h\<in>set H. rank (fst h) < rank m" using assms(2) by auto
  then have "after rank ((m, False) # H) p = Some ((m, False) # H)" by (intro neutralD [OF assms(1)]) auto
  with * show "after rank H (RLock m # p @ [RUnlock m]) = Some H" by (simp add: after_append)
qed

lemma neutral_write:
  fixes rank :: "'m \<Rightarrow> nat"
  assumes "neutral rank (Suc (rank m)) p" and "k \<le> rank m"
  shows "neutral rank k (WLock m # p @ [WUnlock m])"
  unfolding neutral_def
proof (intro allI impI)
  fix H :: "('m \<times> bool) list"
  assume "\<forall>h\<in>set H. rank (fst h) < k"
  then have *: "\<forall>h\<in>set H. rank (fst h) < rank m" using assms(2) by auto
  then have "after rank ((m, True) # H) p = Some ((m, True) # H)" by (intro neutralD [OF assms(1)]) auto
  with * show "after rank H (WLock m # p @ [WUnlock m]) = Some H" by (simp add: after_append)
qed

text \<open>The invariant: each goroutine is on its way to giving everything back, only one announces, and a writer is alone.\<close>

definition orderly :: "('m \<Rightarrow> nat) \<Rightarrow> 'm goroutine \<Rightarrow> bool" where
  "orderly rank g \<longleftrightarrow> after rank (g_held g) (g_ops g) = Some [] \<and> (g_announced g \<longrightarrow> (\<exists>m r. g_ops g = WLock m # r))"

definition exclusive :: "'m goroutine list \<Rightarrow> bool" where
  "exclusive gs \<longleftrightarrow> (\<forall>i<length gs. \<forall>j<length gs. \<forall>m. i \<noteq> j \<longrightarrow> writes m (gs ! i) \<longrightarrow>
     \<not> writes m (gs ! j) \<and> ((m, True) \<in> set (g_held (gs ! i)) \<longrightarrow> \<not> reads m (gs ! j)))"

lemma orderly_start: "after rank [] p = Some [] \<Longrightarrow> orderly rank (start p)"
  by (simp add: orderly_def start_def)

lemma orderly_act: "orderly rank g \<Longrightarrow> lock_act gs g = Some g' \<Longrightarrow> orderly rank g'"
  by (auto simp: orderly_def lock_act_def split: list.splits lock_op.splits if_splits)

lemma lock_act_None:
  "lock_act gs g = None \<longleftrightarrow> g_ops g = [] \<or> (\<exists>m r. g_ops g = RLock m # r \<and> list_ex (writes m) gs) \<or>
     (\<exists>m r. g_ops g = WLock m # r \<and> (if g_announced g then list_ex (reads m) gs else list_ex (writes m) gs))"
  by (auto simp: lock_act_def split: list.splits lock_op.splits)

lemma mem_remove1: "x \<in> set (remove1 y xs) \<Longrightarrow> x \<in> set xs"
  by (meson notin_set_remove1)

lemma writes_act:
  assumes "orderly rank g" and "lock_act gs g = Some g'" and "writes m g'"
  shows "writes m g \<or> \<not> list_ex (writes m) gs \<and> (m, True) \<notin> set (g_held g')"
  using assms
  by (auto simp: orderly_def lock_act_def writes_def split: list.splits lock_op.splits if_splits dest: mem_remove1)

lemma holds_act:
  assumes "lock_act gs g = Some g'" and "(m, True) \<in> set (g_held g')"
  shows "(m, True) \<in> set (g_held g) \<or> \<not> list_ex (reads m) gs \<and> writes m g"
  using assms
  by (auto simp: lock_act_def writes_def split: list.splits lock_op.splits if_splits dest: mem_remove1)

lemma reads_act:
  assumes "lock_act gs g = Some g'" and "reads m g'"
  shows "reads m g \<or> \<not> list_ex (writes m) gs"
  using assms
  by (auto simp: lock_act_def reads_def split: list.splits lock_op.splits if_splits dest: mem_remove1)

lemma exclusive_act:
  assumes "exclusive gs" and "i < length gs" and "lock_act gs (gs ! i) = Some g" and "orderly rank (gs ! i)"
  shows "exclusive (gs[i := g])"
  unfolding exclusive_def
proof (intro allI impI)
  fix a b m
  assume ab: "a < length (gs[i := g])" "b < length (gs[i := g])" "a \<noteq> b" "writes m (gs[i := g] ! a)"
  note e = assms(1) [unfolded exclusive_def, rule_format]
  have lx: "list_ex P gs" if "j < length gs" "P (gs ! j)" for P j using that by (auto simp: list_ex_length)
  show "\<not> writes m (gs[i := g] ! b) \<and> ((m, True) \<in> set (g_held (gs[i := g] ! a)) \<longrightarrow> \<not> reads m (gs[i := g] ! b))"
  proof (cases "a = i")
    case True
    then have b: "b \<noteq> i" "b < length gs" "writes m g" using ab assms(2) by auto
    have "\<not> writes m (gs ! b)" using writes_act [OF assms(4,3) b(3)] e [of i b m] lx [of b "writes m"] b assms(2) by blast
    moreover have "\<not> reads m (gs ! b)" if "(m, True) \<in> set (g_held g)"
      using holds_act [OF assms(3) that] e [of i b m] lx [of b "reads m"] b assms(2) by (auto simp: writes_def)
    ultimately show ?thesis using True b assms(2) by simp
  next
    case False
    then have a: "a < length gs" "writes m (gs ! a)" using ab by auto
    have "\<not> writes m g \<and> ((m, True) \<in> set (g_held (gs ! a)) \<longrightarrow> \<not> reads m g)"
      using writes_act [OF assms(4,3), of m] reads_act [OF assms(3), of m] e [of a i m] lx [of a "writes m"] a False assms(2) by auto
    then show ?thesis using False ab a e [of a b m] by (cases "b = i") auto
  qed
qed

definition steady :: "('m \<Rightarrow> nat) \<Rightarrow> 'm goroutine list \<Rightarrow> bool" where
  "steady rank gs \<longleftrightarrow> list_all (orderly rank) gs \<and> exclusive gs"

locale ranked_locks =
  fixes rank :: "'m \<Rightarrow> nat" and fits :: "'m lock_op list \<Rightarrow> bool"
  assumes fits_ordered: "fits p \<Longrightarrow> after rank [] p = Some []"
begin

lemma steady_start: "\<forall>p\<in>set ps. fits p \<Longrightarrow> steady rank (map start ps)"
  by (auto simp: steady_def list_all_iff fits_ordered orderly_start exclusive_def) (simp_all add: writes_def reads_def start_def)

lemma steady_run: "lock_run is gs = Some gs' \<Longrightarrow> steady rank gs \<Longrightarrow> steady rank gs'"
proof (induction "is" arbitrary: gs)
  case (Cons i "is")
  then obtain g where g: "i < length gs" "lock_act gs (gs ! i) = Some g" "lock_run is (gs[i := g]) = Some gs'"
    by (auto split: if_splits option.splits)
  have i: "orderly rank (gs ! i)" using Cons.prems(2) g(1) by (simp add: steady_def list_all_length)
  have "orderly rank g" using orderly_act [OF i g(2)] .
  then have "steady rank (gs[i := g])"
    using Cons.prems(2) exclusive_act [OF _ g(1,2) i] set_update_subset_insert [of gs i g] by (auto simp: steady_def list_all_iff)
  then show ?case using Cons.IH g(3) by blast
qed simp

text \<open>Whoever holds a mutex and waits, waits for one of a higher rank.\<close>

lemma holder_waits_higher:
  assumes "orderly rank g" and "(m, b) \<in> set (g_held g)" and "lock_act gs g = None"
  obtains m' r where "g_ops g = RLock m' # r \<or> g_ops g = WLock m' # r" and "rank m < rank m'"
  using assms by (auto simp: orderly_def lock_act_def split: list.splits lock_op.splits if_splits)

text \<open>Some goroutine holds the mutex another waits for.\<close>

lemma waits_for_holder:
  assumes "steady rank gs" and "g \<in> set gs" and "\<forall>g\<in>set gs. lock_act gs g = None" and "g_ops g = RLock m # r \<or> g_ops g = WLock m # r"
  obtains h b where "h \<in> set gs" and "(m, b) \<in> set (g_held h)"
proof -
  have block: "\<exists>h\<in>set gs. reads m h" if "h' \<in> set gs" "g_announced h'" "g_ops h' = WLock m # r'" for h' r'
    using that bspec [OF assms(3) that(1)] by (simp add: lock_act_None list_ex_iff)
  have "\<exists>h\<in>set gs. writes m h \<or> reads m h"
    using assms(4) bspec [OF assms(3,2)] by (auto simp: lock_act_None list_ex_iff split: if_splits)
  then obtain h where h: "h \<in> set gs" "writes m h \<or> reads m h" by blast
  show thesis
  proof (cases "\<exists>b. (m, b) \<in> set (g_held h)")
    case True
    then show thesis using that h(1) by blast
  next
    case False
    then have "g_announced h \<and> (\<exists>r'. g_ops h = WLock m # r')"
      using h(2) by (auto simp: writes_def reads_def split: list.splits lock_op.splits)
    then obtain h' where "h' \<in> set gs" "reads m h'" using block h(1) by blast
    then show thesis using that by (auto simp: reads_def)
  qed
qed

theorem progress:
  assumes "steady rank gs" and "\<not> finished gs"
  shows "\<exists>i<length gs. lock_act gs (gs ! i) \<noteq> None"
proof (rule ccontr)
  assume "\<not> ?thesis"
  then have stuck: "\<forall>g\<in>set gs. lock_act gs g = None" by (auto simp: in_set_conv_nth)
  have ord: "orderly rank g" if "g \<in> set gs" for g using assms(1) that by (simp add: steady_def list_all_iff)
  define W where "W = {m. \<exists>g\<in>set gs. \<exists>r. g_ops g = RLock m # r \<or> g_ops g = WLock m # r}"
  have climbs: "\<exists>m'\<in>W. rank m < rank m'" if m: "m \<in> W" for m
  proof -
    obtain g r where g: "g \<in> set gs" "g_ops g = RLock m # r \<or> g_ops g = WLock m # r" using m by (auto simp: W_def)
    obtain h b where h: "h \<in> set gs" "(m, b) \<in> set (g_held h)" using waits_for_holder [OF assms(1) g(1) stuck g(2)] .
    show ?thesis using holder_waits_higher [OF ord [OF h(1)] h(2)] stuck h(1) unfolding W_def by (metis (mono_tags, lifting) mem_Collect_eq)
  qed
  have "W \<subseteq> (\<Union>g\<in>set gs. case g_ops g of RLock m # _ \<Rightarrow> {m} | WLock m # _ \<Rightarrow> {m} | _ \<Rightarrow> {})" by (force simp: W_def)
  moreover have "finite (\<Union>g\<in>set gs. case g_ops g of RLock m # _ \<Rightarrow> {m} | WLock m # _ \<Rightarrow> {m} | _ \<Rightarrow> {})"
    by (auto split: list.splits lock_op.splits)
  ultimately have fin: "finite W" by (rule finite_subset)
  obtain g where g: "g \<in> set gs" "g_ops g \<noteq> []" using assms(2) by (auto simp: finished_def list_all_iff)
  then have "W \<noteq> {}" using bspec [OF stuck g(1)] by (auto simp: W_def lock_act_None)
  then have "Max (rank ` W) \<in> rank ` W" using fin by simp
  then show False using climbs fin by (metis (no_types, lifting) Max_ge finite_imageI imageE imageI leD)
qed

end

section \<open>The controllers keep the order\<close>

fun mutex_rank :: "mutex \<Rightarrow> nat" where
  "mutex_rank VpcMu = 0"
| "mutex_rank NodeMu = 1"
| "mutex_rank PoolMu = 2"

lemma neutral_pools: "k \<le> 2 \<Longrightarrow> \<forall>p\<in>set fns. neutral mutex_rank 3 p \<Longrightarrow> neutral mutex_rank k (EachPool_ops fns)"
  unfolding EachPool_ops_def by (rule neutral_read) (auto intro: neutral_concat simp: numeral_3_eq_3 numeral_2_eq_2)

lemma neutral_remove: "k \<le> 2 \<Longrightarrow> neutral mutex_rank k (CouldRemove_ops n)" "k \<le> 2 \<Longrightarrow> neutral mutex_rank k (couldRemove_ops n)"
  unfolding CouldRemove_ops_def couldRemove_ops_def by (auto intro: neutral_pools)

lemma neutral_nodes: "k \<le> 1 \<Longrightarrow> \<forall>p\<in>set fns. neutral mutex_rank 2 p \<Longrightarrow> neutral mutex_rank k (EachNode_ops fns)"
  unfolding EachNode_ops_def by (rule neutral_read) (auto intro: neutral_concat simp: numeral_2_eq_2)

lemma neutral_callback:
  assumes "\<not> revisits subnats"
  shows "neutral mutex_rank 0 (callback_ops subnats)"
proof -
  have "neutral mutex_rank 1 (getSubnatEvent_ops nodes)" if "nodes \<in> set subnats" for nodes
    unfolding getSubnatEvent_ops_def
    by (rule neutral_nodes) (use that assms in \<open>fastforce simp: revisits_def intro!: neutral_pools split: option.splits\<close>)+
  then have "neutral mutex_rank (Suc (mutex_rank VpcMu)) (concat (map getSubnatEvent_ops subnats))"
    by (auto intro!: neutral_concat)
  then show ?thesis unfolding callback_ops_def by (rule neutral_read) simp
qed

lemma neutral_callbacks: "\<forall>c\<in>set cbs. \<not> revisits c \<Longrightarrow> neutral mutex_rank 0 (concat (map callback_ops cbs))"
  by (rule neutral_concat) (auto intro: neutral_callback)

lemma neutral_brackets: "neutral mutex_rank 0 [RLock m, RUnlock m]" "neutral mutex_rank 0 [WLock m, WUnlock m]"
  using neutral_read [of mutex_rank m "[]" 0] neutral_write [of mutex_rank m "[]" 0] by simp_all

lemma controller_op_neutral: "controller_op p \<Longrightarrow> neutral mutex_rank 0 p"
proof (induction rule: controller_op.induct)
  case (node_Reconcile cached marked n)
  show ?case unfolding node_Reconcile_ops_def by (auto intro!: neutral_write [of _ NodeMu] neutral_brackets intro: neutral_remove)
next
  case (vpc_Reconcile cached marked n)
  show ?case unfolding vpc_Reconcile_ops_def by (auto intro!: neutral_write [of _ VpcMu] neutral_brackets intro: neutral_remove)
next
  case (pool_handler cbs)
  then show ?case unfolding pool_handler_ops_def by (intro neutral_append neutral_brackets neutral_callbacks)
next
  case (node_handler cbs)
  then show ?case unfolding node_handler_ops_def by (intro neutral_append neutral_brackets neutral_callbacks)
qed (auto simp: GetPool_ops_def pool_Reconcile_ops_def GetNode_ops_def getPolicy_ops_def ns_Reconcile_ops_def
    intro: neutral_pools neutral_nodes neutral_remove neutral_brackets neutral_callback neutral_callbacks)

interpretation ctl: ranked_locks mutex_rank controller_op
  by unfold_locales (rule neutralD [OF controller_op_neutral], auto)



section \<open>Reading twice\<close>

text \<open>A goroutine that reads a mutex and wants to read it again, while another has announced itself to write.\<close>

definition entangled :: "'m \<Rightarrow> nat \<Rightarrow> nat \<Rightarrow> 'm goroutine list \<Rightarrow> bool" where
  "entangled m i j gs \<longleftrightarrow> i < length gs \<and> j < length gs \<and> i \<noteq> j \<and> reads m (gs ! i) \<and> (\<exists>r. g_ops (gs ! i) = RLock m # r) \<and>
     g_announced (gs ! j) \<and> (\<exists>r. g_ops (gs ! j) = WLock m # r)"

lemma entangled_stuck:
  assumes "entangled m i j gs"
  shows "lock_act gs (gs ! i) = None \<and> lock_act gs (gs ! j) = None"
proof -
  have "writes m (gs ! j)" "reads m (gs ! i)" "gs ! i \<in> set gs" "gs ! j \<in> set gs"
    using assms by (auto simp: entangled_def writes_def)
  then have "list_ex (writes m) gs" "list_ex (reads m) gs" by (auto simp: list_ex_iff)
  then show ?thesis using assms by (auto simp: entangled_def lock_act_def)
qed

lemma entangled_run:
  assumes "lock_run is gs = Some gs'" and "entangled m i j gs"
  shows "gs' ! i = gs ! i \<and> gs' ! j = gs ! j \<and> entangled m i j gs'"
  using assms
proof (induction "is" arbitrary: gs)
  case (Cons k "is")
  then obtain g where g: "k < length gs" "lock_act gs (gs ! k) = Some g" "lock_run is (gs[k := g]) = Some gs'"
    by (auto split: if_splits option.splits)
  have "k \<noteq> i" "k \<noteq> j" using entangled_stuck [OF Cons.prems(2)] g(2) by auto
  then have "entangled m i j (gs[k := g])" using Cons.prems(2) by (simp add: entangled_def)
  with Cons.IH [OF g(3)] \<open>k \<noteq> i\<close> \<open>k \<noteq> j\<close> show ?case by simp
qed simp

lemma entangled_never_finished:
  assumes "entangled m i j gs" and "lock_run is gs = Some gs'"
  shows "\<not> finished gs'"
  using entangled_run [OF assms(2,1)] by (auto simp: entangled_def finished_def list_all_length)

text \<open>A goroutine that only reads goes on as long as nobody writes.\<close>

fun only_reads :: "'m lock_op \<Rightarrow> bool" where
  "only_reads (RLock _) = True"
| "only_reads (RUnlock _) = True"
| "only_reads _ = False"

lemma reader_runs:
  assumes "list_all only_reads p" and "g_ops g = p @ r" and "\<not> g_announced g" and "\<forall>h\<in>set (g # gs). \<forall>m. \<not> writes m h"
  shows "\<exists>H. lock_run (replicate (length p) 0) (g # gs) = Some (g\<lparr>g_ops := r, g_held := H\<rparr> # gs) \<and> (\<forall>m. (m, True) \<notin> set H)"
  using assms
proof (induction p arbitrary: g)
  case Nil
  then show ?case by (intro exI [of _ "g_held g"]) (auto simp: writes_def)
next
  case (Cons a p)
  obtain m where a: "a = RLock m \<or> a = RUnlock m" using Cons.prems(1) by (cases a) auto
  define g' where "g' = g\<lparr>g_ops := p @ r, g_held := (if a = RLock m then (m, False) # g_held g else remove1 (m, False) (g_held g))\<rparr>"
  have act: "lock_act (g # gs) g = Some g'" using a Cons.prems(2,4) by (auto simp: lock_act_def g'_def list_ex_iff)
  have "\<forall>h\<in>set (g' # gs). \<forall>m. \<not> writes m h"
    using Cons.prems(3,4) by (auto simp: g'_def writes_def dest: mem_remove1)
  then obtain H where "lock_run (replicate (length p) 0) (g' # gs) = Some (g'\<lparr>g_ops := r, g_held := H\<rparr> # gs)" "\<forall>m. (m, True) \<notin> set H"
    using Cons.IH [of g'] Cons.prems(1,3) by (auto simp: g'_def)
  then show ?case using act by (intro exI [of _ H]) (simp add: g'_def)
qed

lemma lock_run_append: "lock_run (is @ js) gs = (case lock_run is gs of None \<Rightarrow> None | Some gs' \<Rightarrow> lock_run js gs')"
  by (induction "is" arbitrary: gs) (auto split: option.splits)

text \<open>Whoever reads \<open>m\<close> twice in a row can be entangled with whoever writes it.\<close>

lemma double_read_entangles:
  assumes "list_all only_reads p" and "sublist [RLock m, RLock m] p"
  shows "\<exists>is gs. lock_run is (map start (p # (WLock m # w) # ps)) = Some gs \<and> entangled m 0 1 gs"
proof -
  obtain u v where p: "p = (u @ [RLock m]) @ RLock m # v" using assms(2) by (auto simp: sublist_def)
  define gs where "gs = map start ((WLock m # w) # ps)"
  have quiet: "\<forall>h\<in>set (start p # gs). \<forall>m. \<not> writes m h" by (auto simp: gs_def start_def writes_def)
  have u: "list_all only_reads u" using assms(1) p by simp
  have "g_ops (start p) = u @ RLock m # RLock m # v" "\<not> g_announced (start p)" by (simp_all add: start_def p)
  then obtain H where H: "lock_run (replicate (length u) 0) (start p # gs) = Some (start p\<lparr>g_ops := RLock m # RLock m # v, g_held := H\<rparr> # gs)"
    "\<forall>m. (m, True) \<notin> set H" using reader_runs [OF u _ _ quiet] by blast
  have free: "\<not> writes m' h" if "h \<in> set gs" for h m' using quiet that by simp
  define gs' where "gs' = start p\<lparr>g_ops := RLock m # v, g_held := (m, False) # H\<rparr> # (start (WLock m # w))\<lparr>g_announced := True\<rparr> # map start ps"
  have "lock_run [0, 1] (start p\<lparr>g_ops := RLock m # RLock m # v, g_held := H\<rparr> # gs) = Some gs'"
    using H(2) free by (simp add: lock_act_def gs'_def gs_def list_ex_iff writes_def start_def)
  then have "lock_run (replicate (length u) 0 @ [0, 1]) (map start (p # (WLock m # w) # ps)) = Some gs'"
    using H(1) by (simp add: lock_run_append gs_def)
  moreover have "entangled m 0 1 gs'" by (simp add: entangled_def gs'_def reads_def start_def)
  ultimately show ?thesis by blast
qed

lemma list_all_concat: "list_all P (concat xss) = list_all (list_all P) xss"
  by (induction xss) simp_all

lemmas ops_defs = EachPool_ops_def CouldRemove_ops_def EachNode_ops_def getSubnatEvent_ops_def callback_ops_def

lemma CouldRemove_reads: "list_all only_reads (CouldRemove_ops n)"
  by (simp add: ops_defs list_all_concat)

lemma callback_reads: "list_all only_reads (callback_ops subnats)"
  using CouldRemove_reads by (auto simp: callback_ops_def getSubnatEvent_ops_def EachNode_ops_def EachPool_ops_def list_all_concat list_all_iff
      split: option.splits)

lemma sublist_concat: "x \<in> set xss \<Longrightarrow> sublist xs x \<Longrightarrow> sublist xs (concat xss)"
  by (metis concat.simps(2) concat_append split_list sublist_appendI sublist_order.order_trans)

lemma sublist_bracket: "sublist xs p \<Longrightarrow> sublist xs (a # p @ [b])"
  by (metis append_Cons append_Nil sublist_appendI sublist_order.order_trans)

lemma revisits_twice:
  assumes "revisits subnats"
  shows "sublist [RLock PoolMu, RLock PoolMu] (callback_ops subnats)"
proof -
  obtain nodes pools where np: "nodes \<in> set subnats" "pools \<in> set nodes" "\<exists>x\<in>set pools. x \<noteq> None"
    using assms by (auto simp: revisits_def)
  obtain us x vs where pools: "pools = us @ x # vs" "x \<noteq> None" "\<forall>y\<in>set us. \<not> y \<noteq> None" using split_list_first_prop [OF np(3)] by blast
  then have none: "concat (map (case_option [] CouldRemove_ops) us) = []" by auto
  obtain n where "x = Some n" using pools(2) by blast
  with none pools(1) have "prefix [RLock PoolMu, RLock PoolMu] (EachPool_ops (map (case_option [] CouldRemove_ops) pools))"
    by (simp add: EachPool_ops_def CouldRemove_ops_def del: concat_eq_Nil_conv)
  then have "sublist [RLock PoolMu, RLock PoolMu] (EachPool_ops (map (case_option [] CouldRemove_ops) pools))" by (rule prefix_imp_sublist)
  then have "sublist [RLock PoolMu, RLock PoolMu] (getSubnatEvent_ops nodes)"
    unfolding getSubnatEvent_ops_def EachNode_ops_def using np(2) by (intro sublist_bracket sublist_concat) auto
  then show ?thesis unfolding callback_ops_def using np(1) by (intro sublist_bracket sublist_concat) auto
qed

lemma controllers_can_finish:
  assumes "steady mutex_rank gs"
  shows "\<exists>is gs'. lock_run is gs = Some gs' \<and> finished gs'"
  using assms
proof (induction gs rule: measure_induct_rule [of lock_size])
  case (less gs)
  show ?case
  proof (cases "finished gs")
    case True
    then have "lock_run [] gs = Some gs \<and> finished gs" by simp
    then show ?thesis by blast
  next
    case False
    then obtain i g where i: "i < length gs" "lock_act gs (gs ! i) = Some g" using ctl.progress [OF less.prems] by blast
    then have run: "lock_run [i] gs = Some (gs[i := g])" by simp
    obtain js gs' where "lock_run js (gs[i := g]) = Some gs'" "finished gs'"
      using less.IH [OF lock_act_size [OF i] ctl.steady_run [OF run less.prems]] by blast
    then show ?thesis using i by (intro exI [of _ "i # js"]) simp
  qed
qed



end
