(* ===== verification/Linked_List.thy ===== *)
theory Linked_List
  imports Go_Base
begin

text \<open>
  \<open>src/pkg/util/queue.go\<close>: the singly linked list \<open>List[T]\<close>, on an explicit heap of elements.
  A list header holds the pointers \<open>first\<close> and \<open>last\<close> and the size; every operation takes the
  header and the heap and returns the updated header. The abstraction \<open>lrep\<close> relates a header and
  the heap to the list of values, and every operation refines the corresponding operation on
  values and touches no cell of another list (\<open>only\<close>). A loop that follows \<open>next\<close> pointers
  until nil runs with as many steps as there are cells: more would mean a cycle, and the loop
  would not return (\<open>Blocked\<close>).
\<close>

section \<open>The heap\<close>

record 'a element =
  el_value :: 'a
  el_next :: "nat option"

record 'a store =
  cells :: "nat \<Rightarrow> 'a element option"
  alloc :: nat

record List =
  l_first :: "nat option"
  l_last :: "nat option"
  l_size :: int

definition new_element :: "'a \<Rightarrow> nat option \<Rightarrow> ('a store, nat) go" where
  "new_element v n = (\<lambda>s. (Done (alloc s),
     s\<lparr>alloc := alloc s + 1, cells := (cells s)(alloc s \<mapsto> \<lparr>el_value = v, el_next = n\<rparr>)\<rparr>))"

definition load :: "nat option \<Rightarrow> ('a store, 'a element) go" where
  "load p = (\<lambda>s. case p of None \<Rightarrow> (Panic NilDeref, s)
     | Some a \<Rightarrow> (case cells s a of None \<Rightarrow> (Panic NilDeref, s) | Some c \<Rightarrow> (Done c, s)))"

definition set_cell :: "nat option \<Rightarrow> ('a element \<Rightarrow> 'a element) \<Rightarrow> ('a store, unit) go" where
  "set_cell p f = andThen (load p) (\<lambda>c. modify (\<lambda>s. s\<lparr>cells := (cells s)(the p \<mapsto> f c)\<rparr>))"

abbreviation set_next :: "nat option \<Rightarrow> nat option \<Rightarrow> ('a store, unit) go" where
  "set_next p n \<equiv> set_cell p (\<lambda>c. c\<lparr>el_next := n\<rparr>)"

abbreviation set_value :: "nat option \<Rightarrow> 'a \<Rightarrow> ('a store, unit) go" where
  "set_value p v \<equiv> set_cell p (\<lambda>c. c\<lparr>el_value := v\<rparr>)"

section \<open>Operations\<close>

definition emptyList :: List where
  "emptyList = \<lparr>l_first = None, l_last = None, l_size = 0\<rparr>"

definition withinRange :: "List \<Rightarrow> int \<Rightarrow> bool" where
  "withinRange l index \<longleftrightarrow> index \<ge> 0 \<and> index < l_size l"

fun list_Add :: "List \<Rightarrow> 'a list \<Rightarrow> ('a store, List) go" where
  "list_Add l [] = ret l"
| "list_Add l (v # vs) = andThen (new_element v None) (\<lambda>a.
     if l_size l = 0
     then list_Add (l\<lparr>l_first := Some a, l_last := Some a, l_size := l_size l + 1\<rparr>) vs
     else andThen (set_next (l_last l) (Some a)) (\<lambda>_.
       list_Add (l\<lparr>l_last := Some a, l_size := l_size l + 1\<rparr>) vs))"

definition list_New :: "'a list \<Rightarrow> ('a store, List) go" where
  "list_New vs = (if length vs > 0 then list_Add emptyList vs else ret emptyList)"

definition list_Append :: "List \<Rightarrow> 'a list \<Rightarrow> ('a store, List) go" where
  "list_Append l vs = list_Add l vs"

text \<open>The loop of \<open>Prepend\<close> takes the values from the last to the first.\<close>

fun prepend_loop :: "List \<Rightarrow> 'a list \<Rightarrow> ('a store, List) go" where
  "prepend_loop l [] = ret l"
| "prepend_loop l (v # rev_vs) = andThen (new_element v (l_first l)) (\<lambda>a.
     prepend_loop (l\<lparr>l_first := Some a, l_last := (if l_size l = 0 then Some a else l_last l),
       l_size := l_size l + 1\<rparr>) rev_vs)"

definition list_Prepend :: "List \<Rightarrow> 'a list \<Rightarrow> ('a store, List) go" where
  "list_Prepend l vs = prepend_loop l (rev vs)"

text \<open>The loops that count to an index, with the element before the current one.\<close>

fun walk :: "nat \<Rightarrow> nat option \<Rightarrow> nat option \<Rightarrow> ('a store, nat option \<times> nat option) go" where
  "walk 0 before element = ret (before, element)"
| "walk (Suc n) before element = andThen (load element) (\<lambda>c. walk n element (el_next c))"

definition list_Get :: "'a \<Rightarrow> List \<Rightarrow> int \<Rightarrow> ('a store, 'a \<times> bool) go" where
  "list_Get emptyT l index =
     (if \<not> withinRange l index then ret (emptyT, False)
      else andThen (walk (nat index) None (l_first l)) (\<lambda>(_, element).
        andThen (load element) (\<lambda>c. ret (el_value c, True))))"

definition list_Clear :: "List \<Rightarrow> List" where
  "list_Clear l = l\<lparr>l_size := 0, l_first := None, l_last := None\<rparr>"

definition list_Remove :: "List \<Rightarrow> int \<Rightarrow> ('a store, List) go" where
  "list_Remove l index =
     (if \<not> withinRange l index then ret l
      else if l_size l = 1 then ret (list_Clear l)
      else andThen (walk (nat index) None (l_first l)) (\<lambda>(before, element).
        andThen (if element = l_first l
                 then andThen (load element) (\<lambda>c. ret (l\<lparr>l_first := el_next c\<rparr>)) else ret l) (\<lambda>l.
        (let l = (if element = l_last l then l\<lparr>l_last := before\<rparr> else l) in
        andThen (if before \<noteq> None
                 then andThen (load element) (\<lambda>c. set_next before (el_next c)) else ret ()) (\<lambda>_.
        ret (l\<lparr>l_size := l_size l - 1\<rparr>))))))"

definition list_Pop :: "'a \<Rightarrow> List \<Rightarrow> ('a store, ('a \<times> bool) \<times> List) go" where
  "list_Pop emptyT l =
     (if l_size l = 0 then ret ((emptyT, False), l)
      else (let element = l_first l in
        andThen (list_Remove l 0) (\<lambda>l'. andThen (load element) (\<lambda>c. ret ((el_value c, True), l')))))"

fun values_loop :: "nat \<Rightarrow> nat \<Rightarrow> nat option \<Rightarrow> 'a list \<Rightarrow> ('a store, 'a list) go" where
  "values_loop fuel e None values = ret values"
| "values_loop 0 e (Some a) values = block"
| "values_loop (Suc fuel) e (Some a) values = andThen (load (Some a)) (\<lambda>c.
     if e < length values then values_loop fuel (Suc e) (el_next c) (values[e := el_value c])
     else raise IndexRange)"

definition list_Values :: "'a \<Rightarrow> List \<Rightarrow> ('a store, 'a list) go" where
  "list_Values emptyT l = andThen (gets alloc) (\<lambda>n.
     values_loop n 0 (l_first l) (replicate (nat (l_size l)) emptyT))"

definition list_Empty :: "List \<Rightarrow> bool" where
  "list_Empty l \<longleftrightarrow> l_size l = 0"

definition list_Size :: "List \<Rightarrow> int" where
  "list_Size l = l_size l"

fun swap_loop :: "nat \<Rightarrow> int \<Rightarrow> nat option \<Rightarrow> int \<Rightarrow> int \<Rightarrow> nat option \<Rightarrow> nat option \<Rightarrow>
    ('a store, nat option \<times> nat option) go" where
  "swap_loop 0 e cur i j e1 e2 = block"
| "swap_loop (Suc fuel) e cur i j e1 e2 =
     (if e1 = None \<or> e2 = None
      then (let (e1, e2) = (if e = i then (cur, e2) else if e = j then (e1, cur) else (e1, e2)) in
        andThen (load cur) (\<lambda>c. swap_loop fuel (e + 1) (el_next c) i j e1 e2))
      else ret (e1, e2))"

definition list_Swap :: "List \<Rightarrow> int \<Rightarrow> int \<Rightarrow> ('a store, unit) go" where
  "list_Swap l i j =
     (if withinRange l i \<and> withinRange l j \<and> i \<noteq> j
      then andThen (swap_loop (Suc (nat (l_size l))) 0 (l_first l) i j None None) (\<lambda>(element1, element2).
        andThen (load element2) (\<lambda>c2. andThen (load element1) (\<lambda>c1.
        andThen (set_value element1 (el_value c2)) (\<lambda>_. set_value element2 (el_value c1)))))
      else ret ())"

text \<open>The two insertion loops; \<open>at_front\<close> is the test \<open>i == 0\<close> of the first one.\<close>

fun insert_front :: "bool \<Rightarrow> List \<Rightarrow> nat option \<Rightarrow> 'a list \<Rightarrow> ('a store, List \<times> nat option) go" where
  "insert_front at_front l before [] = ret (l, before)"
| "insert_front at_front l before (v # vs) = andThen (new_element v None) (\<lambda>a.
     if at_front then insert_front False (l\<lparr>l_first := Some a\<rparr>) (Some a) vs
     else andThen (set_next before (Some a)) (\<lambda>_. insert_front False l (Some a) vs))"

fun insert_after :: "nat option \<Rightarrow> 'a list \<Rightarrow> ('a store, nat option) go" where
  "insert_after before [] = ret before"
| "insert_after before (v # vs) = andThen (new_element v None) (\<lambda>a.
     andThen (set_next before (Some a)) (\<lambda>_. insert_after (Some a) vs))"

definition list_Insert :: "List \<Rightarrow> int \<Rightarrow> 'a list \<Rightarrow> ('a store, List) go" where
  "list_Insert l index vs =
     (if \<not> withinRange l index
      then (if index = l_size l then list_Add l vs else ret l)
      else (let l = l\<lparr>l_size := l_size l + int (length vs)\<rparr> in
        andThen (walk (nat index) None (l_first l)) (\<lambda>(before, found).
        if found = l_first l
        then (let oldNext = l_first l in
          andThen (insert_front True l before vs) (\<lambda>(l, before).
          andThen (set_next before oldNext) (\<lambda>_. ret l)))
        else andThen (load before) (\<lambda>c. (let oldNext = el_next c in
          andThen (insert_after before vs) (\<lambda>before.
          andThen (set_next before oldNext) (\<lambda>_. ret l)))))))"

definition list_Set :: "List \<Rightarrow> int \<Rightarrow> 'a \<Rightarrow> ('a store, List) go" where
  "list_Set l index v =
     (if \<not> withinRange l index
      then (if index = l_size l then list_Add l [v] else ret l)
      else andThen (walk (nat index) None (l_first l)) (\<lambda>(_, found).
        andThen (set_value found v) (\<lambda>_. ret l)))"

fun string_loop :: "('a \<Rightarrow> string) \<Rightarrow> nat \<Rightarrow> nat option \<Rightarrow> string list \<Rightarrow> ('a store, string list) go" where
  "string_loop sprint fuel None values = ret values"
| "string_loop sprint 0 (Some a) values = block"
| "string_loop sprint (Suc fuel) (Some a) values = andThen (load (Some a)) (\<lambda>c.
     string_loop sprint fuel (el_next c) (values @ [sprint (el_value c)]))"

text \<open>\<open>strings.Join\<close>.\<close>

fun strings_Join :: "string list \<Rightarrow> string \<Rightarrow> string" where
  "strings_Join [] sep = []"
| "strings_Join [x] sep = x"
| "strings_Join (x # y # xs) sep = x @ sep @ strings_Join (y # xs) sep"

definition list_String :: "('a \<Rightarrow> string) \<Rightarrow> List \<Rightarrow> ('a store, string) go" where
  "list_String sprint l = andThen (gets alloc) (\<lambda>n.
     andThen (string_loop sprint n (l_first l) []) (\<lambda>values.
     ret (''SinglyLinkedList'' @ [CHR 0x0A] @ strings_Join values '', '')))"

section \<open>Paths in the heap\<close>

fun path :: "(nat \<Rightarrow> 'a element option) \<Rightarrow> nat option \<Rightarrow> nat list \<Rightarrow> nat option \<Rightarrow> bool" where
  "path h p [] q \<longleftrightarrow> p = q"
| "path h p (a # as) q \<longleftrightarrow> p = Some a \<and> (\<exists>c. h a = Some c \<and> path h (el_next c) as q)"

definition vals_at :: "(nat \<Rightarrow> 'a element option) \<Rightarrow> nat list \<Rightarrow> 'a list" where
  "vals_at h as = map (\<lambda>a. el_value (the (h a))) as"

text \<open>
  \<open>lrep s l as xs\<close>: the header \<open>l\<close> and the cells at the addresses \<open>as\<close>, in this order,
  represent the values \<open>xs\<close>.
\<close>

definition lrep :: "'a store \<Rightarrow> List \<Rightarrow> nat list \<Rightarrow> 'a list \<Rightarrow> bool" where
  "lrep s l as xs \<longleftrightarrow> path (cells s) (l_first l) as None \<and> distinct as \<and> vals_at (cells s) as = xs \<and>
     l_size l = int (length as) \<and> l_last l = (if as = [] then None else Some (as ! (length as - 1))) \<and>
     (\<forall>a\<in>set as. a < alloc s)"

text \<open>\<open>only A s s'\<close>: of the cells in use before, at most those at \<open>A\<close> have changed.\<close>

definition only :: "nat set \<Rightarrow> 'a store \<Rightarrow> 'a store \<Rightarrow> bool" where
  "only A s s' \<longleftrightarrow> alloc s \<le> alloc s' \<and> (\<forall>a. a \<notin> A \<longrightarrow> a < alloc s \<longrightarrow> cells s' a = cells s a)"

text \<open>What an operation on the list at \<open>as\<close> does: the header it returns represents \<open>ys\<close>.\<close>

definition updates :: "nat list \<Rightarrow> 'a store \<Rightarrow> List outcome \<times> 'a store \<Rightarrow> 'a list \<Rightarrow> bool" where
  "updates as s run ys \<longleftrightarrow> (\<exists>l' s' as'. run = (Done l', s') \<and> lrep s' l' as' ys \<and> only (set as) s s' \<and>
     set as' \<subseteq> set as \<union> {alloc s..<alloc s'})"

lemma lrepI:
  assumes "path (cells s) (l_first l) as None" and "distinct as" and "vals_at (cells s) as = xs"
    and "l_size l = int (length as)" and "l_last l = (if as = [] then None else Some (as ! (length as - 1)))"
    and "\<And>a. a \<in> set as \<Longrightarrow> a < alloc s"
  shows "lrep s l as xs"
  using assms by (simp add: lrep_def)

lemma lrepD:
  assumes "lrep s l as xs"
  shows "path (cells s) (l_first l) as None" and "distinct as" and "vals_at (cells s) as = xs"
    and "l_size l = int (length as)" and "l_last l = (if as = [] then None else Some (as ! (length as - 1)))"
    and "a \<in> set as \<Longrightarrow> a < alloc s"
  using assms by (simp_all add: lrep_def)

lemma path_append: "path h p (as @ bs) q \<longleftrightarrow> (\<exists>r. path h p as r \<and> path h r bs q)"
  by (induction as arbitrary: p) auto

lemma path_frame: "(\<And>a. a \<in> set as \<Longrightarrow> h' a = h a) \<Longrightarrow> path h' p as q = path h p as q"
  by (induction as arbitrary: p) auto

lemma vals_frame: "(\<And>a. a \<in> set as \<Longrightarrow> h' a = h a) \<Longrightarrow> vals_at h' as = vals_at h as"
  by (auto simp: vals_at_def)

lemma path_upd [simp]: "a \<notin> set as \<Longrightarrow> path (h(a := c)) p as q = path h p as q"
  by (rule path_frame) auto

lemma vals_upd [simp]: "a \<notin> set as \<Longrightarrow> vals_at (h(a := c)) as = vals_at h as"
  by (rule vals_frame) auto

lemma vals_simps [simp]: "vals_at h [] = []" "vals_at h (a # as) = el_value (the (h a)) # vals_at h as"
  "vals_at h (as @ bs) = vals_at h as @ vals_at h bs" "length (vals_at h as) = length as"
  by (simp_all add: vals_at_def)

lemma vals_nth [simp]: "i < length as \<Longrightarrow> vals_at h as ! i = el_value (the (h (as ! i)))"
  by (simp add: vals_at_def)

lemma path_cell: "path h p as q \<Longrightarrow> a \<in> set as \<Longrightarrow> \<exists>c. h a = Some c"
  by (induction as arbitrary: p) auto

text \<open>Redirecting the last pointer of a path, and changing values on it.\<close>

lemma path_redirect:
  assumes "path h p (as @ [b]) q" and "b \<notin> set as" and "h b = Some c"
  shows "path (h(b \<mapsto> c\<lparr>el_next := r\<rparr>)) p (as @ [b]) r"
  using assms by (auto simp: path_append)

lemma path_set_value:
  assumes "path h p as q" and "h a = Some c"
  shows "path (h(a \<mapsto> c\<lparr>el_value := v\<rparr>)) p as q"
  using assms by (induction as arbitrary: p) auto

lemma vals_set_next:
  assumes "h a = Some c" shows "vals_at (h(a \<mapsto> c\<lparr>el_next := r\<rparr>)) as = vals_at h as"
  using assms by (auto simp: vals_at_def)

lemma vals_set_value:
  assumes "distinct as" and "i < length as" and "h (as ! i) = Some c"
  shows "vals_at (h(as ! i \<mapsto> c\<lparr>el_value := v\<rparr>)) as = (vals_at h as)[i := v]"
  using assms by (intro nth_equalityI) (auto simp: vals_at_def nth_list_update nth_eq_iff_index_eq)

lemma load_Some [simp]: "cells s a = Some c \<Longrightarrow> load (Some a) s = (Done c, s)"
  by (simp add: load_def)

lemma load_None [simp]: "load None s = (Panic NilDeref, s)"
  by (simp add: load_def)

lemma set_cell_Some [simp]: "cells s a = Some c \<Longrightarrow>
    set_cell (Some a) f s = (Done (), s\<lparr>cells := (cells s)(a \<mapsto> f c)\<rparr>)"
  by (simp add: set_cell_def)

lemma set_cell_None [simp]: "set_cell None f s = (Panic NilDeref, s)"
  by (simp add: set_cell_def)

lemma new_element_apply [simp]: "new_element v n s = (Done (alloc s),
     s\<lparr>alloc := alloc s + 1, cells := (cells s)(alloc s \<mapsto> \<lparr>el_value = v, el_next = n\<rparr>)\<rparr>)"
  by (simp add: new_element_def)

lemma only_refl [simp]: "only A s s"
  by (simp add: only_def)

lemma only_mono: "only A s t \<Longrightarrow> A \<subseteq> B \<Longrightarrow> only B s t"
  by (auto simp: only_def)

lemma updatesI: "run = (Done l', s') \<Longrightarrow> lrep s' l' as' ys \<Longrightarrow> only (set as) s s' \<Longrightarrow>
    set as' \<subseteq> set as \<union> {alloc s..<alloc s'} \<Longrightarrow> updates as s run ys"
  by (auto simp: updates_def)

lemma only_trans:
  assumes "only A s s1" and "only B s1 s2" and "B \<subseteq> A \<union> {alloc s..}"
  shows "only A s s2"
  using assms by (auto simp: only_def) (metis UnE atLeast_iff linorder_not_less order_less_le_trans subsetD)

lemma lrep_frame:
  assumes "lrep s l as xs" and "only A s s'" and "set as \<inter> A = {}"
  shows "lrep s' l as xs"
proof -
  have "cells s' a = cells s a" if "a \<in> set as" for a
    using assms that by (auto simp: lrep_def only_def)
  with assms path_frame [of as "cells s'" "cells s"] vals_frame [of as "cells s'" "cells s"]
  show ?thesis by (auto simp: lrep_def only_def intro: order_less_le_trans)
qed

lemma lrep_length: "lrep s l as xs \<Longrightarrow> length xs = length as \<and> l_size l = int (length xs)"
  by (auto simp: lrep_def)

lemma walk_path:
  assumes "path (cells s) p as q" and "n < length as"
  shows "walk n b p s = (Done (if n = 0 then b else Some (as ! (n - 1)), Some (as ! n)), s)"
  using assms
proof (induction n arbitrary: b p as)
  case 0
  then show ?case by (cases as) auto
next
  case (Suc n)
  then obtain a bs c where as: "as = a # bs" "p = Some a" "cells s a = Some c" "path (cells s) (el_next c) bs q"
    by (cases as) auto
  with Suc.IH [OF as(4), of "Some a"] Suc.prems(2) show ?case by (cases n) auto
qed

lemma path_nth:
  assumes "path h p as q" and "i < length as"
  shows "\<exists>c. h (as ! i) = Some c"
  using assms path_cell nth_mem by metis

lemma lrep_first: "lrep s l as xs \<Longrightarrow> l_first l = (if as = [] then None else Some (hd as))"
  by (cases as) (auto simp: lrep_def)

lemma lrep_split:
  assumes "lrep s l as xs" and "i < length as"
  obtains c where "cells s (as ! i) = Some c"
    and "el_next c = (if Suc i < length as then Some (as ! Suc i) else None)" and "el_value c = xs ! i"
proof -
  have p: "path (cells s) (l_first l) (take i as @ as ! i # drop (Suc i) as) None"
    using assms by (simp add: lrep_def flip: id_take_nth_drop)
  then obtain c where c: "cells s (as ! i) = Some c" "path (cells s) (el_next c) (drop (Suc i) as) None"
    by (auto simp: path_append)
  have "el_next c = (if Suc i < length as then Some (as ! Suc i) else None)"
  proof (cases "Suc i < length as")
    case True
    then have "drop (Suc i) as = as ! Suc i # drop (Suc (Suc i)) as" by (simp add: Cons_nth_drop_Suc)
    with c(2) True show ?thesis by simp
  next
    case False
    with c(2) show ?thesis by simp
  qed
  moreover have "el_value c = xs ! i" using assms c(1) by (auto simp: lrep_def)
  ultimately show thesis using that c by blast
qed

lemma updates_trans:
  assumes "only (set as) s t" and "set bs \<subseteq> set as \<union> {alloc s..<alloc t}" and "updates bs t run ys"
  shows "updates as s run ys"
proof -
  obtain l' s' as' where r: "run = (Done l', s')" "lrep s' l' as' ys" "only (set bs) t s'"
    "set as' \<subseteq> set bs \<union> {alloc t..<alloc s'}" using assms(3) by (auto simp: updates_def)
  have "only (set as) s s'" using assms(2) by (intro only_trans [OF assms(1) r(3)]) auto
  moreover have "set as' \<subseteq> set as \<union> {alloc s..<alloc s'}"
  proof
    fix a assume "a \<in> set as'"
    then consider "a \<in> set as" | "alloc s \<le> a \<and> a < alloc t" | "alloc t \<le> a \<and> a < alloc s'"
      using r(4) assms(2) by fastforce
    then show "a \<in> set as \<union> {alloc s..<alloc s'}"
      using r(3) assms(1) by cases (auto simp: only_def)
  qed
  ultimately show ?thesis using r by (auto simp: updates_def)
qed

lemma updates_same: "lrep s l as xs \<Longrightarrow> updates as s (Done l, s) xs"
  by (auto simp: updates_def)

section \<open>Every operation refines its list counterpart\<close>

lemma lrep_emptyList: "lrep s emptyList [] []"
  by (simp add: lrep_def emptyList_def)

lemma list_Clear_rep: "lrep s (list_Clear l) [] []"
  by (simp add: lrep_def list_Clear_def)

text \<open>Linking a fresh cell behind the last one.\<close>

lemma lrep_snoc:
  assumes rep: "lrep s l as xs" and "as \<noteq> []"
  obtains t where "andThen (new_element v None) (\<lambda>a. andThen (set_next (l_last l) (Some a)) (\<lambda>_. f a)) s = f (alloc s) t"
    and "lrep t (l\<lparr>l_last := Some (alloc s), l_size := l_size l + 1\<rparr>) (as @ [alloc s]) (xs @ [v])"
    and "only (set as) s t" and "alloc t = Suc (alloc s)"
proof -
  obtain bs b where as: "as = bs @ [b]" using assms(2) by (cases as rule: rev_cases) auto
  let ?n = "alloc s"
  have l: "l_last l = Some b" and b: "b < ?n" and d: "b \<notin> set bs" "?n \<notin> set bs" "?n \<noteq> b"
    using rep as by (auto simp: lrep_def)
  obtain c where c: "cells s b = Some c" using rep as by (auto simp: lrep_def path_append)
  let ?h = "(cells s)(?n \<mapsto> \<lparr>el_value = v, el_next = None\<rparr>)"
  let ?t = "s\<lparr>alloc := ?n + 1, cells := ?h(b \<mapsto> c\<lparr>el_next := Some ?n\<rparr>)\<rparr>"
  have hb: "?h b = Some c" using c b by simp
  have p: "path ?h (l_first l) (bs @ [b]) None" using rep as d by (simp add: lrep_def)
  have pt: "path (cells ?t) (l_first l) ((bs @ [b]) @ [?n]) None"
    unfolding path_append [of _ _ "bs @ [b]"]
  proof (intro exI conjI)
    show "path (cells ?t) (l_first l) (bs @ [b]) (Some ?n)"
      using path_redirect [where h = ?h, OF p d(1) hb, of "Some ?n"] by simp
    show "path (cells ?t) (Some ?n) [?n] None" using d(3) by simp
  qed
  have vt: "vals_at (cells ?t) (as @ [?n]) = xs @ [v]"
    using lrepD(3) [OF rep] as d c by simp
  have "lrep ?t (l\<lparr>l_last := Some ?n, l_size := l_size l + 1\<rparr>) (as @ [?n]) (xs @ [v])"
  proof (rule lrepI [OF _ _ vt])
    show "path (cells ?t) (l_first (l\<lparr>l_last := Some ?n, l_size := l_size l + 1\<rparr>)) (as @ [?n]) None"
      using pt as by simp
    show "distinct (as @ [?n])" using lrepD(2,6) [OF rep] by auto
    show "a < alloc ?t" if "a \<in> set (as @ [?n])" for a
      using lrepD(6) [OF rep, of a] that by auto
  qed (use lrepD(4) [OF rep] in simp_all)
  moreover have "only (set as) s ?t" using as by (auto simp: only_def)
  moreover have "andThen (new_element v None) (\<lambda>a. andThen (set_next (l_last l) (Some a)) (\<lambda>_. f a)) s = f ?n ?t"
    using hb l by simp
  ultimately show thesis using that by simp
qed

lemma list_Add_updates: "lrep s l as xs \<Longrightarrow> updates as s (list_Add l vs s) (xs @ vs)"
proof (induction vs arbitrary: s l as xs)
  case Nil
  then show ?case by (simp add: updates_same)
next
  case (Cons v vs)
  show ?case
  proof (cases "as = []")
    case True
    let ?n = "alloc s"
    let ?t = "s\<lparr>alloc := ?n + 1, cells := (cells s)(?n \<mapsto> \<lparr>el_value = v, el_next = None\<rparr>)\<rparr>"
    let ?l = "l\<lparr>l_first := Some ?n, l_last := Some ?n, l_size := l_size l + 1\<rparr>"
    have e: "xs = []" "l_size l = 0" using Cons.prems True by (auto simp: lrep_def)
    have "lrep ?t ?l [?n] [v]" using e by (simp add: lrep_def)
    from Cons.IH [OF this] have "updates as s (list_Add ?l vs ?t) (xs @ v # vs)"
      using True e by (intro updates_trans [of as s ?t "[?n]"]) (auto simp: only_def)
    then show ?thesis using e by simp
  next
    case False
    then have z: "l_size l \<noteq> 0" using Cons.prems by (auto simp: lrep_def)
    obtain t where t: "andThen (new_element v None) (\<lambda>a. andThen (set_next (l_last l) (Some a))
        (\<lambda>_. list_Add (l\<lparr>l_last := Some a, l_size := l_size l + 1\<rparr>) vs)) s =
        list_Add (l\<lparr>l_last := Some (alloc s), l_size := l_size l + 1\<rparr>) vs t"
      "lrep t (l\<lparr>l_last := Some (alloc s), l_size := l_size l + 1\<rparr>) (as @ [alloc s]) (xs @ [v])"
      "only (set as) s t" "alloc t = Suc (alloc s)"
      using lrep_snoc [OF Cons.prems False, of v "\<lambda>a. list_Add (l\<lparr>l_last := Some a, l_size := l_size l + 1\<rparr>) vs"]
      by blast
    have "updates as s (list_Add (l\<lparr>l_last := Some (alloc s), l_size := l_size l + 1\<rparr>) vs t) (xs @ v # vs)"
      using updates_trans [OF t(3) _ Cons.IH [OF t(2)]] t(4) by auto
    then show ?thesis using t(1) z by simp
  qed
qed

lemma list_New_updates: "updates [] s (list_New vs s) vs"
  using list_Add_updates [OF lrep_emptyList, of s vs] updates_same [OF lrep_emptyList, of s]
  by (auto simp: list_New_def)

lemma prepend_loop_updates: "lrep s l as xs \<Longrightarrow> updates as s (prepend_loop l vs s) (rev vs @ xs)"
proof (induction vs arbitrary: s l as xs)
  case Nil
  then show ?case by (simp add: updates_same)
next
  case (Cons v vs)
  let ?n = "alloc s"
  let ?t = "s\<lparr>alloc := ?n + 1, cells := (cells s)(?n \<mapsto> \<lparr>el_value = v, el_next = l_first l\<rparr>)\<rparr>"
  let ?l = "l\<lparr>l_first := Some ?n, l_last := (if l_size l = 0 then Some ?n else l_last l), l_size := l_size l + 1\<rparr>"
  have n: "?n \<notin> set as" using Cons.prems by (auto simp: lrep_def)
  have "lrep ?t ?l (?n # as) (v # xs)"
    using Cons.prems n by (auto simp: lrep_def nth_Cons')
  from Cons.IH [OF this] have "updates as s (prepend_loop ?l vs ?t) (rev (v # vs) @ xs)"
    by (intro updates_trans [of as s ?t "?n # as"]) (auto simp: only_def)
  then show ?case by simp
qed

lemma list_Get_spec:
  assumes "lrep s l as xs"
  shows "list_Get emptyT l i s =
    (Done (if 0 \<le> i \<and> i < int (length xs) then (xs ! nat i, True) else (emptyT, False)), s)"
proof (cases "0 \<le> i \<and> i < int (length xs)")
  case True
  then have n: "nat i < length as" using assms lrep_length by (metis nat_less_iff)
  obtain c where "cells s (as ! nat i) = Some c" "el_value c = xs ! nat i"
    using lrep_split [OF assms n] by blast
  moreover have "path (cells s) (l_first l) as None" using assms by (simp add: lrep_def)
  ultimately show ?thesis
    using True n walk_path [of s "l_first l" as None "nat i" None] lrep_length [OF assms]
    by (auto simp: list_Get_def withinRange_def)
next
  case False
  then show ?thesis using lrep_length [OF assms] by (auto simp: list_Get_def withinRange_def)
qed

text \<open>Segments: the cells at \<open>as\<close> lead from \<open>p\<close> to \<open>q\<close> and hold \<open>xs\<close>.\<close>

definition chain :: "'a store \<Rightarrow> nat option \<Rightarrow> nat list \<Rightarrow> 'a list \<Rightarrow> nat option \<Rightarrow> bool" where
  "chain s p as xs q \<longleftrightarrow> path (cells s) p as q \<and> distinct as \<and> vals_at (cells s) as = xs \<and>
     (\<forall>a\<in>set as. a < alloc s)"

lemma lrep_chain: "lrep s l as xs \<longleftrightarrow> chain s (l_first l) as xs None \<and> l_size l = int (length as) \<and>
    l_last l = (if as = [] then None else Some (as ! (length as - 1)))"
  by (auto simp: lrep_def chain_def)

lemma chain_append:
  "chain s p (as @ bs) zs q \<longleftrightarrow> (\<exists>xs ys r. zs = xs @ ys \<and> chain s p as xs r \<and> chain s r bs ys q \<and>
     set as \<inter> set bs = {})"
  by (auto simp: chain_def path_append) blast

lemma chain_frame:
  assumes "chain s p as xs q" and "only A s t" and "set as \<inter> A = {}"
  shows "chain t p as xs q"
proof -
  have "cells t a = cells s a" if "a \<in> set as" for a
    using assms that by (auto simp: chain_def only_def)
  with assms path_frame [of as "cells t" "cells s"] vals_frame [of as "cells t" "cells s"]
  show ?thesis by (auto simp: chain_def only_def intro: order_less_le_trans)
qed

lemma chain_cell: "chain s p as xs q \<Longrightarrow> a \<in> set as \<Longrightarrow> \<exists>c. cells s a = Some c"
  by (auto simp: chain_def dest: path_cell)

lemma chain_length: "chain s p as xs q \<Longrightarrow> length as = length xs"
  by (auto simp: chain_def)

text \<open>Pointing the end of one segment at the start of another.\<close>

lemma relink:
  assumes 1: "chain s p (cs @ [e]) ys q" and 2: "chain s r ds zs u" and dis: "set (cs @ [e]) \<inter> set ds = {}"
  obtains t where "set_next (Some e) r s = (Done (), t)" and "chain t p (cs @ [e] @ ds) (ys @ zs) u"
    and "only {e} s t" and "alloc t = alloc s"
proof -
  obtain c where c: "cells s e = Some c" using chain_cell [OF 1, of e] by auto
  let ?t = "s\<lparr>cells := (cells s)(e \<mapsto> c\<lparr>el_next := r\<rparr>)\<rparr>"
  have o: "only {e} s ?t" by (auto simp: only_def)
  have e: "e \<notin> set cs" "path (cells s) p (cs @ [e]) q" using 1 by (auto simp: chain_def)
  have "path (cells ?t) p (cs @ [e]) r" using path_redirect [OF e(2,1) c, of r] by simp
  moreover have "vals_at (cells ?t) (cs @ [e]) = ys"
    using 1 vals_set_next [of "cells s" e c r "cs @ [e]"] c by (auto simp: chain_def)
  ultimately have "chain ?t p (cs @ [e]) ys r" using 1 by (simp add: chain_def)
  moreover have "chain ?t r ds zs u" using chain_frame [OF 2 o] dis by auto
  ultimately have "chain ?t p ((cs @ [e]) @ ds) (ys @ zs) u" using dis chain_append by blast
  with o c that [of ?t] show thesis by simp
qed

lemma list_Remove_updates:
  assumes rep: "lrep s l as xs"
  shows "updates as s (list_Remove l i s)
    (if 0 \<le> i \<and> i < int (length xs) then take (nat i) xs @ drop (Suc (nat i)) xs else xs)"
proof (cases "0 \<le> i \<and> i < int (length xs)")
  case False
  then have "\<not> withinRange l i" using lrep_length [OF rep] by (auto simp: withinRange_def)
  then show ?thesis using updates_same [OF rep] False by (auto simp: list_Remove_def)
next
  case True
  define n where "n = nat i"
  have n: "n < length as" "withinRange l i"
    using True lrep_length [OF rep] by (auto simp: withinRange_def n_def)
  obtain c where c: "cells s (as ! n) = Some c"
    "el_next c = (if Suc n < length as then Some (as ! Suc n) else None)" using lrep_split [OF rep n(1)] by blast
  note d = lrepD [OF rep]
  have w: "walk n None (l_first l) s = (Done (if n = 0 then None else Some (as ! (n - 1)), Some (as ! n)), s)"
    using walk_path [OF d(1) n(1)] .
  have f: "l_first l = Some (as ! 0)" using d(1) n(1) by (cases as) auto
  have "length as = 1 \<or> length as > 1" using n(1) by linarith
  then consider "length as = 1" | "length as > 1" "n = 0" | m where "length as > 1" "n = Suc m"
    by (cases n) auto
  then show ?thesis
  proof cases
    case 1
    then have "xs \<noteq> []" "length xs = 1" "n = 0" using n lrep_length [OF rep] by auto
    then have "take n xs @ drop (Suc n) xs = []" by (cases xs) auto
    then show ?thesis using 1 n True d(4) list_Clear_rep [of s l]
      by (auto simp: list_Remove_def updates_def n_def)
  next
    case 2
    then obtain a b bs where as: "as = a # b # bs" by (metis One_nat_def Suc_length_conv gr0_implies_Suc less_imp_Suc_add plus_1_eq_Suc length_Suc_conv n(1))
    let ?l = "l\<lparr>l_first := Some b, l_size := l_size l - 1\<rparr>"
    have "lrep s ?l (b # bs) (drop 1 xs)"
      using rep as by (auto simp: lrep_def)
    moreover have "l_last l \<noteq> Some a" using d(2,5) as nth_mem [of "length bs" "b # bs"] by auto
    moreover from this have "list_Remove l i s = (Done ?l, s)"
      using 2 n w c f d(4) as by (auto simp: list_Remove_def n_def Let_def)
    ultimately show ?thesis using True 2 as by (auto simp: updates_def n_def)
  next
    case (3 m)
    have len0: "0 < length as" "m < length as" using 3 n(1) by linarith+
    then have m: "m < length as" "as ! n \<noteq> as ! m" "as ! n \<noteq> as ! 0"
      using 3(2) n(1) nth_eq_iff_index_eq [OF d(2), of n m] nth_eq_iff_index_eq [OF d(2), of n 0] by simp_all
    let ?cs = "take m as" and ?ds = "drop (Suc n) as"
    have as: "as = (?cs @ [as ! m]) @ [as ! n] @ ?ds"
      using n(1) 3(2) by (simp add: Cons_nth_drop_Suc take_Suc_conv_app_nth flip: id_take_nth_drop)
    have "chain s (l_first l) as xs None" using rep by (simp add: lrep_chain)
    then obtain ys1 ys2 zs r r2 where ch: "chain s (l_first l) (?cs @ [as ! m]) ys1 r" "chain s r [as ! n] ys2 r2"
      "chain s r2 ?ds zs None" "xs = ys1 @ ys2 @ zs" "set (?cs @ [as ! m]) \<inter> set ([as ! n] @ ?ds) = {}"
      "set [as ! n] \<inter> set ?ds = {}"
      using chain_append [of s "l_first l" "?cs @ [as ! m]" "[as ! n] @ ?ds" xs None] chain_append [of s _ "[as ! n]" ?ds] as
      by metis
    have r2: "r2 = el_next c" using ch(2) c(1) by (auto simp: chain_def)
    obtain t where t: "set_next (Some (as ! m)) (el_next c) s = (Done (), t)"
      "chain t (l_first l) (?cs @ [as ! m] @ ?ds) (ys1 @ zs) None" "only {as ! m} s t" "alloc t = alloc s"
      using relink [OF ch(1) ch(3)] ch(5) r2 by auto
    let ?l = "(if Some (as ! n) = l_last l then l\<lparr>l_last := Some (as ! m)\<rparr> else l)\<lparr>l_size := l_size l - 1\<rparr>"
    have run: "list_Remove l i s = (Done ?l, t)"
      using 3 n w c f d(4) m t(1) by (auto simp: list_Remove_def n_def Let_def)
    have len: "length ys1 = n" "length ys2 = 1"
      using chain_length [OF ch(1)] chain_length [OF ch(2)] 3(2) m(1) by auto
    then have ys: "take n xs @ drop (Suc n) xs = ys1 @ zs" using ch(4) by simp
    have "lrep t ?l (?cs @ [as ! m] @ ?ds) (ys1 @ zs)"
      unfolding lrep_chain using t(2) d(4,5) n(1) 3 m(1)
      by (auto simp: nth_append min_def nth_eq_iff_index_eq [OF d(2)] Suc_diff_Suc)
    then have "updates as s (list_Remove l i s) (ys1 @ zs)"
      using m(1) by (intro updatesI [OF run] only_mono [OF t(3)]) (auto dest: in_set_takeD in_set_dropD)
    then show ?thesis using ys True by (simp add: n_def)
  qed
qed

text \<open>Removing the first element writes no cell.\<close>

lemma list_Remove_front: "list_Remove l 0 s = (Done l', t) \<Longrightarrow> t = s"
  by (auto simp: list_Remove_def Let_def load_def andThen_eq_Done_iff split: if_splits option.splits)

lemma list_Pop_spec:
  assumes rep: "lrep s l as (x # xs)"
  shows "\<exists>l' s' as'. list_Pop emptyT l s = (Done ((x, True), l'), s') \<and> lrep s' l' as' xs \<and>
     only (set as) s s' \<and> set as' \<subseteq> set as \<union> {alloc s..<alloc s'}"
proof -
  obtain l' s' as' where r: "list_Remove l 0 s = (Done l', s')" "lrep s' l' as' xs" "only (set as) s s'"
    "set as' \<subseteq> set as \<union> {alloc s..<alloc s'}"
    using list_Remove_updates [OF rep, of 0] by (auto simp: updates_def)
  have len: "0 < length as" "l_size l \<noteq> 0" using lrep_length [OF rep] by auto
  then have f: "l_first l = Some (as ! 0)" using lrepD(1) [OF rep] by (cases as) auto
  obtain c where c: "cells s (as ! 0) = Some c" "el_value c = x"
    using lrep_split [OF rep len(1)] by force
  have "s' = s" using list_Remove_front [OF r(1)] .
  then have "list_Pop emptyT l s = (Done ((x, True), l'), s')"
    using len(2) r(1) c f by (simp add: list_Pop_def)
  with r show ?thesis by blast
qed

lemma list_Pop_empty: "lrep s l as [] \<Longrightarrow> list_Pop emptyT l s = (Done ((emptyT, False), l), s)"
  using lrep_length [of s l as "[]"] by (simp add: list_Pop_def)

lemma lrep_alloc: "lrep s l as xs \<Longrightarrow> length as \<le> alloc s"
  using lrepD(2,6) by (metis card_lessThan distinct_card finite_lessThan lessThan_iff subsetI card_mono)

lemma values_loop_path:
  "path (cells s) p as None \<Longrightarrow> length as \<le> fuel \<Longrightarrow> e + length as = length out \<Longrightarrow>
   values_loop fuel e p out s = (Done (take e out @ vals_at (cells s) as), s)"
proof (induction as arbitrary: fuel e p out)
  case Nil
  then show ?case by simp
next
  case (Cons a as)
  then obtain c k where c: "p = Some a" "cells s a = Some c" "path (cells s) (el_next c) as None" "fuel = Suc k"
    by (cases fuel) auto
  have "values_loop k (Suc e) (el_next c) (out[e := el_value c]) s =
      (Done (take (Suc e) (out[e := el_value c]) @ vals_at (cells s) as), s)"
    using Cons.prems c by (intro Cons.IH) auto
  then show ?case using Cons.prems(3) c by (simp add: take_Suc_conv_app_nth)
qed

lemma list_Values_spec: "lrep s l as xs \<Longrightarrow> list_Values emptyT l s = (Done xs, s)"
  using lrep_alloc [of s l as xs] lrepD [of s l as xs]
  by (simp add: list_Values_def values_loop_path [of s "l_first l" as])

lemma string_loop_path:
  "path (cells s) p as None \<Longrightarrow> length as \<le> fuel \<Longrightarrow>
   string_loop sprint fuel p out s = (Done (out @ map sprint (vals_at (cells s) as)), s)"
proof (induction as arbitrary: fuel p out)
  case (Cons a as)
  then obtain c k where "p = Some a" "cells s a = Some c" "path (cells s) (el_next c) as None" "fuel = Suc k"
    by (cases fuel) auto
  with Cons show ?case by simp
qed simp

lemma list_String_spec: "lrep s l as xs \<Longrightarrow>
  list_String sprint l s = (Done (''SinglyLinkedList'' @ [CHR 0x0A] @ strings_Join (map sprint xs) '', ''), s)"
  using lrep_alloc [of s l as xs] lrepD [of s l as xs]
  by (simp add: list_String_def string_loop_path [of s "l_first l" as])

text \<open>Overwriting the value of one cell.\<close>

lemma lrep_set_value:
  assumes rep: "lrep s l as xs" and i: "i < length as"
  obtains t where "set_value (Some (as ! i)) v s = (Done (), t)" and "lrep t l as (xs[i := v])"
    and "only (set as) s t" and "alloc t = alloc s"
proof -
  note d = lrepD [OF rep]
  obtain c where c: "cells s (as ! i) = Some c" using path_nth [OF d(1) i] by blast
  let ?t = "s\<lparr>cells := (cells s)(as ! i \<mapsto> c\<lparr>el_value := v\<rparr>)\<rparr>"
  have "lrep ?t l as (xs[i := v])"
    using d path_set_value [OF d(1) c, of v] vals_set_value [where h = "cells s", OF d(2) i c, of v] by (intro lrepI) auto
  moreover have "only (set as) s ?t" using i by (auto simp: only_def)
  ultimately show thesis using that [of ?t] c by simp
qed

lemma list_Set_updates:
  assumes rep: "lrep s l as xs"
  shows "updates as s (list_Set l i v s)
    (if 0 \<le> i \<and> i < int (length xs) then xs[nat i := v] else if i = int (length xs) then xs @ [v] else xs)"
proof (cases "0 \<le> i \<and> i < int (length xs)")
  case True
  then have n: "nat i < length as" "withinRange l i" using lrep_length [OF rep] by (auto simp: withinRange_def)
  obtain t where t: "set_value (Some (as ! nat i)) v s = (Done (), t)" "lrep t l as (xs[nat i := v])"
    "only (set as) s t" by (rule lrep_set_value [OF rep n(1)])
  have "list_Set l i v s = (Done l, t)"
    using n t(1) walk_path [OF lrepD(1) [OF rep] n(1), of None] by (simp add: list_Set_def)
  then show ?thesis using True t by (auto intro!: updatesI)
next
  case False
  then show ?thesis
    using updates_same [OF rep] list_Add_updates [OF rep, of "[v]"] lrep_length [OF rep]
    by (auto simp: list_Set_def withinRange_def)
qed

text \<open>The search loop of \<open>Swap\<close> after \<open>e\<close> rounds: it has seen the indices below \<open>e\<close>.\<close>

lemma swap_loop_finds:
  assumes rep: "lrep s l as xs" and ij: "i < length as" "j < length as" "i \<noteq> j"
    and "e + k = Suc (max i j)" and "k < fuel"
  shows "swap_loop fuel (int e) (if e < length as then Some (as ! e) else None) (int i) (int j)
     (if i < e then Some (as ! i) else None) (if j < e then Some (as ! j) else None) s =
     (Done (Some (as ! i), Some (as ! j)), s)"
  using assms(5,6)
proof (induction k arbitrary: e fuel)
  case 0
  then show ?case by (cases fuel) (auto simp: max_def split: if_splits)
next
  case (Suc k)
  obtain f where f: "fuel = Suc f" using Suc.prems(2) by (cases fuel) auto
  have e: "e < length as" "e \<le> max i j" using Suc.prems(1) ij by auto
  obtain c where c: "cells s (as ! e) = Some c"
    "el_next c = (if Suc e < length as then Some (as ! Suc e) else None)"
    using lrep_split [OF rep e(1)] by blast
  have ih: "swap_loop f (int (Suc e)) (el_next c) (int i) (int j) (if i < Suc e then Some (as ! i) else None)
      (if j < Suc e then Some (as ! j) else None) s = (Done (Some (as ! i), Some (as ! j)), s)"
    using Suc.IH [of "Suc e" f] Suc.prems f c(2) by simp
  have "\<not> (i < e \<and> j < e)" using e(2) by auto
  then show ?case using f e c(1) ih ij(3) by (auto simp: less_Suc_eq add.commute)
qed

lemma list_Swap_spec:
  assumes rep: "lrep s l as xs"
  shows "\<exists>t. list_Swap l i j s = (Done (), t) \<and> only (set as) s t \<and> alloc t = alloc s \<and>
    lrep t l as (if 0 \<le> i \<and> i < int (length xs) \<and> 0 \<le> j \<and> j < int (length xs)
      then xs[nat i := xs ! nat j, nat j := xs ! nat i] else xs)"
proof (cases "withinRange l i \<and> withinRange l j \<and> i \<noteq> j")
  case False
  then show ?thesis using rep lrep_length [OF rep]
    by (auto simp: list_Swap_def withinRange_def list_update_swap)
next
  case True
  let ?i = "nat i" and ?j = "nat j"
  have b: "?i < length as" "?j < length as" "?i \<noteq> ?j" "i = int ?i" "j = int ?j"
    using True lrep_length [OF rep] by (auto simp: withinRange_def)
  have f: "l_first l = (if 0 < length as then Some (as ! 0) else None)"
    using lrepD(1) [OF rep] by (cases as) auto
  have "max ?i ?j < length as" using b by simp
  then have run: "swap_loop (Suc (nat (l_size l))) 0 (l_first l) i j None None s =
      (Done (Some (as ! ?i), Some (as ! ?j)), s)"
    using swap_loop_finds [OF rep b(1-3), of 0 "Suc (max ?i ?j)" "Suc (nat (l_size l))"]
      lrepD(4) [OF rep] b(4,5) f by simp
  obtain ci cj where c: "cells s (as ! ?i) = Some ci" "el_value ci = xs ! ?i"
    "cells s (as ! ?j) = Some cj" "el_value cj = xs ! ?j"
    using lrep_split [OF rep b(1)] lrep_split [OF rep b(2)] by metis
  obtain t1 where t1: "set_value (Some (as ! ?i)) (xs ! ?j) s = (Done (), t1)"
    "lrep t1 l as (xs[?i := xs ! ?j])" "only (set as) s t1" "alloc t1 = alloc s"
    by (rule lrep_set_value [OF rep b(1)])
  obtain t where t: "set_value (Some (as ! ?j)) (xs ! ?i) t1 = (Done (), t)"
    "lrep t l as (xs[?i := xs ! ?j, ?j := xs ! ?i])" "only (set as) t1 t" "alloc t = alloc t1"
    by (rule lrep_set_value [OF t1(2) b(2)])
  have "list_Swap l i j s = (Done (), t)" using True run c t1(1) t(1) by (simp add: list_Swap_def)
  moreover have "only (set as) s t" by (rule only_trans [OF t1(3) t(3)]) auto
  ultimately show ?thesis using t t1 True lrep_length [OF rep] by (auto simp: withinRange_def)
qed

text \<open>The insertion loops extend a segment by fresh cells.\<close>

lemma chain_snoc:
  assumes ch: "chain s p (bs @ [b]) xs q"
  obtains t where "andThen (new_element v None) (\<lambda>a. andThen (set_next (Some b) (Some a)) (\<lambda>_. f a)) s = f (alloc s) t"
    and "chain t p (bs @ [b, alloc s]) (xs @ [v]) None" and "only {b} s t" and "alloc t = Suc (alloc s)"
proof -
  let ?n = "alloc s"
  let ?u = "s\<lparr>alloc := ?n + 1, cells := (cells s)(?n \<mapsto> \<lparr>el_value = v, el_next = None\<rparr>)\<rparr>"
  have o: "only {} s ?u" by (auto simp: only_def)
  have n: "?n \<notin> set (bs @ [b])" using ch by (auto simp: chain_def)
  have 1: "chain ?u p (bs @ [b]) xs q" using chain_frame [OF ch o] by simp
  have 2: "chain ?u (Some ?n) [?n] [v] None" by (simp add: chain_def)
  obtain t where t: "set_next (Some b) (Some ?n) ?u = (Done (), t)" "chain t p (bs @ [b] @ [?n]) (xs @ [v]) None"
    "only {b} ?u t" "alloc t = alloc ?u"
    using relink [OF 1 2] n by auto
  have "only {b} s t" by (rule only_trans [OF only_mono [OF o] t(3)]) auto
  then show thesis using that [of t] t by (simp add: andThen_apply)
qed

lemma insert_after_chain:
  assumes "chain s p (bs @ [b]) xs q"
  shows "\<exists>t cs e r. insert_after (Some b) vs s = (Done (Some e), t) \<and> chain t p (cs @ [e]) (xs @ vs) r \<and>
    cs @ [e] = bs @ b # [alloc s..<alloc t] \<and> only {b} s t"
  using assms
proof (induction vs arbitrary: s bs b xs q)
  case Nil
  have "insert_after (Some b) [] s = (Done (Some b), s) \<and> chain s p (bs @ [b]) (xs @ []) q \<and>
      bs @ [b] = bs @ b # [alloc s..<alloc s] \<and> only {b} s s" using Nil by simp
  then show ?case by blast
next
  case (Cons v vs)
  obtain t1 where t1: "andThen (new_element v None) (\<lambda>a. andThen (set_next (Some b) (Some a)) (\<lambda>_. insert_after (Some a) vs)) s =
      insert_after (Some (alloc s)) vs t1" "chain t1 p ((bs @ [b]) @ [alloc s]) (xs @ [v]) None"
    "only {b} s t1" "alloc t1 = Suc (alloc s)"
    using chain_snoc [OF Cons.prems, of v "\<lambda>a. insert_after (Some a) vs"] by auto
  obtain t cs e r where t: "insert_after (Some (alloc s)) vs t1 = (Done (Some e), t)"
    "chain t p (cs @ [e]) ((xs @ [v]) @ vs) r" "cs @ [e] = (bs @ [b]) @ alloc s # [alloc t1..<alloc t]"
    "only {alloc s} t1 t" using Cons.IH [OF t1(2)] by blast
  have "only {b} s t" by (rule only_trans [OF t1(3) t(4)]) auto
  moreover have "alloc s # [alloc t1..<alloc t] = [alloc s..<alloc t]"
    using t1(4) t(4) by (simp add: only_def upt_conv_Cons)
  then have "cs @ [e] = bs @ b # [alloc s..<alloc t]" using t(3) by simp
  moreover have "insert_after (Some b) (v # vs) s = (Done (Some e), t)"
    by (simp only: insert_after.simps t1(1) t(1))
  moreover have "chain t p (cs @ [e]) (xs @ v # vs) r" using t(2) by simp
  ultimately show ?case by blast
qed

lemma insert_front_after: "insert_front False l (Some b) vs = andThen (insert_after (Some b) vs) (\<lambda>b. ret (l, b))"
proof (induction vs arbitrary: b)
  case Nil
  show ?case by (simp add: fun_eq_iff)
next
  case (Cons v vs)
  show ?case by (simp only: insert_front.simps insert_after.simps andThen_assoc Cons.IH if_False)
qed

lemma chain_disjoint_new:
  "chain s p as xs q \<Longrightarrow> set as \<inter> {alloc s..<n} = {}"
  by (fastforce simp: chain_def)

text \<open>Inserting before the first element needs at least one value: with none, \<open>beforeElement\<close> is nil.\<close>

lemma list_Insert_front:
  assumes rep: "lrep s l as (x # xs)"
  shows "if vs = [] then list_Insert l 0 vs s = (Panic NilDeref, s)
    else updates as s (list_Insert l 0 vs s) (vs @ x # xs)"
proof (cases vs)
  case Nil
  then show ?thesis using lrep_length [OF rep]
    by (simp add: list_Insert_def withinRange_def Let_def)
next
  case (Cons v ws)
  let ?n = "alloc s" and ?l = "l\<lparr>l_size := l_size l + int (length vs)\<rparr>"
  let ?u = "s\<lparr>alloc := ?n + 1, cells := (cells s)(?n \<mapsto> \<lparr>el_value = v, el_next = None\<rparr>)\<rparr>"
  have old: "chain s (l_first l) as (x # xs) None" using rep by (simp add: lrep_chain)
  have o: "only {} s ?u" by (auto simp: only_def)
  have "chain ?u (Some ?n) ([] @ [?n]) [v] None" by (simp add: chain_def)
  from insert_after_chain [OF this, of ws] obtain t cs e r where t:
    "insert_after (Some ?n) ws ?u = (Done (Some e), t)" "chain t (Some ?n) (cs @ [e]) ([v] @ ws) r"
    "cs @ [e] = [] @ ?n # [alloc ?u..<alloc t]" "only {?n} ?u t" by blast
  have o2: "only {} s t" by (rule only_trans [OF o t(4)]) auto
  have new: "cs @ [e] = [?n..<alloc t]" using t(3,4) by (simp add: only_def upt_conv_Cons)
  have old2: "chain t (l_first l) as (x # xs) None" using chain_frame [OF old o2] by simp
  have dis: "set (cs @ [e]) \<inter> set as = {}"
    using chain_disjoint_new [OF old] unfolding new by auto
  obtain u where u: "set_next (Some e) (l_first l) t = (Done (), u)"
    "chain u (Some ?n) (cs @ [e] @ as) (([v] @ ws) @ x # xs) None" "only {e} t u" "alloc u = alloc t"
    by (rule relink [OF t(2) old2 dis])
  have run: "list_Insert l 0 vs s = (Done (?l\<lparr>l_first := Some ?n\<rparr>), u)"
    using Cons lrep_length [OF rep] t(1) u(1)
    by (simp add: list_Insert_def withinRange_def Let_def insert_front_after)
  have e: "?n \<le> e" using new by (metis atLeastLessThan_iff in_set_conv_decomp set_upt)
  have "lrep u (?l\<lparr>l_first := Some ?n\<rparr>) (cs @ [e] @ as) (vs @ x # xs)"
    unfolding lrep_chain using u(2) Cons lrepD(4,5) [OF rep] chain_length [OF t(2)] lrep_length [OF rep]
    by (auto simp: nth_append)
  moreover have "only (set as) s u"
    by (rule only_trans [OF only_mono [OF o2] u(3)]) (use e in auto)
  moreover have "set (cs @ [e] @ as) \<subseteq> set as \<union> {?n..<alloc u}"
    using arg_cong [OF new, of set] u(4) by auto
  ultimately show ?thesis using Cons updatesI [OF run] by simp
qed

lemma list_Insert_middle:
  assumes rep: "lrep s l as xs" and i: "0 < i" "i < int (length xs)"
  shows "updates as s (list_Insert l i vs s) (take (nat i) xs @ vs @ drop (nat i) xs)"
proof -
  obtain m where m: "nat i = Suc m" using i(1) by (cases "nat i") auto
  have n: "Suc m < length as" "withinRange l i"
    using i m lrep_length [OF rep] by (auto simp: withinRange_def)
  note d = lrepD [OF rep]
  let ?cs = "take m as" and ?b = "as ! m" and ?ds = "drop (Suc m) as"
  let ?l = "l\<lparr>l_size := l_size l + int (length vs)\<rparr>"
  have as: "as = (?cs @ [?b]) @ ?ds" using n(1) by (simp add: take_Suc_conv_app_nth flip: id_take_nth_drop)
  have "chain s (l_first l) as xs None" using rep by (simp add: lrep_chain)
  then obtain ys zs r where ch: "xs = ys @ zs" "chain s (l_first l) (?cs @ [?b]) ys r" "chain s r ?ds zs None"
    "set (?cs @ [?b]) \<inter> set ?ds = {}" using as chain_append by metis
  have len: "length ys = Suc m" using chain_length [OF ch(2)] n(1) by simp
  obtain c where c: "cells s ?b = Some c" "el_next c = r"
    using ch(2) by (auto simp: chain_def path_append)
  obtain t es e q where t: "insert_after (Some ?b) vs s = (Done (Some e), t)"
    "chain t (l_first l) (es @ [e]) (ys @ vs) q" "es @ [e] = ?cs @ ?b # [alloc s..<alloc t]" "only {?b} s t"
    using insert_after_chain [OF ch(2)] by blast
  have ds: "chain t r ?ds zs None" using chain_frame [OF ch(3) t(4)] ch(4) by auto
  have dis: "set (es @ [e]) \<inter> set ?ds = {}"
    using ch(4) chain_disjoint_new [OF ch(3), of "alloc t"] arg_cong [OF t(3), of set] by auto
  obtain u where u: "set_next (Some e) r t = (Done (), u)"
    "chain u (l_first l) (es @ [e] @ ?ds) ((ys @ vs) @ zs) None" "only {e} t u" "alloc u = alloc t"
    by (rule relink [OF t(2) ds dis])
  have f: "l_first l = Some (as ! 0)" "as ! Suc m \<noteq> as ! 0"
    using d(1) n(1) nth_eq_iff_index_eq [OF d(2) n(1), of 0] by (cases as, simp_all)+
  have run: "list_Insert l i vs s = (Done ?l, u)"
    using n t(1) u(1) c f walk_path [OF d(1) n(1), of None] m
    by (simp add: list_Insert_def Let_def)
  have es: "set (es @ [e]) \<subseteq> set as \<union> {alloc s..<alloc t}"
    unfolding t(3) using n(1) by (auto dest: in_set_takeD)
  then have e: "e \<in> set as \<union> {alloc s..}" by auto
  have "only (set as) s u"
    by (rule only_trans [OF only_mono [OF t(4)] u(3)]) (use e n(1) in auto)
  moreover have "set (es @ [e] @ ?ds) \<subseteq> set as \<union> {alloc s..<alloc u}"
    using es u(4) set_drop_subset [of "Suc m" as] by auto
  moreover have "Suc (length as - 2) = length as - Suc 0" using n(1) by simp
  then have "lrep u ?l (es @ [e] @ ?ds) (take (nat i) xs @ vs @ drop (nat i) xs)"
    unfolding lrep_chain using u(2) ch(1) len m d(4,5) n(1) chain_length [OF t(2)]
    by (auto simp: nth_append)
  ultimately show ?thesis using updatesI [OF run] by simp
qed

section \<open>Properties\<close>

text \<open>
  (C8) The list holds what it was given: adding, appending and prepending values, reading them
  back with \<open>Values\<close>, reading one with \<open>Get\<close>, overwriting with \<open>Set\<close> (which appends at the
  position behind the last one), and removing by index all act on the represented list of values
  as the list operation does, for every index, out-of-range ones included.
\<close>

theorem list_operations_refine:
  assumes rep: "lrep s l as xs"
  shows "updates as s (list_Add l vs s) (xs @ vs) \<and>
    updates as s (list_Prepend l vs s) (vs @ xs) \<and>
    updates as s (list_Set l i v s)
      (if 0 \<le> i \<and> i < int (length xs) then xs[nat i := v] else if i = int (length xs) then xs @ [v] else xs) \<and>
    updates as s (list_Remove l i s)
      (if 0 \<le> i \<and> i < int (length xs) then take (nat i) xs @ drop (Suc (nat i)) xs else xs) \<and>
    list_Get emptyT l i s =
      (Done (if 0 \<le> i \<and> i < int (length xs) then (xs ! nat i, True) else (emptyT, False)), s) \<and>
    list_Values emptyT l s = (Done xs, s)"
  using list_Add_updates [OF rep] prepend_loop_updates [OF rep, of "rev vs"] list_Set_updates [OF rep]
    list_Remove_updates [OF rep] list_Get_spec [OF rep] list_Values_spec [OF rep]
  by (simp only: list_Prepend_def rev_rev_ident simp_thms)

text \<open>
  (C7) \<open>Insert\<close> puts the values at the position and shifts the rest, at every index from 0 to the
  size, and ignores other indices; with one exception: inserting no values before the first
  element of a non-empty list dereferences nil.
\<close>

theorem list_Insert_refines:
  assumes rep: "lrep s l as xs"
  shows "if i = 0 \<and> xs \<noteq> [] \<and> vs = [] then list_Insert l i vs s = (Panic NilDeref, s)
    else updates as s (list_Insert l i vs s)
      (if 0 \<le> i \<and> i \<le> int (length xs) then take (nat i) xs @ vs @ drop (nat i) xs else xs)"
proof -
  have len: "l_size l = int (length xs)" using lrep_length [OF rep] by simp
  have "i < 0 \<or> i > int (length xs) \<or> i = int (length xs) \<or> (i = 0 \<and> xs \<noteq> []) \<or> (0 < i \<and> i < int (length xs))"
    by (cases xs) (simp_all, linarith+)
  then consider "i < 0 \<or> i > int (length xs)" | "i = int (length xs)" | "i = 0" "xs \<noteq> []" | "0 < i" "i < int (length xs)"
    by blast
  then show ?thesis
  proof cases
    case 1
    then have "list_Insert l i vs s = (Done l, s)" using len by (auto simp: list_Insert_def withinRange_def)
    then show ?thesis using 1 updates_same [OF rep] by auto
  next
    case 2
    then have "list_Insert l i vs s = list_Add l vs s" using len by (simp add: list_Insert_def withinRange_def)
    then show ?thesis using 2 list_Add_updates [OF rep, of vs] by auto
  next
    case 3
    then obtain x ys where "xs = x # ys" by (cases xs) auto
    then show ?thesis using list_Insert_front [of s l as x ys vs] rep 3(1) by auto
  next
    case 4
    then show ?thesis using list_Insert_middle [OF rep 4, of vs] by auto
  qed
qed

text \<open>Popping \<open>n\<close> times.\<close>

fun pops :: "'a \<Rightarrow> nat \<Rightarrow> List \<Rightarrow> ('a store, ('a \<times> bool) list) go" where
  "pops emptyT 0 l = ret []"
| "pops emptyT (Suc n) l = andThen (list_Pop emptyT l) (\<lambda>(r, l'). andThen (pops emptyT n l') (\<lambda>rs. ret (r # rs)))"

lemma pops_spec:
  "lrep s l as xs \<Longrightarrow> \<exists>t. pops emptyT n l s =
     (Done (map (\<lambda>x. (x, True)) (take n xs) @ replicate (n - length xs) (emptyT, False)), t)"
proof (induction n arbitrary: s l as xs)
  case (Suc n)
  show ?case
  proof (cases xs)
    case Nil
    then have "lrep s l as []" using Suc.prems by simp
    from Suc.IH [OF this] list_Pop_empty [OF this, of emptyT] Nil show ?thesis by auto
  next
    case (Cons x ys)
    with Suc.prems have "lrep s l as (x # ys)" by simp
    from list_Pop_spec [OF this] obtain l' s' as'
      where "list_Pop emptyT l s = (Done ((x, True), l'), s')" "lrep s' l' as' ys" by blast
    with Suc.IH [of s' l' as' ys] Cons show ?thesis by auto
  qed
qed simp

text \<open>
  First in, first out: popping a list built by \<open>New\<close> and \<open>Append\<close> returns the values in the
  order they were added and then reports emptiness for ever.
\<close>

theorem list_fifo:
  "\<exists>t. andThen (list_New vs) (\<lambda>l. andThen (list_Append l ws) (\<lambda>l. pops emptyT n l)) s =
    (Done (map (\<lambda>x. (x, True)) (take n (vs @ ws)) @ replicate (n - length (vs @ ws)) (emptyT, False)), t)"
proof -
  obtain l s1 as where 1: "list_New vs s = (Done l, s1)" "lrep s1 l as vs"
    using list_New_updates [of s vs] by (auto simp: updates_def)
  obtain l2 s2 as2 where 2: "list_Add l ws s1 = (Done l2, s2)" "lrep s2 l2 as2 (vs @ ws)"
    using list_Add_updates [OF 1(2), of ws] by (auto simp: updates_def)
  from pops_spec [OF 2(2)] 1 2 show ?thesis by (simp add: list_Append_def)
qed

section \<open>Witnesses\<close>

text \<open>A heap with a list of two numbers.\<close>

definition ex_store :: "nat store" where
  "ex_store = \<lparr>cells = [0 \<mapsto> \<lparr>el_value = 10, el_next = Some 1\<rparr>, 1 \<mapsto> \<lparr>el_value = 20, el_next = None\<rparr>], alloc = 2\<rparr>"

definition ex_list :: List where
  "ex_list = \<lparr>l_first = Some 0, l_last = Some 1, l_size = 2\<rparr>"

lemma ex_lrep: "lrep ex_store ex_list [0, 1] [10, 20]"
  by (simp add: lrep_def ex_store_def ex_list_def)

theorem list_operations_refine_witness:
  "updates [0, 1] ex_store (list_Remove ex_list 1 ex_store) [10] \<and>
   updates [0, 1] ex_store (list_Prepend ex_list [5] ex_store) [5, 10, 20] \<and>
   list_Get 0 ex_list 1 ex_store = (Done (20, True), ex_store)"
  using list_operations_refine [OF ex_lrep, of "[5]" 1 0 0] by simp

theorem list_Insert_refines_witness:
  "updates [0, 1] ex_store (list_Insert ex_list 1 [7, 8] ex_store) [10, 7, 8, 20] \<and>
   list_Insert ex_list 0 [] ex_store = (Panic NilDeref, ex_store)"
  using list_Insert_refines [OF ex_lrep, of 1 "[7, 8]"] list_Insert_refines [OF ex_lrep, of 0 "[]"] by simp

end
