(* ===== verification/Multi_Queue.thy ===== *)
theory Multi_Queue
  imports Linked_List
begin

text \<open>
  \<open>src/pkg/util/multiqueue.go\<close>: a map of named queues, each a linked list. The lists live on one
  heap, so an operation on one queue must not disturb the others: the interface \<open>heap_list\<close> states
  what a list implementation promises about its footprint, and the interpretation on
  \<open>util.List\<close> gives the frame facts for the map of queues. The read-write mutex makes every
  operation one step.
\<close>

section \<open>Lists with a footprint\<close>

locale heap_list =
  fixes rep :: "'s \<Rightarrow> 'l \<Rightarrow> nat set \<Rightarrow> 'a list \<Rightarrow> bool"
    and used :: "'s \<Rightarrow> nat set"
    and change :: "nat set \<Rightarrow> 's \<Rightarrow> 's \<Rightarrow> bool"
    and create :: "'a list \<Rightarrow> ('s, 'l) go"
    and append :: "'l \<Rightarrow> 'a list \<Rightarrow> ('s, 'l) go"
    and pop :: "'a \<Rightarrow> 'l \<Rightarrow> ('s, ('a \<times> bool) \<times> 'l) go"
    and contents :: "'a \<Rightarrow> 'l \<Rightarrow> ('s, 'a list) go"
  assumes rep_used: "rep s l A xs \<Longrightarrow> A \<subseteq> used s"
    and rep_frame: "rep s l A xs \<Longrightarrow> change B s t \<Longrightarrow> A \<inter> B = {} \<Longrightarrow> rep t l A xs"
    and create_ok: "\<exists>l t A. create xs s = (Done l, t) \<and> rep t l A xs \<and> change {} s t \<and> A \<inter> used s = {}"
    and append_ok: "rep s l A xs \<Longrightarrow> \<exists>l' t A'. append l ys s = (Done l', t) \<and> rep t l' A' (xs @ ys) \<and>
        change A s t \<and> A' \<inter> used s \<subseteq> A"
    and pop_ok: "rep s l A xs \<Longrightarrow> \<exists>l' t A'. pop e l s =
        (Done (case xs of [] \<Rightarrow> (e, False) | x # _ \<Rightarrow> (x, True), l'), t) \<and> rep t l' A' (tl xs) \<and>
        change A s t \<and> A' \<inter> used s \<subseteq> A"
    and contents_ok: "rep s l A xs \<Longrightarrow> contents e l s = (Done xs, s)"
begin

text \<open>
  A map of lists with pairwise disjoint footprints \<open>F k\<close> holding \<open>X k\<close>.
\<close>

definition apart :: "'s \<Rightarrow> 'l gomap \<Rightarrow> (string \<Rightarrow> nat set) \<Rightarrow> (string \<rightharpoonup> 'a list) \<Rightarrow> bool" where
  "apart s m F X \<longleftrightarrow> dom X = dom (lookup m) \<and>
     (\<forall>k l. lookup m k = Some l \<longrightarrow> rep s l (F k) (the (X k))) \<and>
     (\<forall>k k'. k \<in> dom X \<longrightarrow> k' \<in> dom X \<longrightarrow> k \<noteq> k' \<longrightarrow> F k \<inter> F k' = {})"

lemma apart_step:
  assumes ap: "apart s m F X" and rp: "rep t l' A' ys"
    and ch: "change (if k \<in> dom X then F k else {}) s t" and fp: "A' \<inter> used s \<subseteq> (if k \<in> dom X then F k else {})"
  shows "apart t (AList.update k l' m) (F(k := A')) (X(k \<mapsto> ys))"
proof -
  have other: "rep t l (F k') (the (X k'))" if l: "lookup m k' = Some l" and ne: "k' \<noteq> k" for k' l
  proof -
    have "rep s l (F k') (the (X k'))" "k' \<in> dom X" using ap l by (auto simp: apart_def)
    moreover from this have "F k' \<inter> (if k \<in> dom X then F k else {}) = {}"
      using ap ne by (auto simp: apart_def)
    ultimately show ?thesis using rep_frame ch by blast
  qed
  have dis: "F k' \<inter> A' = {}" if k': "k' \<in> dom X" and ne: "k' \<noteq> k" for k'
  proof -
    obtain l where "lookup m k' = Some l" using ap k' by (auto simp: apart_def)
    then have "rep s l (F k') (the (X k'))" using ap by (simp add: apart_def)
    then have "F k' \<subseteq> used s" by (rule rep_used)
    moreover have "F k' \<inter> (if k \<in> dom X then F k else {}) = {}"
      using ap k' ne by (auto simp: apart_def)
    ultimately show ?thesis using fp by blast
  qed
  have "dom (X(k \<mapsto> ys)) = dom (lookup (AList.update k l' m))" using ap by (auto simp: apart_def)
  moreover have "\<forall>j l. lookup (AList.update k l' m) j = Some l \<longrightarrow> rep t l ((F(k := A')) j) (the ((X(k \<mapsto> ys)) j))"
    using other rp by auto
  moreover have "\<forall>i j. i \<in> dom (X(k \<mapsto> ys)) \<longrightarrow> j \<in> dom (X(k \<mapsto> ys)) \<longrightarrow> i \<noteq> j \<longrightarrow>
      (F(k := A')) i \<inter> (F(k := A')) j = {}"
    using ap dis by (auto simp: apart_def Int_commute)
  ultimately show ?thesis unfolding apart_def by blast
qed

lemma apart_append:
  assumes ap: "apart s m F X" and l: "lookup m k = Some l"
  shows "\<exists>l' t F'. append l [v] s = (Done l', t) \<and> apart t (AList.update k l' m) F' (X(k \<mapsto> the (X k) @ [v]))"
proof -
  have r: "rep s l (F k) (the (X k))" and k: "k \<in> dom X" using ap l by (auto simp: apart_def)
  from append_ok [OF r, of "[v]"] obtain l' t A' where 1: "append l [v] s = (Done l', t)"
    "rep t l' A' (the (X k) @ [v])" "change (F k) s t" "A' \<inter> used s \<subseteq> F k" by blast
  with apart_step [OF ap 1(2), of k] k show ?thesis by auto
qed

lemma apart_create:
  assumes ap: "apart s m F X" and l: "lookup m k = None"
  shows "\<exists>l' t F'. create [v] s = (Done l', t) \<and> apart t (AList.update k l' m) F' (X(k \<mapsto> [v]))"
proof -
  have k: "k \<notin> dom X" using ap l by (auto simp: apart_def)
  from create_ok [of "[v]" s] obtain l' t A' where 1: "create [v] s = (Done l', t)"
    "rep t l' A' [v]" "change {} s t" "A' \<inter> used s = {}" by blast
  with apart_step [OF ap 1(2), of k] k show ?thesis by auto
qed

lemma apart_pop:
  assumes ap: "apart s m F X" and l: "lookup m k = Some l"
  shows "\<exists>l' t F'. pop e l s = (Done (case the (X k) of [] \<Rightarrow> (e, False) | x # _ \<Rightarrow> (x, True), l'), t) \<and>
    apart t (AList.update k l' m) F' (X(k \<mapsto> tl (the (X k))))"
proof -
  have r: "rep s l (F k) (the (X k))" and k: "k \<in> dom X" using ap l by (auto simp: apart_def)
  from pop_ok [OF r, of e] obtain l' t A' where 1:
    "pop e l s = (Done (case the (X k) of [] \<Rightarrow> (e, False) | x # _ \<Rightarrow> (x, True), l'), t)"
    "rep t l' A' (tl (the (X k)))" "change (F k) s t" "A' \<inter> used s \<subseteq> F k" by blast
  with apart_step [OF ap 1(2), of k] k show ?thesis by auto
qed

lemma apart_contents:
  "apart s m F X \<Longrightarrow> lookup m k = Some l \<Longrightarrow> contents e l s = (Done (the (X k)), s)"
  by (auto simp: apart_def intro: contents_ok)

end

interpretation ll: heap_list "\<lambda>s l A xs. \<exists>as. A = set as \<and> lrep s l as xs" "\<lambda>s. {..<alloc s}" only
  list_New list_Append list_Pop list_Values
proof unfold_locales
  fix s :: "'a store" and l A xs
  assume "\<exists>as. A = set as \<and> lrep s l as xs"
  then show "A \<subseteq> {..<alloc s}" by (auto simp: lrep_def)
next
  fix s t :: "'a store" and l A B xs
  assume "\<exists>as. A = set as \<and> lrep s l as xs" "only B s t" "A \<inter> B = {}"
  then show "\<exists>as. A = set as \<and> lrep t l as xs" using lrep_frame by blast
next
  fix s :: "'a store" and xs :: "'a list"
  obtain l t as where 1: "list_New xs s = (Done l, t)" "lrep t l as xs" "only (set []) s t"
    "set as \<subseteq> set [] \<union> {alloc s..<alloc t}" using list_New_updates [of s xs] unfolding updates_def by blast
  then have "set as \<inter> {..<alloc s} = {}" by auto
  with 1 show "\<exists>l t A. list_New xs s = (Done l, t) \<and> (\<exists>as. A = set as \<and> lrep t l as xs) \<and>
      only {} s t \<and> A \<inter> {..<alloc s} = {}" by auto
next
  fix s :: "'a store" and l A xs and ys :: "'a list"
  assume "\<exists>as. A = set as \<and> lrep s l as xs"
  then obtain as where as: "A = set as" "lrep s l as xs" by blast
  obtain l' t as' where 1: "list_Add l ys s = (Done l', t)" "lrep t l' as' (xs @ ys)" "only (set as) s t"
    "set as' \<subseteq> set as \<union> {alloc s..<alloc t}" using list_Add_updates [OF as(2), of ys] unfolding updates_def by blast
  then have "set as' \<inter> {..<alloc s} \<subseteq> set as" by auto
  with 1 as show "\<exists>l' t A'. list_Append l ys s = (Done l', t) \<and> (\<exists>as. A' = set as \<and> lrep t l' as (xs @ ys)) \<and>
      only A s t \<and> A' \<inter> {..<alloc s} \<subseteq> A" unfolding list_Append_def by blast
next
  fix s :: "'a store" and l A xs and e :: 'a
  assume "\<exists>as. A = set as \<and> lrep s l as xs"
  then obtain as where as: "A = set as" "lrep s l as xs" by blast
  show "\<exists>l' t A'. list_Pop e l s = (Done (case xs of [] \<Rightarrow> (e, False) | x # _ \<Rightarrow> (x, True), l'), t) \<and>
      (\<exists>as. A' = set as \<and> lrep t l' as (tl xs)) \<and> only A s t \<and> A' \<inter> {..<alloc s} \<subseteq> A"
  proof (cases xs)
    case Nil
    then show ?thesis using as list_Pop_empty [of s l as e] by auto
  next
    case (Cons x ys)
    then obtain l' t as' where 1: "list_Pop e l s = (Done ((x, True), l'), t)" "lrep t l' as' ys"
      "only (set as) s t" "set as' \<subseteq> set as \<union> {alloc s..<alloc t}" using list_Pop_spec [of s l as x ys e] as by auto
    then have "set as' \<inter> {..<alloc s} \<subseteq> set as" by auto
    with 1 as Cons show ?thesis by auto
  qed
next
  fix s :: "'a store" and l A xs and e :: 'a
  assume "\<exists>as. A = set as \<and> lrep s l as xs"
  then show "list_Values e l s = (Done xs, s)" by (elim exE conjE) (rule list_Values_spec)
qed

section \<open>The queues\<close>

record 'a mq = "unit base" +
  heap :: "'a store"
  queues :: "List gomap"

definition NewMultiQueue :: "nat list list \<Rightarrow> 'a mq" where
  "NewMultiQueue t = \<lparr>world = (), tape = t, heap = \<lparr>cells = Map.empty, alloc = 0\<rparr>, queues = []\<rparr>"

definition onHeap :: "('a store, 'r) go \<Rightarrow> ('a mq, 'r) go" where
  "onHeap m = (\<lambda>s. case m (heap s) of (r, h) \<Rightarrow> (r, s\<lparr>heap := h\<rparr>))"

definition setQueue :: "string \<Rightarrow> List \<Rightarrow> ('a mq, unit) go" where
  "setQueue q l = modify (\<lambda>s. s\<lparr>queues := AList.update q l (queues s)\<rparr>)"

definition mq_Push :: "string \<Rightarrow> 'a \<Rightarrow> ('a mq, unit) go" where
  "mq_Push queue v = andThen (gets (\<lambda>s. lookup (queues s) queue)) (\<lambda>l. case l of
      Some l \<Rightarrow> andThen (onHeap (list_Append l [v])) (setQueue queue)
    | None \<Rightarrow> andThen (onHeap (list_New [v])) (setQueue queue))"

definition mq_Pop :: "'a \<Rightarrow> string \<Rightarrow> ('a mq, 'a \<times> bool) go" where
  "mq_Pop emptyT queue = andThen (gets (\<lambda>s. lookup (queues s) queue)) (\<lambda>l. case l of
      Some l \<Rightarrow> andThen (onHeap (list_Pop emptyT l)) (\<lambda>(r, l'). andThen (setQueue queue l') (\<lambda>_. ret r))
    | None \<Rightarrow> ret (emptyT, False))"

definition mq_Iter :: "'a \<Rightarrow> (string \<Rightarrow> 'a list \<Rightarrow> ('a mq, err) go) \<Rightarrow> ('a mq, unit) go" where
  "mq_Iter emptyT fn = andThen (gets queues) (\<lambda>m. andThen (rangeOrder m) (\<lambda>qs.
     foldUntil (\<lambda>_ (q, l). andThen (onHeap (list_Values emptyT l)) (\<lambda>vs.
       andThen (fn q vs) (\<lambda>e. ret ((), e)))) () qs))"

text \<open>\<open>holds s X\<close>: the queues of \<open>s\<close> are those of \<open>X\<close>, each on its own part of the heap.\<close>

definition holds :: "'a mq \<Rightarrow> (string \<rightharpoonup> 'a list) \<Rightarrow> bool" where
  "holds s X \<longleftrightarrow> wf_map (queues s) \<and> (\<exists>F. ll.apart (heap s) (queues s) F X)"

lemma onHeap_Done [simp]: "m (heap s) = (Done r, h) \<Longrightarrow> onHeap m s = (Done r, s\<lparr>heap := h\<rparr>)"
  by (simp add: onHeap_def)

lemma holds_New: "holds (NewMultiQueue t) Map.empty"
  by (simp add: holds_def NewMultiQueue_def ll.apart_def)

lemma holds_lookup: "holds s X \<Longrightarrow> lookup (queues s) q = None \<longleftrightarrow> X q = None"
  by (auto simp: holds_def ll.apart_def)

section \<open>Properties\<close>

text \<open>
  Pushing appends the value to the named queue, creating the queue if it is new, and leaves
  every other queue as it is.
\<close>

theorem mq_Push_appends:
  assumes "holds s X"
  shows "\<exists>t. mq_Push q v s = (Done (), t) \<and>
    holds t (X(q \<mapsto> (case X q of None \<Rightarrow> [] | Some xs \<Rightarrow> xs) @ [v]))"
proof -
  obtain F where F: "ll.apart (heap s) (queues s) F X" and wf: "wf_map (queues s)"
    using assms by (auto simp: holds_def)
  show ?thesis
  proof (cases "lookup (queues s) q")
    case None
    then have "X q = None" using holds_lookup [OF assms] by simp
    moreover obtain l h F' where "list_New [v] (heap s) = (Done l, h)"
      "ll.apart h (AList.update q l (queues s)) F' (X(q \<mapsto> [v]))" using ll.apart_create [OF F None] by blast
    ultimately show ?thesis using None wf by (auto simp: mq_Push_def setQueue_def holds_def)
  next
    case (Some l)
    then obtain xs where "X q = Some xs" using holds_lookup [OF assms, of q] by auto
    moreover obtain l' h F' where "list_Append l [v] (heap s) = (Done l', h)"
      "ll.apart h (AList.update q l' (queues s)) F' (X(q \<mapsto> the (X q) @ [v]))"
      using ll.apart_append [OF F Some] by blast
    ultimately show ?thesis using Some wf by (auto simp: mq_Push_def setQueue_def holds_def)
  qed
qed


text \<open>
  Iterating calls the callback once per queue, in some order, with the queue's name and all
  its values, until the callback fails, whatever the callback does short of changing the queues.
\<close>

theorem mq_Iter_visits:
  assumes "holds s X" and fn: "\<And>q vs. keeps heap (fn q vs)"
  shows "\<exists>ps t. mset ps = mset (map (\<lambda>(q, l). (q, the (X q))) (queues s)) \<and>
    mq_Iter emptyT fn s =
      foldUntil (\<lambda>_ (q, vs). andThen (fn q vs) (\<lambda>e. ret ((), e))) () ps (s\<lparr>tape := t\<rparr>)"
proof -
  obtain F where F: "ll.apart (heap s) (queues s) F X" and wf: "wf_map (queues s)"
    using assms(1) by (auto simp: holds_def)
  obtain qs t where r: "rangeOrder (queues s) s = (Done qs, s\<lparr>tape := t\<rparr>)" and m: "mset qs = mset (queues s)"
    by (rule rangeOrder_Done)
  have val: "list_Values emptyT l (heap s) = (Done (the (X q)), heap s)" if "(q, l) \<in> set qs" for q l
  proof -
    have "(q, l) \<in> set (queues s)" using that m by (metis set_mset_mset)
    then have "lookup (queues s) q = Some l" using wf by (simp add: wf_map_lookup)
    then show ?thesis using ll.apart_contents [OF F] by blast
  qed
  have loop: "foldUntil (\<lambda>_ (q, l). andThen (onHeap (list_Values emptyT l)) (\<lambda>vs. andThen (fn q vs) (\<lambda>e. ret ((), e)))) () rs u =
      foldUntil (\<lambda>_ (q, vs). andThen (fn q vs) (\<lambda>e. ret ((), e))) () (map (\<lambda>(q, l). (q, the (X q))) rs) u"
    if "heap u = heap s" "set rs \<subseteq> set qs" for rs u
    using that
  proof (induction rs arbitrary: u)
    case (Cons p rs)
    obtain q l where p: "p = (q, l)" by (cases p)
    then have v: "onHeap (list_Values emptyT l) u = (Done (the (X q)), u)"
      using Cons.prems val [of q l] by (simp add: onHeap_def)
    obtain x u' where f: "fn q (the (X q)) u = (x, u')" by (cases "fn q (the (X q)) u")
    then have "heap u' = heap s" using keepsD [OF fn f] Cons.prems by simp
    from Cons.IH [OF this] Cons.prems v f p show ?case
      by (cases x) (auto simp: andThen_apply split: option.splits)
  qed simp
  have "mq_Iter emptyT fn s = foldUntil (\<lambda>_ (q, vs). andThen (fn q vs) (\<lambda>e. ret ((), e))) ()
      (map (\<lambda>(q, l). (q, the (X q))) qs) (s\<lparr>tape := t\<rparr>)"
    using r loop [of "s\<lparr>tape := t\<rparr>" qs] by (simp add: mq_Iter_def)
  moreover have "mset (map (\<lambda>(q, l). (q, the (X q))) qs) = mset (map (\<lambda>(q, l). (q, the (X q))) (queues s))"
    using m by (simp add: mset_map)
  ultimately show ?thesis by blast
qed

section \<open>Witnesses\<close>

definition ex_mq :: "nat mq" where
  "ex_mq = \<lparr>world = (), tape = [], heap = ex_store, queues = [(''a'', ex_list)]\<rparr>"

lemma ex_holds: "holds ex_mq [''a'' \<mapsto> [10, 20]]"
proof -
  have "ll.apart ex_store [(''a'', ex_list)] (\<lambda>_. set [0, 1]) [''a'' \<mapsto> [10, 20]]"
    using ex_lrep unfolding ll.apart_def by (auto intro!: exI [of _ "[0, 1]"])
  then show ?thesis by (auto simp: holds_def ex_mq_def wf_map_def)
qed

theorem mq_Push_appends_witness:
  "\<exists>t. mq_Push ''b'' 5 ex_mq = (Done (), t) \<and> holds t [''a'' \<mapsto> [10, 20], ''b'' \<mapsto> [5]]"
  using mq_Push_appends [OF ex_holds, of "''b''" 5] by simp


theorem mq_Iter_visits_witness:
  "\<exists>t. mq_Iter 0 (\<lambda>q vs. ret (Some (Errorf q []))) ex_mq = (Done (), ex_mq\<lparr>tape := t\<rparr>)"
  using mq_Iter_visits [OF ex_holds, of "\<lambda>q vs. ret (Some (Errorf q []))" 0]
  by (auto simp: ex_mq_def)

end
