(* ===== verification/Semaphored_Mutex.thy ===== *)
theory Semaphored_Mutex
  imports Go_Base
begin

text \<open>
  \<open>src/pkg/lock/semaphored_mutex.go\<close> over the weighted semaphore of \<open>golang.org/x/sync\<close>: a
  read-write mutex that takes one token to read and all tokens to write. The semaphore is
  modelled with its queue of waiters; every method runs under the semaphore's own mutex, so it
  is one step. The states of any number of disciplined goroutines (each releases what it holds)
  are the reachable states of the inductive relation \<open>sm_step\<close>.
\<close>

section \<open>The weighted semaphore\<close>

text \<open>A waiter is the goroutine that waits on its \<open>ready\<close> channel and the weight it asked for.\<close>

record Weighted =
  sem_size :: int
  sem_cur :: int
  sem_waiters :: "(nat \<times> int) list"

definition NewWeighted :: "int \<Rightarrow> Weighted" where
  "NewWeighted n = \<lparr>sem_size = n, sem_cur = 0, sem_waiters = []\<rparr>"

text \<open>
  \<open>Acquire\<close> with a background context, which is never done: \<open>True\<close> when the tokens were taken,
  \<open>False\<close> when the caller was queued and now waits, blocked for ever when it asks for more than
  there is.
\<close>

definition Acquire :: "nat \<Rightarrow> int \<Rightarrow> (Weighted, bool) go" where
  "Acquire t n = (\<lambda>s.
     if sem_size s - sem_cur s \<ge> n \<and> sem_waiters s = [] then (Done True, s\<lparr>sem_cur := sem_cur s + n\<rparr>)
     else if n > sem_size s then (Blocked, s)
     else (Done False, s\<lparr>sem_waiters := sem_waiters s @ [(t, n)]\<rparr>))"

definition TryAcquire :: "int \<Rightarrow> (Weighted, bool) go" where
  "TryAcquire n = (\<lambda>s.
     if sem_size s - sem_cur s \<ge> n \<and> sem_waiters s = [] then (Done True, s\<lparr>sem_cur := sem_cur s + n\<rparr>)
     else (Done False, s))"

text \<open>\<open>notifyWaiters\<close>: the tokens in use and the queue afterwards, and the waiters whose channel was closed.\<close>

fun notifyWaiters :: "int \<Rightarrow> int \<Rightarrow> (nat \<times> int) list \<Rightarrow> int \<times> (nat \<times> int) list \<times> (nat \<times> int) list" where
  "notifyWaiters sz cur [] = (cur, [], [])"
| "notifyWaiters sz cur ((t, n) # ws) =
     (if sz - cur < n then (cur, (t, n) # ws, [])
      else case notifyWaiters sz (cur + n) ws of (cur', rest, ready) \<Rightarrow> (cur', rest, (t, n) # ready))"

definition Release :: "int \<Rightarrow> (Weighted, (nat \<times> int) list) go" where
  "Release n = (\<lambda>s. let s = s\<lparr>sem_cur := sem_cur s - n\<rparr> in
     if sem_cur s < 0 then (Panic ReleasedMore, s)
     else case notifyWaiters (sem_size s) (sem_cur s) (sem_waiters s) of
       (cur, rest, ready) \<Rightarrow> (Done ready, s\<lparr>sem_cur := cur, sem_waiters := rest\<rparr>))"

section \<open>The mutex\<close>

definition maxReaders :: int where
  "maxReaders = 2 ^ 30"

definition NewSemaphoredMutex :: Weighted where
  "NewSemaphoredMutex = NewWeighted maxReaders"

definition sm_Lock :: "nat \<Rightarrow> (Weighted, bool) go" where
  "sm_Lock t = Acquire t maxReaders"

definition sm_UnlockToRLock :: "(Weighted, (nat \<times> int) list) go" where
  "sm_UnlockToRLock = Release (maxReaders - 1)"

definition sm_Unlock :: "(Weighted, (nat \<times> int) list) go" where
  "sm_Unlock = Release maxReaders"

definition sm_RLock :: "nat \<Rightarrow> (Weighted, bool) go" where
  "sm_RLock t = Acquire t 1"

definition sm_RUnlock :: "(Weighted, (nat \<times> int) list) go" where
  "sm_RUnlock = Release 1"

section \<open>Goroutines that use the mutex\<close>

datatype mode = Reading | Writing

fun weight :: "mode \<Rightarrow> int" where
  "weight Reading = 1"
| "weight Writing = maxReaders"

definition mode_of :: "nat \<times> int \<Rightarrow> nat \<times> mode" where
  "mode_of w = (fst w, if snd w = 1 then Reading else Writing)"

record sm_sys =
  sem :: Weighted
  held :: "(nat \<times> mode) list"

definition parties :: "sm_sys \<Rightarrow> nat list" where
  "parties s = map fst (held s) @ map fst (sem_waiters (sem s))"

inductive sm_step :: "sm_sys \<Rightarrow> sm_sys \<Rightarrow> bool" where
  lock: "t \<notin> set (parties s) \<Longrightarrow> sm_Lock t (sem s) = (Done b, w) \<Longrightarrow>
    sm_step s \<lparr>sem = w, held = (if b then (t, Writing) # held s else held s)\<rparr>"
| rlock: "t \<notin> set (parties s) \<Longrightarrow> sm_RLock t (sem s) = (Done b, w) \<Longrightarrow>
    sm_step s \<lparr>sem = w, held = (if b then (t, Reading) # held s else held s)\<rparr>"
| unlock: "(t, Writing) \<in> set (held s) \<Longrightarrow> sm_Unlock (sem s) = (Done ready, w) \<Longrightarrow>
    sm_step s \<lparr>sem = w, held = map mode_of ready @ remove1 (t, Writing) (held s)\<rparr>"
| runlock: "(t, Reading) \<in> set (held s) \<Longrightarrow> sm_RUnlock (sem s) = (Done ready, w) \<Longrightarrow>
    sm_step s \<lparr>sem = w, held = map mode_of ready @ remove1 (t, Reading) (held s)\<rparr>"
| downgrade: "(t, Writing) \<in> set (held s) \<Longrightarrow> sm_UnlockToRLock (sem s) = (Done ready, w) \<Longrightarrow>
    sm_step s \<lparr>sem = w, held = map mode_of ready @ (t, Reading) # remove1 (t, Writing) (held s)\<rparr>"

inductive sm_reachable :: "sm_sys \<Rightarrow> bool" where
  init: "sm_reachable \<lparr>sem = NewSemaphoredMutex, held = []\<rparr>"
| step: "sm_reachable s \<Longrightarrow> sm_step s s' \<Longrightarrow> sm_reachable s'"

definition tokens :: "(nat \<times> mode) list \<Rightarrow> int" where
  "tokens h = sum_list (map (weight \<circ> snd) h)"

text \<open>The front waiter does not fit: otherwise it would have been notified.\<close>

definition blocked_front :: "int \<Rightarrow> int \<Rightarrow> (nat \<times> int) list \<Rightarrow> bool" where
  "blocked_front sz cur ws \<longleftrightarrow> (case ws of [] \<Rightarrow> True | (t, n) # _ \<Rightarrow> sz - cur < n)"

definition sm_inv :: "sm_sys \<Rightarrow> bool" where
  "sm_inv s \<longleftrightarrow> sem_size (sem s) = maxReaders \<and> sem_cur (sem s) = tokens (held s) \<and>
     tokens (held s) \<le> maxReaders \<and>
     blocked_front maxReaders (sem_cur (sem s)) (sem_waiters (sem s)) \<and>
     (\<forall>w\<in>set (sem_waiters (sem s)). snd w = 1 \<or> snd w = maxReaders) \<and> distinct (parties s)"

lemma maxReaders_gt [simp]: "1 < maxReaders" "0 < maxReaders" "maxReaders \<noteq> 1" "0 \<le> maxReaders"
  "1 \<le> maxReaders" "\<not> maxReaders < 1"
  by (simp_all add: maxReaders_def)

lemma tokens_simps [simp]: "tokens [] = 0" "tokens (p # h) = weight (snd p) + tokens h"
  "tokens (h @ h') = tokens h + tokens h'"
  by (simp_all add: tokens_def)

lemma weight_pos: "1 \<le> weight m"
  by (cases m) simp_all

lemma tokens_nonneg [simp]: "0 \<le> tokens h"
proof (induction h)
  case (Cons p h)
  then show ?case using weight_pos [of "snd p"] by simp
qed simp

lemma tokens_remove1: "p \<in> set h \<Longrightarrow> tokens (remove1 p h) = tokens h - weight (snd p)"
  by (induction h) auto

lemma tokens_length: "int (length h) \<le> tokens h"
proof (induction h)
  case (Cons p h)
  then show ?case using weight_pos [of "snd p"] by simp
qed simp

text \<open>Notification serves a prefix of the queue, stays within the size, and leaves a front that does not fit.\<close>

lemma notifyWaiters_spec:
  assumes "notifyWaiters sz cur ws = (cur', rest, ready)" and "cur \<le> sz"
    and "\<forall>w\<in>set ws. snd w = 1 \<or> snd w = maxReaders"
  shows "ws = ready @ rest \<and> cur' = cur + tokens (map mode_of ready) \<and> cur' \<le> sz \<and>
    blocked_front sz cur' rest"
  using assms
proof (induction ws arbitrary: cur cur' rest ready)
  case Nil
  then show ?case by (simp add: blocked_front_def)
next
  case (Cons w ws)
  obtain t n where w: "w = (t, n)" by (cases w)
  show ?case
  proof (cases "sz - cur < n")
    case True
    then show ?thesis using Cons.prems w by (auto simp: blocked_front_def)
  next
    case False
    then obtain ready' where r: "notifyWaiters sz (cur + n) ws = (cur', rest, ready')" "ready = (t, n) # ready'"
      using Cons.prems(1) w by (auto split: prod.splits)
    have "weight (snd (mode_of w)) = n" using Cons.prems(3) w by (auto simp: mode_of_def)
    with Cons.IH [OF r(1)] Cons.prems(3) False r w show ?thesis by (auto simp: mode_of_def)
  qed
qed

lemma Release_spec:
  assumes inv: "sm_inv s" and rel: "Release n (sem s) = (Done ready, w)" and "0 \<le> n"
  shows "sem_waiters (sem s) = ready @ sem_waiters w \<and> sem_size w = maxReaders \<and>
    sem_cur w = tokens (held s) - n + tokens (map mode_of ready) \<and> sem_cur w \<le> maxReaders \<and>
    blocked_front maxReaders (sem_cur w) (sem_waiters w)"
proof -
  obtain cur rest where nw: "notifyWaiters maxReaders (tokens (held s) - n) (sem_waiters (sem s)) = (cur, rest, ready)"
    "w = (sem s)\<lparr>sem_cur := cur, sem_waiters := rest\<rparr>"
    using rel inv by (auto simp: Release_def Let_def sm_inv_def split: if_splits prod.splits)
  have "tokens (held s) - n \<le> maxReaders" "\<forall>w\<in>set (sem_waiters (sem s)). snd w = 1 \<or> snd w = maxReaders"
    using inv assms(3) by (auto simp: sm_inv_def)
  from notifyWaiters_spec [OF nw(1) this] nw(2) inv show ?thesis by (auto simp: sm_inv_def)
qed

lemma map_fst_mode_of [simp]: "map fst (map mode_of ws) = map fst ws"
  by (simp add: mode_of_def)

lemma distinct_remove1_fst:
  "distinct (map fst h) \<Longrightarrow> distinct (map fst (remove1 p h)) \<and> set (map fst (remove1 p h)) \<subseteq> set (map fst h)"
  using set_remove1_subset [of p h] by (auto simp: distinct_map intro: inj_on_subset)

lemma distinct_served:
  assumes "distinct (hs @ rs @ ws)" and "distinct ks" and "set ks \<subseteq> set hs - {t}" and "t \<in> set hs"
    and "qs = [] \<or> qs = [t]"
  shows "distinct (rs @ qs @ ks @ ws)"
  using assms by auto

lemma fst_remove1:
  "distinct (map fst h) \<Longrightarrow> (t, m) \<in> set h \<Longrightarrow> t \<notin> set (map fst (remove1 (t, m) h))"
  by (induction h) (auto simp: rev_image_eqI)

text \<open>A step that gives tokens back: the holder \<open>p\<close> leaves or is replaced by \<open>q\<close>.\<close>

lemma sm_inv_release:
  assumes inv: "sm_inv s" and p: "(t, m) \<in> set (held s)"
    and rel: "Release (weight m - tokens q) (sem s) = (Done ready, w)"
    and q: "q = [] \<or> (\<exists>m'. q = [(t, m')])" "tokens q \<le> weight m"
  shows "sm_inv \<lparr>sem = w, held = map mode_of ready @ q @ remove1 (t, m) (held s)\<rparr>"
proof -
  have n: "0 \<le> weight m - tokens q" using q(2) by simp
  have r: "sem_waiters (sem s) = ready @ sem_waiters w" "sem_size w = maxReaders"
    "sem_cur w = tokens (held s) - (weight m - tokens q) + tokens (map mode_of ready)" "sem_cur w \<le> maxReaders"
    "blocked_front maxReaders (sem_cur w) (sem_waiters w)" using Release_spec [OF inv rel n] by blast+
  have t: "tokens (map mode_of ready @ q @ remove1 (t, m) (held s)) = sem_cur w"
    using tokens_remove1 [OF p] r(3) by simp
  have d: "distinct (map fst (held s) @ map fst ready @ map fst (sem_waiters w))"
    using inv r(1) by (simp add: sm_inv_def parties_def)
  then have dh: "distinct (map fst (held s))" by simp
  have 1: "t \<in> set (map fst (held s))" "map fst q = [] \<or> map fst q = [t]" using p q(1) by force+
  have 2: "set (map fst (remove1 (t, m) (held s))) \<subseteq> set (map fst (held s)) - {t}"
    using distinct_remove1_fst [OF dh, of "(t, m)"] fst_remove1 [OF dh p] by blast
  have "distinct (map fst ready @ map fst q @ map fst (remove1 (t, m) (held s)) @ map fst (sem_waiters w))"
    by (rule distinct_served [OF d conjunct1 [OF distinct_remove1_fst [OF dh]] 2 1])
  then have "distinct (parties \<lparr>sem = w, held = map mode_of ready @ q @ remove1 (t, m) (held s)\<rparr>)"
    unfolding parties_def sm_sys.simps map_append map_fst_mode_of append_assoc .
  moreover have "\<forall>x\<in>set (sem_waiters w). snd x = 1 \<or> snd x = maxReaders"
    using inv r(1) by (simp add: sm_inv_def)
  ultimately show ?thesis using r(2,4,5) t by (simp add: sm_inv_def)
qed

lemma sm_inv_acquire:
  assumes inv: "sm_inv s" and t: "t \<notin> set (parties s)" and acq: "Acquire t (weight m) (sem s) = (Done b, w)"
  shows "sm_inv \<lparr>sem = w, held = (if b then (t, m) # held s else held s)\<rparr>"
proof -
  have m: "weight m = 1 \<or> weight m = maxReaders" by (cases m) simp_all
  have sz: "sem_size (sem s) = maxReaders" "\<not> weight m > maxReaders" using inv m by (auto simp: sm_inv_def)
  show ?thesis
  proof (cases b)
    case True
    then have w: "w = (sem s)\<lparr>sem_cur := sem_cur (sem s) + weight m\<rparr>" "sem_waiters (sem s) = []"
      "maxReaders - sem_cur (sem s) \<ge> weight m"
      using acq sz by (simp_all add: Acquire_def split: if_splits)
    then show ?thesis using True inv t by (simp add: sm_inv_def parties_def blocked_front_def)
  next
    case False
    then have w: "w = (sem s)\<lparr>sem_waiters := sem_waiters (sem s) @ [(t, weight m)]\<rparr>"
      "sem_waiters (sem s) = [] \<longrightarrow> maxReaders - sem_cur (sem s) < weight m"
      using acq sz by (auto simp: Acquire_def split: if_splits)
    have "blocked_front maxReaders (sem_cur (sem s)) (sem_waiters (sem s) @ [(t, weight m)])"
      using inv w(2) by (cases "sem_waiters (sem s)") (auto simp: sm_inv_def blocked_front_def)
    then show ?thesis using False inv t w(1) m by (auto simp: sm_inv_def parties_def)
  qed
qed

lemma sm_inv_step:
  assumes inv: "sm_inv s" and "sm_step s s'"
  shows "sm_inv s'"
  using assms(2)
proof cases
  case (lock t b w)
  then show ?thesis using sm_inv_acquire [OF inv, of t Writing] by (simp add: sm_Lock_def)
next
  case (rlock t b w)
  then show ?thesis using sm_inv_acquire [OF inv, of t Reading] by (simp add: sm_RLock_def)
next
  case (unlock t ready w)
  then show ?thesis using sm_inv_release [OF inv, of t Writing "[]"] by (simp add: sm_Unlock_def)
next
  case (runlock t ready w)
  then show ?thesis using sm_inv_release [OF inv, of t Reading "[]"] by (simp add: sm_RUnlock_def)
next
  case (downgrade t ready w)
  then show ?thesis
    using sm_inv_release [OF inv, of t Writing "[(t, Reading)]"] by (simp add: sm_UnlockToRLock_def less_imp_le)
qed

lemma sm_reachable_inv: "sm_reachable s \<Longrightarrow> sm_inv s"
proof (induction rule: sm_reachable.induct)
  case init
  show ?case by (simp add: sm_inv_def NewSemaphoredMutex_def NewWeighted_def blocked_front_def parties_def)
qed (rule sm_inv_step)

section \<open>Properties\<close>

text \<open>
  (C6) Mutual exclusion: in every reachable state a writer is alone, and there are never more than
  \<open>maxReaders\<close> holders.
\<close>

theorem sm_exclusion:
  assumes "sm_reachable s"
  shows "((t, Writing) \<in> set (held s) \<longrightarrow> held s = [(t, Writing)]) \<and> int (length (held s)) \<le> maxReaders"
proof -
  have inv: "tokens (held s) \<le> maxReaders" using sm_reachable_inv [OF assms] by (simp add: sm_inv_def)
  have "held s = [(t, Writing)]" if p: "(t, Writing) \<in> set (held s)"
  proof -
    have "tokens (remove1 (t, Writing) (held s)) \<le> 0" using tokens_remove1 [OF p] inv by simp
    then have "length (remove1 (t, Writing) (held s)) = 0"
      using tokens_length [of "remove1 (t, Writing) (held s)"] by linarith
    then have "remove1 (t, Writing) (held s) = []" by simp
    then show ?thesis using p by (cases "held s") (auto split: if_splits)
  qed
  then show ?thesis using inv tokens_length [of "held s"] by auto
qed

text \<open>
  Disciplined goroutines never panic and never miss their turn: releasing what one holds does
  not panic, nobody waits while the mutex is free, and a waiting writer means that the tokens are
  in use.
\<close>

theorem sm_progress:
  assumes "sm_reachable s"
  shows "((t, Writing) \<in> set (held s) \<longrightarrow>
      (\<exists>g w. sm_Unlock (sem s) = (Done g, w)) \<and> (\<exists>g w. sm_UnlockToRLock (sem s) = (Done g, w))) \<and>
    ((t, Reading) \<in> set (held s) \<longrightarrow> (\<exists>g w. sm_RUnlock (sem s) = (Done g, w))) \<and>
    (held s = [] \<longrightarrow> sem_waiters (sem s) = [])"
proof -
  have inv: "sm_inv s" by (rule sm_reachable_inv [OF assms])
  have ok: "\<exists>g w. Release n (sem s) = (Done g, w)" if "n \<le> tokens (held s)" for n
    using inv that by (auto simp: Release_def Let_def sm_inv_def split: prod.splits)
  have le: "weight m \<le> tokens (held s)" if "(t, m) \<in> set (held s)" for m
    using tokens_remove1 [OF that] tokens_nonneg [of "remove1 (t, m) (held s)"] by simp
  have "sem_waiters (sem s) = []" if "held s = []"
    using inv that by (auto simp: sm_inv_def blocked_front_def split: list.splits)
  moreover have "maxReaders - 1 \<le> tokens (held s)" if "(t, Writing) \<in> set (held s)"
    using le [OF that] by simp
  ultimately show ?thesis
    using ok [of "maxReaders - 1"] ok [of maxReaders] ok [of 1] le [of Writing] le [of Reading]
    unfolding sm_Unlock_def sm_UnlockToRLock_def sm_RUnlock_def weight.simps by blast
qed

text \<open>
  The queue is served in order and nobody jumps it: a step either appends the caller to the
  queue, or hands tokens to a prefix of the queue, and a lock is taken without waiting only when
  nobody waits. A waiting writer is therefore not overtaken by later readers.
\<close>

theorem sm_fifo:
  assumes "sm_reachable s" and "sm_step s s'"
  shows "(\<exists>w. sem_waiters (sem s') = sem_waiters (sem s) @ [w] \<and> held s' = held s) \<or>
    (\<exists>served rest. sem_waiters (sem s) = served @ sem_waiters (sem s') \<and> held s' = map mode_of served @ rest \<and>
       (set rest \<subseteq> set (held s) \<or> sem_waiters (sem s) = [] \<or> (\<exists>t. (t, Writing) \<in> set (held s) \<and>
          set rest \<subseteq> insert (t, Reading) (set (held s)))))"
proof -
  have inv: "sm_inv s" by (rule sm_reachable_inv [OF assms(1)])
  have rel: "\<exists>served rest. sem_waiters (sem s) = served @ sem_waiters w \<and>
      map mode_of ready @ h = map mode_of served @ rest \<and> rest = h"
    if "Release n (sem s) = (Done ready, w)" "0 \<le> n" for n ready w h
    using Release_spec [OF inv that] by auto
  show ?thesis using assms(2)
  proof cases
    case (lock t b w)
    then show ?thesis by (auto simp: sm_Lock_def Acquire_def split: if_splits)
  next
    case (rlock t b w)
    then show ?thesis by (auto simp: sm_RLock_def Acquire_def split: if_splits)
  next
    case (unlock t ready w)
    then have "sem_waiters (sem s) = ready @ sem_waiters w"
      using Release_spec [OF inv, of maxReaders] by (simp add: sm_Unlock_def less_imp_le)
    then show ?thesis using unlock(1) set_remove1_subset [of "(t, Writing)" "held s"] by auto
  next
    case (runlock t ready w)
    then have "sem_waiters (sem s) = ready @ sem_waiters w"
      using Release_spec [OF inv, of 1] by (simp add: sm_RUnlock_def)
    then show ?thesis using runlock(1) set_remove1_subset [of "(t, Reading)" "held s"] by auto
  next
    case (downgrade t ready w)
    then have "sem_waiters (sem s) = ready @ sem_waiters w"
      using Release_spec [OF inv, of "maxReaders - 1"] by (simp add: sm_UnlockToRLock_def less_imp_le)
    moreover have "set ((t, Reading) # remove1 (t, Writing) (held s)) \<subseteq> insert (t, Reading) (set (held s))"
      using set_remove1_subset [of "(t, Writing)" "held s"] by auto
    ultimately show ?thesis using downgrade(1,2) by fastforce
  qed
qed

section \<open>Witnesses\<close>

text \<open>A reader holds the mutex, a writer and a second reader wait.\<close>

definition ex_contended :: sm_sys where
  "ex_contended = \<lparr>sem = \<lparr>sem_size = maxReaders, sem_cur = 1, sem_waiters = [(1, maxReaders), (2, 1)]\<rparr>,
     held = [(0, Reading)]\<rparr>"

lemma ex_contended_reachable: "sm_reachable ex_contended"
proof -
  let ?i = "\<lparr>sem = NewSemaphoredMutex, held = []\<rparr>"
  let ?a = "\<lparr>sem = NewSemaphoredMutex\<lparr>sem_cur := 1\<rparr>, held = [(0, Reading)]\<rparr>"
  let ?b = "\<lparr>sem = NewSemaphoredMutex\<lparr>sem_cur := 1, sem_waiters := [(1, maxReaders)]\<rparr>, held = [(0, Reading)]\<rparr>"
  have "sm_step ?i ?a" using sm_step.rlock [of 0 ?i True "NewSemaphoredMutex\<lparr>sem_cur := 1\<rparr>"]
    by (simp add: parties_def sm_RLock_def Acquire_def NewSemaphoredMutex_def NewWeighted_def)
  moreover have "sm_step ?a ?b"
    using sm_step.lock [of 1 ?a False "NewSemaphoredMutex\<lparr>sem_cur := 1, sem_waiters := [(1, maxReaders)]\<rparr>"]
    by (simp add: parties_def sm_Lock_def Acquire_def NewSemaphoredMutex_def NewWeighted_def)
  moreover have "sm_step ?b ex_contended"
    using sm_step.rlock [of 2 ?b False "sem ex_contended"]
    by (simp add: parties_def sm_RLock_def Acquire_def NewSemaphoredMutex_def NewWeighted_def ex_contended_def)
  ultimately show ?thesis using sm_reachable.init sm_reachable.step by blast
qed

theorem sm_exclusion_witness: "(1, Writing) \<notin> set (held ex_contended) \<and> int (length (held ex_contended)) \<le> maxReaders"
  using sm_exclusion [OF ex_contended_reachable, of 1] by (simp add: ex_contended_def)

theorem sm_progress_witness: "\<exists>g w. sm_RUnlock (sem ex_contended) = (Done g, w)"
  using sm_progress [OF ex_contended_reachable, of 0] by (simp add: ex_contended_def)

theorem sm_fifo_witness:
  "\<exists>s' served. sm_step ex_contended s' \<and> sem_waiters (sem ex_contended) = served @ sem_waiters (sem s')"
proof -
  let ?w = "\<lparr>sem_size = maxReaders, sem_cur = maxReaders, sem_waiters = [(2, 1)]\<rparr>"
  let ?s = "\<lparr>sem = ?w, held = [(1, Writing)]\<rparr>"
  have "sm_step ex_contended ?s"
    using sm_step.runlock [of 0 ex_contended "[(1, maxReaders)]" ?w]
    by (simp add: sm_RUnlock_def Release_def ex_contended_def mode_of_def)
  moreover from sm_fifo [OF ex_contended_reachable this]
  have "\<exists>served. sem_waiters (sem ex_contended) = served @ sem_waiters (sem ?s)"
    by (auto simp: ex_contended_def)
  ultimately show ?thesis by blast
qed

end
