(* ===== verification/Trigger.thy ===== *)
theory Trigger
  imports Go_Base
begin

text \<open>
  \<open>src/pkg/util/trigger.go\<close>: a trigger folds requests into calls of a function that are
  serialised and at least \<open>MinInterval\<close> apart. \<open>Trigger\<close> is two atomic actions (the critical
  section and the non-blocking send on the channel of capacity one), the background goroutine
  \<open>waiter\<close> is a program counter, time passes between actions. The log of starts and of the
  folds each start served are ghost state; the user's functions are opaque.
\<close>

section \<open>State and operations\<close>

record Parameters =
  MinInterval :: int
  hasTriggerFunc :: bool     \<comment> \<open>\<open>TriggerFunc != nil\<close>\<close>
  hasShutdownFunc :: bool

text \<open>Where the waiter is: reading the flag, deciding on a delay, sleeping, starting, running, waiting, gone.\<close>

datatype waiter_pc = Reading | Deciding | Sleeping int | Starting | Running | Selecting | Gone

record Trigger =
  params :: Parameters
  trigger :: bool
  lastTrigger :: int
  numFolds :: nat
  wakeup :: bool              \<comment> \<open>\<open>wakeupChan\<close> holds its one element\<close>
  closed :: bool              \<comment> \<open>\<open>closeChan\<close> is closed\<close>
  waiter :: waiter_pc
  sending :: "nat set"        \<comment> \<open>goroutines in \<open>Trigger\<close> between the critical section and the send\<close>
  now :: int
  starts :: "int list"        \<comment> \<open>ghost: when the function was started, latest first\<close>
  served :: "nat list"        \<comment> \<open>ghost: the folds each start served\<close>
  requested :: nat            \<comment> \<open>ghost: the number of requests\<close>
  shutdowns :: nat            \<comment> \<open>ghost: calls of the shutdown function\<close>

definition NewTrigger :: "Parameters \<Rightarrow> int \<Rightarrow> go_error + Trigger" where
  "NewTrigger p n =
     (if \<not> hasTriggerFunc p then Inl (Errorf ''trigger function is nil'' [])
      else Inr \<lparr>params = p, trigger = False,
        lastTrigger = (if MinInterval p > 0 then n - MinInterval p else 0), numFolds = 0, wakeup = False,
        closed = False, waiter = Reading, sending = {}, now = n, starts = [], served = [], requested = 0,
        shutdowns = 0\<rparr>)"

definition needsDelay :: "Trigger \<Rightarrow> bool \<times> int" where
  "needsDelay t =
     (if MinInterval (params t) = 0 then (False, 0)
      else (let sleepTime = now t - (lastTrigger t + MinInterval (params t)) in (sleepTime < 0, sleepTime * -1)))"

text \<open>The two actions of \<open>Trigger\<close> by goroutine \<open>g\<close>.\<close>

definition trigger_mark :: "nat \<Rightarrow> Trigger \<Rightarrow> Trigger" where
  "trigger_mark g t = t\<lparr>trigger := True, numFolds := numFolds t + 1, sending := insert g (sending t),
     requested := requested t + 1\<rparr>"

definition trigger_send :: "nat \<Rightarrow> Trigger \<Rightarrow> Trigger" where
  "trigger_send g t = t\<lparr>wakeup := True, sending := sending t - {g}\<rparr>"

definition Shutdown :: "(Trigger, unit) go" where
  "Shutdown = (\<lambda>t. if closed t then (Panic CloseClosed, t) else (Done (), t\<lparr>closed := True\<rparr>))"

text \<open>
  The actions of the waiter; \<open>None\<close> while it has to wait. The select takes a ready case, of
  two ready ones either: \<open>pickClose\<close> is the choice.
\<close>

definition waiter_act :: "bool \<Rightarrow> Trigger \<Rightarrow> Trigger option" where
  "waiter_act pickClose t = (case waiter t of
      Reading \<Rightarrow> Some (t\<lparr>trigger := False, waiter := (if trigger t then Deciding else Selecting)\<rparr>)
    | Deciding \<Rightarrow> (case needsDelay t of
        (delayNeeded, delay) \<Rightarrow> Some (t\<lparr>waiter := (if delayNeeded then Sleeping (now t + delay) else Starting)\<rparr>))
    | Sleeping until \<Rightarrow> if now t \<ge> until then Some (t\<lparr>waiter := Starting\<rparr>) else None
    | Starting \<Rightarrow> Some (t\<lparr>lastTrigger := now t, numFolds := 0, waiter := Running,
        starts := now t # starts t, served := numFolds t # served t\<rparr>)
    | Running \<Rightarrow> Some (t\<lparr>waiter := Selecting\<rparr>)
    | Selecting \<Rightarrow>
        if closed t \<and> (pickClose \<or> \<not> wakeup t)
        then Some (t\<lparr>waiter := Gone, shutdowns := shutdowns t + (if hasShutdownFunc (params t) then 1 else 0)\<rparr>)
        else if wakeup t then Some (t\<lparr>wakeup := False, waiter := Reading\<rparr>) else None
    | Gone \<Rightarrow> None)"

inductive tr_step :: "Trigger \<Rightarrow> Trigger \<Rightarrow> bool" where
  mark: "g \<notin> sending t \<Longrightarrow> tr_step t (trigger_mark g t)"
| send: "g \<in> sending t \<Longrightarrow> tr_step t (trigger_send g t)"
| shut: "Shutdown t = (Done (), t') \<Longrightarrow> tr_step t t'"
| wait: "waiter_act c t = Some t' \<Longrightarrow> tr_step t t'"
| tick: "0 \<le> d \<Longrightarrow> tr_step t (t\<lparr>now := now t + d\<rparr>)"

inductive tr_reachable :: "Parameters \<Rightarrow> Trigger \<Rightarrow> bool" for p where
  init: "NewTrigger p n = Inr t \<Longrightarrow> tr_reachable p t"
| step: "tr_reachable p t \<Longrightarrow> tr_step t t' \<Longrightarrow> tr_reachable p t'"

section \<open>Invariant\<close>

text \<open>Consecutive starts, latest first, are at least \<open>m\<close> apart.\<close>

fun spaced :: "int \<Rightarrow> int list \<Rightarrow> bool" where
  "spaced m (a # b # xs) \<longleftrightarrow> m \<le> a - b \<and> spaced m (b # xs)"
| "spaced m _ \<longleftrightarrow> True"

definition pending :: "Trigger \<Rightarrow> bool" where
  "pending t \<longleftrightarrow> (case waiter t of Deciding \<Rightarrow> True | Sleeping _ \<Rightarrow> True | Starting \<Rightarrow> True | _ \<Rightarrow> False)"

definition tr_inv :: "Parameters \<Rightarrow> Trigger \<Rightarrow> bool" where
  "tr_inv p t \<longleftrightarrow> params t = p \<and>
     (trigger t \<longrightarrow> wakeup t \<or> sending t \<noteq> {} \<or> waiter t = Reading \<or> waiter t = Gone) \<and>
     (numFolds t > 0 \<longrightarrow> trigger t \<or> pending t) \<and>
     requested t = sum_list (served t) + numFolds t \<and>
     spaced (MinInterval p) (starts t) \<and>
     (starts t \<noteq> [] \<longrightarrow> lastTrigger t = hd (starts t) \<and> lastTrigger t \<le> now t) \<and>
     (\<forall>u. waiter t = Sleeping u \<longrightarrow> u = lastTrigger t + MinInterval p) \<and>
     (waiter t = Starting \<longrightarrow> starts t \<noteq> [] \<longrightarrow> lastTrigger t + MinInterval p \<le> now t)"

lemma tr_inv_init: "NewTrigger p n = Inr t \<Longrightarrow> tr_inv p t"
  by (auto simp: NewTrigger_def tr_inv_def pending_def split: if_splits)

lemma spaced_Cons: "spaced m (a # xs) \<longleftrightarrow> spaced m xs \<and> (xs \<noteq> [] \<longrightarrow> m \<le> a - hd xs)"
  by (cases xs) auto

lemma tr_inv_wait:
  assumes "tr_inv p t" and "waiter_act c t = Some t'"
  shows "tr_inv p t'"
proof (cases "waiter t")
  case Reading
  then show ?thesis using assms by (auto simp: waiter_act_def tr_inv_def pending_def split: if_splits)
next
  case Deciding
  then show ?thesis using assms
    by (auto simp: waiter_act_def tr_inv_def pending_def needsDelay_def Let_def split: if_splits)
next
  case (Sleeping u)
  then show ?thesis using assms by (auto simp: waiter_act_def tr_inv_def pending_def split: if_splits)
next
  case Starting
  then show ?thesis using assms by (auto simp: waiter_act_def tr_inv_def pending_def spaced_Cons)
next
  case Running
  then show ?thesis using assms by (auto simp: waiter_act_def tr_inv_def pending_def)
next
  case Selecting
  then have "t' = t\<lparr>waiter := Gone, shutdowns := shutdowns t + (if hasShutdownFunc (params t) then 1 else 0)\<rparr> \<or>
      t' = t\<lparr>wakeup := False, waiter := Reading\<rparr>"
    using assms(2) unfolding waiter_act_def by (simp split: if_split_asm)
  then consider n where "t' = t\<lparr>waiter := Gone, shutdowns := n\<rparr>" | "t' = t\<lparr>wakeup := False, waiter := Reading\<rparr>"
    by blast
  then show ?thesis
  proof cases
    case 1
    then show ?thesis using assms(1) Selecting by (auto simp: tr_inv_def pending_def)
  next
    case 2
    then show ?thesis using assms(1) Selecting by (auto simp: tr_inv_def pending_def)
  qed
next
  case Gone
  then show ?thesis using assms by (simp add: waiter_act_def)
qed

lemma pending_upd [simp]:
  "pending (t\<lparr>trigger := b\<rparr>) = pending t" "pending (t\<lparr>numFolds := n\<rparr>) = pending t"
  "pending (t\<lparr>sending := g\<rparr>) = pending t" "pending (t\<lparr>requested := r\<rparr>) = pending t"
  "pending (t\<lparr>wakeup := w\<rparr>) = pending t" "pending (t\<lparr>closed := c\<rparr>) = pending t" "pending (t\<lparr>now := i\<rparr>) = pending t"
  by (simp_all add: pending_def)

lemma tr_inv_step:
  assumes inv: "tr_inv p t" and "tr_step t t'"
  shows "tr_inv p t'"
  using assms(2)
proof cases
  case (mark g)
  then show ?thesis using inv by (auto simp: tr_inv_def trigger_mark_def)
next
  case (send g)
  then show ?thesis using inv by (auto simp: tr_inv_def trigger_send_def)
next
  case shut
  then have "t' = t\<lparr>closed := True\<rparr>" by (simp add: Shutdown_def split: if_splits)
  then show ?thesis using inv by (auto simp: tr_inv_def)
next
  case (wait c)
  then show ?thesis using inv tr_inv_wait by blast
next
  case (tick d)
  then show ?thesis using inv by (auto simp: tr_inv_def)
qed

lemma tr_reachable_inv: "tr_reachable p t \<Longrightarrow> tr_inv p t"
  by (induction rule: tr_reachable.induct) (auto intro: tr_inv_init tr_inv_step)

section \<open>Properties\<close>


text \<open>
  (C24) No request is lost: every request is counted by exactly one start or still in \<open>numFolds\<close>, and
  while requests are outstanding and nobody is inside \<open>Trigger\<close>, the waiter is not stuck on its
  channel: it is on its way to start the function, or it can take a step, unless it was shut down.
\<close>

theorem trigger_no_lost_request:
  assumes "tr_reachable p t"
  shows "requested t = sum_list (served t) + numFolds t \<and>
    (numFolds t > 0 \<and> sending t = {} \<and> waiter t \<noteq> Gone \<longrightarrow>
      pending t \<or> (trigger t \<and> waiter_act False t \<noteq> None))"
proof -
  have inv: "tr_inv p t" by (rule tr_reachable_inv [OF assms])
  have "waiter_act False t \<noteq> None" if "trigger t" "sending t = {}" "waiter t \<noteq> Gone" "\<not> pending t"
    using that inv by (cases "waiter t") (auto simp: tr_inv_def pending_def waiter_act_def)
  then show ?thesis using inv by (auto simp: tr_inv_def)
qed

text \<open>
  A request is served: from any state in which a request is outstanding, nobody is inside
  \<open>Trigger\<close> and the waiter is about to read the flag, letting the waiter run and the delay pass
  starts the function, clears \<open>numFolds\<close> and records the number of folded requests.
\<close>

theorem trigger_serves:
  assumes r: "tr_reachable p t" and w: "waiter t = Reading" and f: "numFolds t > 0"
  shows "\<exists>t'. tr_step\<^sup>*\<^sup>* t t' \<and> waiter t' = Running \<and> numFolds t' = 0 \<and> served t' = numFolds t # served t \<and>
    starts t' = now t' # starts t"
proof -
  have tr: "trigger t" using tr_reachable_inv [OF r] w f by (auto simp: tr_inv_def pending_def)
  let ?a = "t\<lparr>trigger := False, waiter := Deciding\<rparr>"
  have 1: "tr_step t ?a" by (rule tr_step.wait [of False]) (simp add: waiter_act_def w tr)
  obtain dn d where nd: "needsDelay ?a = (dn, d)" by (cases "needsDelay ?a")
  have d: "dn \<Longrightarrow> d \<ge> 0" using nd by (auto simp: needsDelay_def Let_def split: if_splits)
  obtain n where n: "tr_step\<^sup>*\<^sup>* ?a (?a\<lparr>now := n, waiter := Starting\<rparr>)"
  proof (cases dn)
    case False
    have "tr_step ?a (?a\<lparr>waiter := Starting\<rparr>)"
      by (rule tr_step.wait [of False]) (simp add: waiter_act_def nd False)
    then show thesis using that [of "now t"] by (simp add: r_into_rtranclp)
  next
    case True
    let ?b = "?a\<lparr>waiter := Sleeping (now t + d)\<rparr>"
    have "tr_step ?a ?b" by (rule tr_step.wait [of False]) (simp add: waiter_act_def nd True)
    moreover have "tr_step ?b (?b\<lparr>now := now ?b + d\<rparr>)" by (rule tr_step.tick) (use d True in simp)
    moreover have "tr_step (?b\<lparr>now := now ?b + d\<rparr>) (?b\<lparr>now := now ?b + d, waiter := Starting\<rparr>)"
      by (rule tr_step.wait [of False]) (simp add: waiter_act_def)
    ultimately have "tr_step\<^sup>*\<^sup>* ?a (?b\<lparr>now := now ?b + d, waiter := Starting\<rparr>)"
      by (meson r_into_rtranclp rtranclp.rtrancl_into_rtrancl)
    then show thesis using that [of "now t + d"] by simp
  qed
  let ?c = "?a\<lparr>now := n, waiter := Starting\<rparr>"
  let ?e = "?c\<lparr>lastTrigger := now ?c, numFolds := 0, waiter := Running,
        starts := now ?c # starts ?c, served := numFolds ?c # served ?c\<rparr>"
  have "tr_step ?c ?e" by (rule tr_step.wait [of False]) (simp add: waiter_act_def)
  with 1 n have "tr_step\<^sup>*\<^sup>* t ?e" by (meson converse_rtranclp_into_rtranclp rtranclp.rtrancl_into_rtrancl)
  then show ?thesis by (intro exI [of _ ?e]) simp
qed

text \<open>Shutting down twice closes a closed channel and panics.\<close>

theorem Shutdown_twice:
  "\<exists>t'. andThen Shutdown (\<lambda>_. Shutdown) t = (Panic CloseClosed, t')"
  by (simp add: Shutdown_def andThen_apply)

section \<open>Witnesses\<close>

text \<open>Schedules of actions, executed.\<close>

datatype tr_action = Mark nat | Send nat | Wait | Tick nat

fun tr_do :: "tr_action \<Rightarrow> Trigger \<Rightarrow> Trigger option" where
  "tr_do (Mark g) t = (if g \<in> sending t then None else Some (trigger_mark g t))"
| "tr_do (Send g) t = (if g \<in> sending t then Some (trigger_send g t) else None)"
| "tr_do Wait t = waiter_act False t"
| "tr_do (Tick d) t = Some (t\<lparr>now := now t + int d\<rparr>)"

fun tr_run :: "tr_action list \<Rightarrow> Trigger \<Rightarrow> Trigger option" where
  "tr_run [] t = Some t"
| "tr_run (a # as) t = (case tr_do a t of None \<Rightarrow> None | Some t' \<Rightarrow> tr_run as t')"

lemma tr_do_step: "tr_do a t = Some t' \<Longrightarrow> tr_step t t'"
  by (cases a) (auto intro: tr_step.intros split: if_splits)

lemma tr_run_reachable: "tr_reachable p t \<Longrightarrow> tr_run as t = Some t' \<Longrightarrow> tr_reachable p t'"
proof (induction as arbitrary: t)
  case (Cons a as)
  then obtain u where u: "tr_do a t = Some u" "tr_run as u = Some t'" by (auto split: option.splits)
  have "tr_reachable p u" using Cons.prems(1) tr_do_step [OF u(1)] by (rule tr_reachable.step)
  then show ?case using u(2) by (rule Cons.IH)
qed simp

definition ex_params :: Parameters where
  "ex_params = \<lparr>MinInterval = 10, hasTriggerFunc = True, hasShutdownFunc = False\<rparr>"

definition ex_trigger :: Trigger where
  "ex_trigger = (case NewTrigger ex_params 0 of Inr t \<Rightarrow> t)"

lemma ex_trigger_reachable: "tr_reachable ex_params ex_trigger"
  by (rule tr_reachable.init [of _ 0]) (simp add: ex_trigger_def ex_params_def NewTrigger_def)

text \<open>Two requests, served ten units apart although the second came three units after the first.\<close>

definition ex_schedule :: "tr_action list" where
  "ex_schedule = [Mark 0, Send 0, Wait, Wait, Wait, Wait, Tick 3, Mark 1, Mark 0, Wait, Wait, Wait, Tick 7, Wait, Wait]"

lemmas ex_trigger_simps = ex_trigger_def ex_params_def NewTrigger_def ex_schedule_def trigger_mark_def
  trigger_send_def waiter_act_def needsDelay_def Let_def


definition ex_requested :: Trigger where
  "ex_requested = trigger_send 0 (trigger_mark 0 ex_trigger)"

lemma ex_requested_reachable: "tr_reachable ex_params ex_requested"
proof -
  have "tr_run [Mark 0, Send 0] ex_trigger = Some ex_requested"
    by (simp add: ex_trigger_simps ex_requested_def)
  with ex_trigger_reachable show ?thesis by (rule tr_run_reachable)
qed

theorem trigger_no_lost_request_witness: "trigger ex_requested \<and> waiter_act False ex_requested \<noteq> None"
  using trigger_no_lost_request [OF ex_requested_reachable]
  by (simp add: ex_trigger_simps ex_requested_def pending_def)

theorem trigger_serves_witness:
  "\<exists>t'. tr_step\<^sup>*\<^sup>* ex_requested t' \<and> waiter t' = Running \<and> numFolds t' = 0 \<and> served t' = [1]"
  using trigger_serves [OF ex_requested_reachable] by (auto simp: ex_trigger_simps ex_requested_def)

end
