(* ===== verification/Waitgroup.thy ===== *)
theory Waitgroup
  imports Go_Base
begin

text \<open>
  \<open>src/pkg/lock/stoppable_waitgroup.go\<close>: a wait group that can be stopped. First every method as
  one step, including on a zero value of the struct (nil channels, nil counter); then the same
  methods as sequences of the atomic actions of their goroutines, whose interleavings are the
  reachable states of the inductive step relation \<open>wg_step\<close>.
\<close>

section \<open>The methods, one call at a time\<close>

text \<open>A channel nobody sends on: it is nil, open (a receive waits) or closed (a receive returns).\<close>

datatype sigchan = NilChan | Open | Closed

record StoppableWaitGroup =
  noopDone :: sigchan
  noopAdd :: sigchan
  counter :: "int option"   \<comment> \<open>the pointer \<open>i\<close> and what it points to\<close>
  doneOnce :: bool          \<comment> \<open>the function of the \<open>sync.Once\<close> has run\<close>
  stopOnce :: bool

definition NewStoppableWaitGroup :: StoppableWaitGroup where
  "NewStoppableWaitGroup = \<lparr>noopDone = Open, noopAdd = Open, counter = Some 0,
     doneOnce = False, stopOnce = False\<rparr>"

text \<open>\<open>var wg StoppableWaitGroup\<close>.\<close>

definition zeroStoppableWaitGroup :: StoppableWaitGroup where
  "zeroStoppableWaitGroup = \<lparr>noopDone = NilChan, noopAdd = NilChan, counter = None,
     doneOnce = False, stopOnce = False\<rparr>"

definition addCounter :: "int \<Rightarrow> (StoppableWaitGroup, int) go" where
  "addCounter d = (\<lambda>l. case counter l of
      None \<Rightarrow> (Panic NilDeref, l)
    | Some n \<Rightarrow> (Done (n + d), l\<lparr>counter := Some (n + d)\<rparr>))"

fun close_chan :: "sigchan \<Rightarrow> sigchan outcome" where
  "close_chan NilChan = Panic CloseNil"
| "close_chan Open = Done Closed"
| "close_chan Closed = Panic CloseClosed"

definition closeDone :: "(StoppableWaitGroup, unit) go" where
  "closeDone = andThen (gets noopDone) (\<lambda>c. andThen (lift (close_chan c)) (\<lambda>c'. modify (\<lambda>l. l\<lparr>noopDone := c'\<rparr>)))"

definition closeAdd :: "(StoppableWaitGroup, unit) go" where
  "closeAdd = andThen (gets noopAdd) (\<lambda>c. andThen (lift (close_chan c)) (\<lambda>c'. modify (\<lambda>l. l\<lparr>noopAdd := c'\<rparr>)))"

text \<open>\<open>l.doneOnce.Do(func() { close(l.noopDone) })\<close>\<close>

definition doDoneOnce :: "(StoppableWaitGroup, unit) go" where
  "doDoneOnce = andThen (gets doneOnce) (\<lambda>d. if d then ret ()
     else andThen (modify (\<lambda>l. l\<lparr>doneOnce := True\<rparr>)) (\<lambda>_. closeDone))"

definition swg_Add :: "(StoppableWaitGroup, unit) go" where
  "swg_Add = andThen (gets noopAdd) (\<lambda>c.
     if c = Closed then ret () else andThen (addCounter 1) (\<lambda>_. ret ()))"

definition swg_Done :: "(StoppableWaitGroup, unit) go" where
  "swg_Done = andThen (gets noopDone) (\<lambda>d.
     if d = Closed then ret ()
     else andThen (gets noopAdd) (\<lambda>c.
       if c = Closed
       then andThen (addCounter (-1)) (\<lambda>a. if a \<le> 0 then doDoneOnce else ret ())
       else andThen (addCounter (-1)) (\<lambda>a. andThen (gets noopAdd) (\<lambda>c.
         if c = Closed then (if a \<le> 0 then doDoneOnce else ret ()) else ret ()))))"

definition swg_Stop :: "(StoppableWaitGroup, unit) go" where
  "swg_Stop = andThen (gets stopOnce) (\<lambda>d. if d then ret ()
     else andThen (modify (\<lambda>l. l\<lparr>stopOnce := True\<rparr>)) (\<lambda>_.
       andThen swg_Add (\<lambda>_. andThen closeAdd (\<lambda>_. swg_Done))))"

definition swg_Wait :: "(StoppableWaitGroup, unit) go" where
  "swg_Wait = andThen (gets noopDone) (\<lambda>c. if c = Closed then ret () else block)"

definition swg_WaitChannel :: "(StoppableWaitGroup, sigchan) go" where
  "swg_WaitChannel = gets noopDone"

text \<open>A sequence of calls.\<close>

datatype wg_call = CallAdd | CallDone | CallStop

fun wg_call_of :: "wg_call \<Rightarrow> (StoppableWaitGroup, unit) go" where
  "wg_call_of CallAdd = swg_Add"
| "wg_call_of CallDone = swg_Done"
| "wg_call_of CallStop = swg_Stop"

text \<open>
  The reference: before \<open>Stop\<close> the group counts; \<open>Stop\<close> releases the waiters if the balance is
  not positive; afterwards additions are ignored and the balance only falls, releasing the
  waiters when it reaches zero.
\<close>

datatype wg_spec = Counting int | Draining int | Released int

fun spec_call :: "wg_call \<Rightarrow> wg_spec \<Rightarrow> wg_spec" where
  "spec_call CallAdd (Counting n) = Counting (n + 1)"
| "spec_call CallDone (Counting n) = Counting (n - 1)"
| "spec_call CallStop (Counting n) = (if n \<le> 0 then Released n else Draining n)"
| "spec_call CallDone (Draining n) = (if n \<le> 1 then Released (n - 1) else Draining (n - 1))"
| "spec_call _ sp = sp"

fun wg_abs :: "wg_spec \<Rightarrow> StoppableWaitGroup" where
  "wg_abs (Counting n) = \<lparr>noopDone = Open, noopAdd = Open, counter = Some n, doneOnce = False, stopOnce = False\<rparr>"
| "wg_abs (Draining n) = \<lparr>noopDone = Open, noopAdd = Closed, counter = Some n, doneOnce = False, stopOnce = True\<rparr>"
| "wg_abs (Released n) = \<lparr>noopDone = Closed, noopAdd = Closed, counter = Some n, doneOnce = True, stopOnce = True\<rparr>"

lemmas swg_defs = swg_Add_def swg_Done_def swg_Stop_def swg_Wait_def doDoneOnce_def closeDone_def
  closeAdd_def addCounter_def

text \<open>
  Called one at a time, the methods implement the reference: a wait returns exactly when the
  group was stopped and the number of \<open>Done\<close> calls has caught up with the number of \<open>Add\<close> calls
  made before the stop.
\<close>

theorem swg_refines:
  "wg_call_of c (wg_abs sp) = (Done (), wg_abs (spec_call c sp)) \<and>
   fst (swg_Wait (wg_abs sp)) = (case sp of Released _ \<Rightarrow> Done () | _ \<Rightarrow> Blocked) \<and>
   NewStoppableWaitGroup = wg_abs (Counting 0)"
  by (cases c; cases sp) (simp_all add: swg_defs andThen_apply NewStoppableWaitGroup_def)

text \<open>
  A zero value is unusable: the first \<open>Add\<close> and every \<open>Done\<close> dereference the nil counter,
  and \<open>Wait\<close> blocks for ever on the nil channel.
\<close>

theorem swg_zero_unusable:
  "swg_Add zeroStoppableWaitGroup = (Panic NilDeref, zeroStoppableWaitGroup) \<and>
   swg_Done zeroStoppableWaitGroup = (Panic NilDeref, zeroStoppableWaitGroup) \<and>
   swg_Wait zeroStoppableWaitGroup = (Blocked, zeroStoppableWaitGroup)"
  by (simp add: swg_defs andThen_apply zeroStoppableWaitGroup_def)

section \<open>Interleavings\<close>

text \<open>
  The program counter of a goroutine. The flag says that the action belongs to the body of
  \<open>stopOnce.Do\<close>, which calls \<open>Add\<close>, closes \<open>noopAdd\<close> and calls \<open>Done\<close>. An atomic action is
  one select, one atomic addition, one close, or the entry of a \<open>sync.Once\<close>, whose other callers
  wait until its function has returned (\<open>stopping\<close>).
\<close>

datatype wg_pc =
    Idle
  | Add0 bool | Add1 bool
  | CloseAdd
  | Done0 bool | Done1 bool
  | DecStopped bool | CloseIf bool int
  | DecRunning bool | Recheck bool int
  | Stop0

record wg_shared =
  grp :: StoppableWaitGroup
  stopping :: bool

definition onGrp :: "(StoppableWaitGroup, 'a) go \<Rightarrow> (wg_shared, 'a) go" where
  "onGrp m = (\<lambda>s. case m (grp s) of (r, g) \<Rightarrow> (r, s\<lparr>grp := g\<rparr>))"

definition finish :: "bool \<Rightarrow> (wg_shared, wg_pc) go" where
  "finish k = (if k then andThen (modify (\<lambda>s. s\<lparr>grp := (grp s)\<lparr>stopOnce := True\<rparr>, stopping := False\<rparr>)) (\<lambda>_. ret Idle)
     else ret Idle)"

fun micro :: "wg_pc \<Rightarrow> (wg_shared, wg_pc) go" where
  "micro Idle = block"
| "micro (Add0 k) = andThen (gets (\<lambda>s. noopAdd (grp s))) (\<lambda>c.
     if c = Closed then ret (if k then CloseAdd else Idle) else ret (Add1 k))"
| "micro (Add1 k) = andThen (onGrp (addCounter 1)) (\<lambda>_. ret (if k then CloseAdd else Idle))"
| "micro CloseAdd = andThen (onGrp closeAdd) (\<lambda>_. ret (Done0 True))"
| "micro (Done0 k) = andThen (gets (\<lambda>s. noopDone (grp s))) (\<lambda>c. if c = Closed then finish k else ret (Done1 k))"
| "micro (Done1 k) = andThen (gets (\<lambda>s. noopAdd (grp s))) (\<lambda>c.
     ret (if c = Closed then DecStopped k else DecRunning k))"
| "micro (DecStopped k) = andThen (onGrp (addCounter (-1))) (\<lambda>a. ret (CloseIf k a))"
| "micro (CloseIf k a) = andThen (if a \<le> 0 then onGrp doDoneOnce else ret ()) (\<lambda>_. finish k)"
| "micro (DecRunning k) = andThen (onGrp (addCounter (-1))) (\<lambda>a. ret (Recheck k a))"
| "micro (Recheck k a) = andThen (gets (\<lambda>s. noopAdd (grp s))) (\<lambda>c.
     if c = Closed then andThen (if a \<le> 0 then onGrp doDoneOnce else ret ()) (\<lambda>_. finish k) else finish k)"
| "micro Stop0 = andThen (gets id) (\<lambda>s.
     if stopOnce (grp s) then ret Idle
     else if stopping s then block
     else andThen (modify (\<lambda>s. s\<lparr>stopping := True\<rparr>)) (\<lambda>_. ret (Add0 True)))"

record wg_sys =
  shared :: wg_shared
  pcs :: "nat \<Rightarrow> wg_pc"

definition wg_init :: wg_sys where
  "wg_init = \<lparr>shared = \<lparr>grp = NewStoppableWaitGroup, stopping = False\<rparr>, pcs = (\<lambda>_. Idle)\<rparr>"

inductive wg_step :: "wg_sys \<Rightarrow> wg_sys \<Rightarrow> bool" where
  call: "pcs s t = Idle \<Longrightarrow> pc \<in> {Add0 False, Done0 False, Stop0} \<Longrightarrow> wg_step s (s\<lparr>pcs := (pcs s)(t := pc)\<rparr>)"
| act: "micro (pcs s t) (shared s) = (Done pc', sh') \<Longrightarrow>
    wg_step s (s\<lparr>shared := sh', pcs := (pcs s)(t := pc')\<rparr>)"

inductive wg_reachable :: "wg_sys \<Rightarrow> bool" where
  init: "wg_reachable wg_init"
| step: "wg_reachable s \<Longrightarrow> wg_step s s' \<Longrightarrow> wg_reachable s'"

text \<open>Where a goroutine is: in the stop body, before its close, before its decrement, about to release.\<close>

fun in_stop :: "wg_pc \<Rightarrow> bool" where
  "in_stop (Add0 k) = k" | "in_stop (Add1 k) = k" | "in_stop CloseAdd = True"
| "in_stop (Done0 k) = k" | "in_stop (Done1 k) = k" | "in_stop (DecStopped k) = k"
| "in_stop (CloseIf k a) = k" | "in_stop (DecRunning k) = k" | "in_stop (Recheck k a) = k"
| "in_stop _ = False"

fun before_close :: "wg_pc \<Rightarrow> bool" where
  "before_close (Add0 k) = k" | "before_close (Add1 k) = k" | "before_close CloseAdd = True"
| "before_close _ = False"

fun before_dec :: "wg_pc \<Rightarrow> bool" where
  "before_dec (Done0 k) = k" | "before_dec (Done1 k) = k" | "before_dec (DecStopped k) = k"
| "before_dec (DecRunning k) = k" | "before_dec _ = False"

fun saw_closed :: "wg_pc \<Rightarrow> bool" where
  "saw_closed (DecStopped k) = True" | "saw_closed (CloseIf k a) = True" | "saw_closed _ = False"

fun releasing :: "wg_pc \<Rightarrow> bool" where
  "releasing (CloseIf k a) = (a \<le> 0)" | "releasing (Recheck k a) = (a \<le> 0)" | "releasing _ = False"

text \<open>
  The invariant, in parts that look at one goroutine at a time. The shared state: the channels
  are not nil and close in order. One goroutine: it is in the stop body only while \<open>stopping\<close>, and
  the close of \<open>noopAdd\<close> divides that body. The last part: when the stop body has done its
  decrement, a non-positive counter means that the waiters are released or about to be.
\<close>

definition shared_ok :: "wg_shared \<Rightarrow> bool" where
  "shared_ok sh \<longleftrightarrow> noopDone (grp sh) \<noteq> NilChan \<and> noopAdd (grp sh) \<noteq> NilChan \<and> counter (grp sh) \<noteq> None \<and>
     doneOnce (grp sh) = (noopDone (grp sh) = Closed) \<and>
     (noopDone (grp sh) = Closed \<longrightarrow> noopAdd (grp sh) = Closed) \<and>
     (noopAdd (grp sh) = Closed \<longrightarrow> stopOnce (grp sh) \<or> stopping sh) \<and>
     (stopOnce (grp sh) \<longrightarrow> noopAdd (grp sh) = Closed \<and> \<not> stopping sh)"

definition pc_ok :: "wg_shared \<Rightarrow> wg_pc \<Rightarrow> bool" where
  "pc_ok sh p \<longleftrightarrow> (in_stop p \<longrightarrow> stopping sh \<and> (noopAdd (grp sh) = Open) = before_close p) \<and>
     (saw_closed p \<longrightarrow> noopAdd (grp sh) = Closed)"

definition no_lost_release :: "wg_shared \<Rightarrow> bool \<Rightarrow> bool \<Rightarrow> bool" where
  "no_lost_release sh pending soon \<longleftrightarrow> (noopAdd (grp sh) = Closed \<and> the (counter (grp sh)) \<le> 0 \<and> \<not> pending \<longrightarrow>
     noopDone (grp sh) = Closed \<or> soon)"

definition wg_inv :: "wg_sys \<Rightarrow> bool" where
  "wg_inv s \<longleftrightarrow> shared_ok (shared s) \<and> (\<forall>t. pc_ok (shared s) (pcs s t)) \<and>
     (\<forall>t u. in_stop (pcs s t) \<longrightarrow> in_stop (pcs s u) \<longrightarrow> t = u) \<and>
     no_lost_release (shared s) (\<exists>t. before_dec (pcs s t)) (\<exists>t. releasing (pcs s t))"

lemma before_close_in_stop: "before_close p \<Longrightarrow> in_stop p" and before_dec_in_stop: "before_dec p \<Longrightarrow> in_stop p"
  by (cases p; simp)+

text \<open>The actions on an explicit shared state.\<close>

lemma micro_eval:
  "micro (Add0 k) sh = (Done (if noopAdd (grp sh) = Closed then if k then CloseAdd else Idle else Add1 k), sh)"
  "counter (grp sh) = Some n \<Longrightarrow> micro (Add1 k) sh =
     (Done (if k then CloseAdd else Idle), sh\<lparr>grp := (grp sh)\<lparr>counter := Some (n + 1)\<rparr>\<rparr>)"
  "noopAdd (grp sh) = Open \<Longrightarrow> micro CloseAdd sh = (Done (Done0 True), sh\<lparr>grp := (grp sh)\<lparr>noopAdd := Closed\<rparr>\<rparr>)"
  "micro (Done0 k) sh = (if noopDone (grp sh) = Closed then finish k sh else (Done (Done1 k), sh))"
  "micro (Done1 k) sh = (Done (if noopAdd (grp sh) = Closed then DecStopped k else DecRunning k), sh)"
  "counter (grp sh) = Some n \<Longrightarrow> micro (DecStopped k) sh =
     (Done (CloseIf k (n - 1)), sh\<lparr>grp := (grp sh)\<lparr>counter := Some (n - 1)\<rparr>\<rparr>)"
  "counter (grp sh) = Some n \<Longrightarrow> micro (DecRunning k) sh =
     (Done (Recheck k (n - 1)), sh\<lparr>grp := (grp sh)\<lparr>counter := Some (n - 1)\<rparr>\<rparr>)"
  "doneOnce (grp sh) = (noopDone (grp sh) = Closed) \<Longrightarrow> noopDone (grp sh) \<noteq> NilChan \<Longrightarrow> micro (CloseIf k a) sh =
     finish k (if a \<le> 0 then sh\<lparr>grp := (grp sh)\<lparr>noopDone := Closed, doneOnce := True\<rparr>\<rparr> else sh)"
  "doneOnce (grp sh) = (noopDone (grp sh) = Closed) \<Longrightarrow> noopDone (grp sh) \<noteq> NilChan \<Longrightarrow> micro (Recheck k a) sh =
     finish k (if noopAdd (grp sh) = Closed \<and> a \<le> 0
       then sh\<lparr>grp := (grp sh)\<lparr>noopDone := Closed, doneOnce := True\<rparr>\<rparr> else sh)"
  "micro Stop0 sh = (if stopOnce (grp sh) then (Done Idle, sh) else if stopping sh then (Blocked, sh)
     else (Done (Add0 True), sh\<lparr>stopping := True\<rparr>))"
  "finish k sh = (Done Idle, if k then sh\<lparr>grp := (grp sh)\<lparr>stopOnce := True\<rparr>, stopping := False\<rparr> else sh)"
  by (simp_all add: onGrp_def finish_def addCounter_def closeAdd_def)
    (cases "noopDone (grp sh)"; cases sh; cases "grp sh";
      simp add: doDoneOnce_def closeDone_def onGrp_def andThen_apply; fail)+

declare micro.simps [simp del]

lemma shared_okD:
  assumes "shared_ok sh"
  shows "doneOnce (grp sh) = (noopDone (grp sh) = Closed)" and "noopDone (grp sh) \<noteq> NilChan"
    and "noopAdd (grp sh) = Open \<or> noopAdd (grp sh) = Closed" and "\<exists>n. counter (grp sh) = Some n"
  using assms by (cases "noopAdd (grp sh)"; auto simp: shared_ok_def)+

text \<open>What one action does: to the shared state and its goroutine, to another goroutine, and to the last part.\<close>


text \<open>What one action does: to the shared state and its goroutine, to another goroutine, and to the last part.\<close>

lemma micro_own:
  assumes ok: "shared_ok sh"
  shows "pc_ok sh p \<Longrightarrow> micro p sh = (Done p', sh') \<Longrightarrow>
    shared_ok sh' \<and> pc_ok sh' p' \<and> (in_stop p' \<longrightarrow> in_stop p \<or> \<not> stopping sh)"
proof -
  obtain n where "counter (grp sh) = Some n" using shared_okD(4) [OF ok] by blast
  with ok shared_okD(1-3) [OF ok]
  show "pc_ok sh p \<Longrightarrow> micro p sh = (Done p', sh') \<Longrightarrow> ?thesis"
    by (cases p; hypsubst_thin; auto simp: micro.simps(1) micro_eval shared_ok_def pc_ok_def split: if_splits)
qed

lemma micro_other:
  assumes ok: "shared_ok sh"
  shows "pc_ok sh p \<Longrightarrow> micro p sh = (Done p', sh') \<Longrightarrow> pc_ok sh q \<Longrightarrow> \<not> (in_stop p \<and> in_stop q) \<Longrightarrow>
    pc_ok sh' q"
proof -
  obtain n where "counter (grp sh) = Some n" using shared_okD(4) [OF ok] by blast
  with shared_okD(1-3) [OF ok]
  show "pc_ok sh p \<Longrightarrow> micro p sh = (Done p', sh') \<Longrightarrow> pc_ok sh q \<Longrightarrow> \<not> (in_stop p \<and> in_stop q) \<Longrightarrow> ?thesis"
    by (cases p; hypsubst_thin; auto simp: micro.simps(1) micro_eval pc_ok_def split: if_splits)
qed

lemma micro_release:
  assumes ok: "shared_ok sh"
  shows "pc_ok sh p \<Longrightarrow> micro p sh = (Done p', sh') \<Longrightarrow>
    no_lost_release sh (before_dec p \<or> po) (releasing p \<or> ro) \<Longrightarrow>
    no_lost_release sh' (before_dec p' \<or> po) (releasing p' \<or> ro)"
proof -
  obtain n where "counter (grp sh) = Some n" using shared_okD(4) [OF ok] by blast
  with shared_okD(1-3) [OF ok]
  show "pc_ok sh p \<Longrightarrow> micro p sh = (Done p', sh') \<Longrightarrow>
      no_lost_release sh (before_dec p \<or> po) (releasing p \<or> ro) \<Longrightarrow> ?thesis"
    by (cases p; hypsubst_thin; auto simp: micro.simps(1) micro_eval pc_ok_def no_lost_release_def split: if_splits)
qed

lemma wg_inv_init: "wg_inv wg_init"
  by (simp add: wg_inv_def wg_init_def NewStoppableWaitGroup_def shared_ok_def pc_ok_def no_lost_release_def)

lemma ex_fun_upd: "(\<exists>u. P ((f(t := x)) u)) \<longleftrightarrow> P x \<or> (\<exists>u. u \<noteq> t \<and> P (f u))"
  by auto

lemma ex_split: "(\<exists>u. P u) \<longleftrightarrow> P t \<or> (\<exists>u. u \<noteq> t \<and> P u)"
  by auto

lemma wg_inv_step:
  assumes inv: "wg_inv s" and "wg_step s s'"
  shows "wg_inv s'"
  using assms(2)
proof cases
  case (call t pc)
  have "pc_ok (shared s) pc" "\<not> in_stop pc" "\<not> before_dec pc" "\<not> releasing pc"
    using call(3) by (auto simp: pc_ok_def)
  moreover have "\<not> before_dec (pcs s t)" "\<not> releasing (pcs s t)" using call(2) by simp_all
  ultimately show ?thesis using inv call(1) unfolding wg_inv_def
    by (auto simp: ex_fun_upd no_lost_release_def)
next
  case (act t pc' sh')
  let ?p = "pcs s t"
  have ok: "shared_ok (shared s)" "pc_ok (shared s) ?p" using inv by (simp_all add: wg_inv_def)
  have own: "shared_ok sh'" "pc_ok sh' pc'" "in_stop pc' \<longrightarrow> in_stop ?p \<or> \<not> stopping (shared s)"
    using micro_own [OF ok act(2)] by auto
  have uniq_all: "\<forall>u v. in_stop (pcs s u) \<longrightarrow> in_stop (pcs s v) \<longrightarrow> u = v"
    and pcs_ok: "\<forall>u. pc_ok (shared s) (pcs s u)" using inv by (simp_all add: wg_inv_def)
  then have uniq: "u = t" if "in_stop ?p" "in_stop (pcs s u)" for u using that by blast
  have other: "pc_ok sh' (pcs s u)" if "u \<noteq> t" for u
    using micro_other [OF ok act(2), of "pcs s u"] pcs_ok uniq that by blast
  have "in_stop pc' \<longrightarrow> \<not> in_stop (pcs s u)" if "u \<noteq> t" for u
    using own(3) uniq that pcs_ok by (metis pc_ok_def)
  then have u2: "\<forall>u v. in_stop (((pcs s)(t := pc')) u) \<longrightarrow> in_stop (((pcs s)(t := pc')) v) \<longrightarrow> u = v"
    using uniq_all by (auto split: if_splits)
  have "no_lost_release (shared s) (before_dec ?p \<or> (\<exists>u. u \<noteq> t \<and> before_dec (pcs s u)))
      (releasing ?p \<or> (\<exists>u. u \<noteq> t \<and> releasing (pcs s u)))"
    using inv unfolding wg_inv_def ex_split [of "\<lambda>u. before_dec (pcs s u)" t]
      ex_split [of "\<lambda>u. releasing (pcs s u)" t] by blast
  from micro_release [OF ok act(2) this]
  have rel: "no_lost_release sh' (\<exists>u. before_dec (((pcs s)(t := pc')) u)) (\<exists>u. releasing (((pcs s)(t := pc')) u))"
    unfolding ex_fun_upd .
  have s': "shared s' = sh'" "pcs s' = (pcs s)(t := pc')" using act(1) by simp_all
  have "\<forall>u. pc_ok sh' (((pcs s)(t := pc')) u)" using own(2) other by simp
  with own(1) u2 rel show ?thesis unfolding wg_inv_def s' by blast
qed

lemma wg_reachable_inv: "wg_reachable s \<Longrightarrow> wg_inv s"
  by (induction rule: wg_reachable.induct) (auto intro: wg_inv_init wg_inv_step)

text \<open>
  (C22) Under every interleaving of \<open>Add\<close>, \<open>Done\<close> and \<open>Stop\<close> calls of any number of goroutines no
  goroutine panics (no channel is closed twice), and the waiters are released only after the
  group was stopped.
\<close>

theorem swg_interleaving_safe:
  assumes "wg_reachable s"
  shows "fst (micro (pcs s t) (shared s)) \<noteq> Panic e \<and>
    (noopDone (grp (shared s)) = Closed \<longrightarrow> noopAdd (grp (shared s)) = Closed \<and>
      (stopOnce (grp (shared s)) \<or> stopping (shared s)))"
proof -
  have inv: "wg_inv s" using assms by (rule wg_reachable_inv)
  let ?sh = "shared s" and ?p = "pcs s t"
  have ok: "shared_ok ?sh" "pc_ok ?sh ?p" using inv by (simp_all add: wg_inv_def)
  obtain n where n: "counter (grp ?sh) = Some n" using shared_okD(4) [OF ok(1)] by blast
  note ev = micro_eval [where sh = ?sh] micro_eval(11)
  have "fst (micro ?p ?sh) \<noteq> Panic e"
    using shared_okD(1,2) [OF ok(1)] n ok(2)
    by (cases ?p) (simp_all add: micro.simps(1) ev pc_ok_def)
  then show ?thesis using ok(1) by (auto simp: shared_ok_def)
qed

text \<open>
  (C4) No wake-up is lost. In every reachable state in which the group was stopped and every call
  has returned, a counter that is not positive means that \<open>Wait\<close> returns, however the calls of
  \<open>Done\<close> and \<open>Stop\<close> were interleaved.
\<close>

theorem swg_no_lost_wakeup:
  assumes "wg_reachable s" and quiet: "\<And>t. pcs s t = Idle" and "stopOnce (grp (shared s))"
    and "counter (grp (shared s)) = Some n" and "n \<le> 0"
  shows "swg_Wait (grp (shared s)) = (Done (), grp (shared s))"
proof -
  have "wg_inv s" using assms(1) by (rule wg_reachable_inv)
  then have "noopDone (grp (shared s)) = Closed"
    using assms(3-5) quiet by (simp add: wg_inv_def shared_ok_def no_lost_release_def)
  then show ?thesis by (simp add: swg_Wait_def)
qed

section \<open>Witnesses\<close>

text \<open>Running the actions of a schedule of goroutines.\<close>

fun acts :: "nat list \<Rightarrow> wg_sys \<Rightarrow> wg_sys option" where
  "acts [] s = Some s"
| "acts (t # ts) s = (case micro (pcs s t) (shared s) of
      (Done pc', sh') \<Rightarrow> acts ts (s\<lparr>shared := sh', pcs := (pcs s)(t := pc')\<rparr>)
    | _ \<Rightarrow> None)"

lemma acts_reachable: "wg_reachable s \<Longrightarrow> acts ts s = Some s' \<Longrightarrow> wg_reachable s'"
  by (induction ts s rule: acts.induct)
    (auto split: prod.splits outcome.splits intro: wg_reachable.step wg_step.act)

text \<open>One goroutine that stops a fresh group.\<close>

definition ex_stopping :: wg_sys where
  "ex_stopping = wg_init\<lparr>pcs := (\<lambda>_. Idle)(0 := Stop0)\<rparr>"

definition ex_stopped :: wg_sys where
  "ex_stopped = \<lparr>shared = \<lparr>grp = wg_abs (Released 0), stopping = False\<rparr>, pcs = (\<lambda>_. Idle)\<rparr>"

lemma ex_stopping_reachable: "wg_reachable ex_stopping"
proof -
  have "wg_step wg_init (wg_init\<lparr>pcs := (pcs wg_init)(0 := Stop0)\<rparr>)"
    by (rule wg_step.call) (simp_all add: wg_init_def)
  then show ?thesis unfolding ex_stopping_def
    using wg_reachable.step [OF wg_reachable.init] by (simp add: wg_init_def)
qed

lemma ex_stopped_reachable: "wg_reachable ex_stopped"
proof -
  have "acts (replicate 8 0) ex_stopping = Some ex_stopped"
    by (simp add: ex_stopping_def ex_stopped_def wg_init_def NewStoppableWaitGroup_def micro_eval
        numeral_nat fun_eq_iff)
  with ex_stopping_reachable show ?thesis by (rule acts_reachable)
qed

theorem swg_interleaving_safe_witness:
  "fst (micro (pcs ex_stopping 0) (shared ex_stopping)) \<noteq> Panic CloseClosed \<and>
   noopAdd (grp (shared ex_stopped)) = Closed"
  using swg_interleaving_safe [OF ex_stopping_reachable, of 0 CloseClosed]
    swg_interleaving_safe [OF ex_stopped_reachable] by (simp add: ex_stopped_def)

theorem swg_no_lost_wakeup_witness:
  "swg_Wait (grp (shared ex_stopped)) = (Done (), grp (shared ex_stopped))"
  by (rule swg_no_lost_wakeup [OF ex_stopped_reachable, where n = 0]) (simp_all add: ex_stopped_def)

end
