(* ===== verification/Lock_Debug.thy ===== *)
theory Lock_Debug
  imports Go_Base
begin

text \<open>
  \<open>src/pkg/lock/lock_debug.go\<close>, \<open>lock_fast.go\<close> and \<open>lock.go\<close>: the mutexes of the debug build time how long they are
  held by a writer and report a holder that was too slow with its stack; those of the normal build
  are the ones of \<open>sync\<close>. Byte slices are lists of characters. The mutex inside is modelled one call at
  a time: a call that has to wait is blocked.
\<close>

section \<open>Reporting a stack\<close>

text \<open>The first index of a byte, or \<open>-1\<close>; the number of occurrences of a byte.\<close>

fun IndexByte :: "string \<Rightarrow> char \<Rightarrow> int" where
  "IndexByte [] c = -1"
| "IndexByte (x # xs) c = (if x = c then 0 else let i = IndexByte xs c in if i < 0 then -1 else i + 1)"

definition CountByte :: "string \<Rightarrow> char \<Rightarrow> nat" where
  "CountByte s c = length (filter (\<lambda>x. x = c) s)"

text \<open>\<open>bytes.Replace\<close> of a single byte; a negative number replaces all.\<close>

fun ReplaceByte :: "string \<Rightarrow> char \<Rightarrow> string \<Rightarrow> int \<Rightarrow> string" where
  "ReplaceByte [] c new n = []"
| "ReplaceByte (x # xs) c new n =
     (if x = c \<and> n \<noteq> 0 then new @ ReplaceByte xs c new (n - 1) else x # ReplaceByte xs c new n)"

text \<open>\<open>s[lo:hi]\<close> for bounds within the capacity, which is the length of \<open>s\<close>.\<close>

definition subslice :: "string \<Rightarrow> int \<Rightarrow> int \<Rightarrow> string outcome" where
  "subslice s lo hi = (if 0 \<le> lo \<and> lo \<le> hi \<and> hi \<le> int (length s) then Done (drop (nat lo) (take (nat hi) s)) else Panic IndexRange)"

text \<open>
  \<open>printStackTo\<close>: the number it logs for the goroutine and what it writes. The stack is the first \<open>n\<close> bytes
  of a buffer; slicing may go beyond its length, up to the end of the buffer.
\<close>

definition printStackTo :: "string \<Rightarrow> nat \<Rightarrow> (string \<times> string) outcome" where
  "printStackTo buf n = (let stack = take n buf in
     bindo (subslice buf 0 (int (length ''goroutine''))) (\<lambda>head.
     bindo (if head = ''goroutine''
            then bindo (subslice buf 0 (IndexByte stack CHR ''['')) (\<lambda>g. Done (g, CountByte stack CHR 0x0A))
            else Done (''0'', 0)) (\<lambda>(goRoutineNumber, newLines).
     bindo (subslice goRoutineNumber (int (length ''goroutine'')) (int (length goRoutineNumber) - 1)) (\<lambda>logged.
     Done (logged, ReplaceByte stack (CHR 0x0A) (CHR 0x0A # goRoutineNumber) (int newLines - 1))))))"

section \<open>The mutexes of \<open>sync\<close>\<close>

text \<open>
  Calls one at a time: a call that has to wait is blocked, and unlocking what is not locked is a fatal
  error. The normal build uses these mutexes as they are.
\<close>

definition sync_Lock :: "nat \<Rightarrow> (nat option, unit) go" where
  "sync_Lock g = (\<lambda>m. if m = None then (Done (), Some g) else (Blocked, m))"

definition sync_Unlock :: "(nat option, unit) go" where
  "sync_Unlock = (\<lambda>m. if m = None then (Panic UnlockUnheld, m) else (Done (), None))"

record sync_RWMutex =
  rw_writer :: "nat option"
  rw_readers :: nat

definition syncrw_Lock :: "nat \<Rightarrow> (sync_RWMutex, unit) go" where
  "syncrw_Lock g = (\<lambda>m. if rw_writer m = None \<and> rw_readers m = 0 then (Done (), m\<lparr>rw_writer := Some g\<rparr>) else (Blocked, m))"

definition syncrw_Unlock :: "(sync_RWMutex, unit) go" where
  "syncrw_Unlock = (\<lambda>m. if rw_writer m = None then (Panic UnlockUnheld, m) else (Done (), m\<lparr>rw_writer := None\<rparr>))"

definition syncrw_RLock :: "(sync_RWMutex, unit) go" where
  "syncrw_RLock = (\<lambda>m. if rw_writer m = None then (Done (), m\<lparr>rw_readers := rw_readers m + 1\<rparr>) else (Blocked, m))"

definition syncrw_RUnlock :: "(sync_RWMutex, unit) go" where
  "syncrw_RUnlock = (\<lambda>m. if rw_readers m = 0 then (Panic UnlockUnheld, m) else (Done (), m\<lparr>rw_readers := rw_readers m - 1\<rparr>))"

definition fast_UnlockIgnoreTime :: "(nat option, unit) go" where
  "fast_UnlockIgnoreTime = sync_Unlock"

definition fastrw_UnlockIgnoreTime :: "(sync_RWMutex, unit) go" where
  "fastrw_UnlockIgnoreTime = syncrw_Unlock"

section \<open>The timed mutexes\<close>

text \<open>
  \<open>selfishThresholdSec\<close> in nanoseconds: a duration counted in whole nanoseconds is at least \<open>0.1\<close> seconds as a
  floating point number exactly when it is at least this many.
\<close>

definition selfishThreshold :: int where
  "selfishThreshold = 100000000"

text \<open>
  \<open>internalMutex\<close> and \<open>internalRWMutex\<close> embed a mutex of the package \<open>deadlock\<close>, whose state is the parameter
  \<open>'m\<close> and whose methods are arguments of the definitions below. The clock, the stack that
  \<open>debug.Stack\<close> would return, and what was reported, are part of the state.
\<close>

record 'm internalMutex =
  inner :: 'm
  mu_t :: int
  mu_now :: int
  mu_stack :: "string \<times> nat"
  mu_reports :: "(string \<times> string) list"

definition onInner :: "('m, 'a) go \<Rightarrow> (('m, 'z) internalMutex_scheme, 'a) go" where
  "onInner f = (\<lambda>i. case f (inner i) of (r, m) \<Rightarrow> (r, i\<lparr>inner := m\<rparr>))"

definition mutex_Lock :: "(nat \<Rightarrow> ('m, unit) go) \<Rightarrow> nat \<Rightarrow> (('m, 'z) internalMutex_scheme, unit) go" where
  "mutex_Lock lock g = andThen (onInner (lock g)) (\<lambda>_. modify (\<lambda>i. i\<lparr>mu_t := mu_now i\<rparr>))"

text \<open>\<open>if sec := time.Since(i.t).Seconds(); sec >= selfishThresholdSec\<close> with the report.\<close>

definition report :: "(('m, 'z) internalMutex_scheme, unit) go" where
  "report = (\<lambda>i. if mu_now i - mu_t i \<ge> selfishThreshold
     then andThen (lift (printStackTo (fst (mu_stack i)) (snd (mu_stack i)))) (\<lambda>r.
       modify (\<lambda>i. i\<lparr>mu_reports := mu_reports i @ [r]\<rparr>)) i
     else ret () i)"

definition mutex_Unlock :: "('m, unit) go \<Rightarrow> (('m, 'z) internalMutex_scheme, unit) go" where
  "mutex_Unlock unlock = andThen report (\<lambda>_. onInner unlock)"

definition mutex_UnlockIgnoreTime :: "('m, unit) go \<Rightarrow> (('m, 'z) internalMutex_scheme, unit) go" where
  "mutex_UnlockIgnoreTime unlock = onInner unlock"

text \<open>The read-write mutex: the same for writers; readers are not timed.\<close>

definition rw_Lock :: "(nat \<Rightarrow> ('m, unit) go) \<Rightarrow> nat \<Rightarrow> (('m, 'z) internalMutex_scheme, unit) go" where
  "rw_Lock lock g = andThen (onInner (lock g)) (\<lambda>_. modify (\<lambda>i. i\<lparr>mu_t := mu_now i\<rparr>))"

definition rw_Unlock :: "('m, unit) go \<Rightarrow> (('m, 'z) internalMutex_scheme, unit) go" where
  "rw_Unlock unlock = andThen report (\<lambda>_. onInner unlock)"

definition rw_UnlockIgnoreTime :: "('m, unit) go \<Rightarrow> (('m, 'z) internalMutex_scheme, unit) go" where
  "rw_UnlockIgnoreTime unlock = onInner unlock"

definition rw_RLock :: "('m, unit) go \<Rightarrow> (('m, 'z) internalMutex_scheme, unit) go" where
  "rw_RLock rlock = onInner rlock"

definition rw_RUnlock :: "('m, unit) go \<Rightarrow> (('m, 'z) internalMutex_scheme, unit) go" where
  "rw_RUnlock runlock = onInner runlock"

section \<open>Lemmas\<close>

lemma IndexByte_app: "c \<notin> set d \<Longrightarrow> IndexByte (d @ c # e) c = int (length d)"
  by (induction d) (auto simp: Let_def)

lemma IndexByte_bounds: "-1 \<le> IndexByte s c \<and> IndexByte s c \<le> int (length s)"
  by (induction s) (auto simp: Let_def)

definition unlines :: "string list \<Rightarrow> string" where
  "unlines ls = concat (map (\<lambda>l. l @ [CHR 0x0A]) ls)"

lemma unlines_simps [simp]: "unlines [] = []" "unlines (l # ls) = l @ CHR 0x0A # unlines ls"
  by (simp_all add: unlines_def)

lemma CountByte_app [simp]: "CountByte (a @ b) c = CountByte a c + CountByte b c"
  by (simp add: CountByte_def)

lemma CountByte_none [simp]: "c \<notin> set l \<Longrightarrow> CountByte l c = 0"
  by (auto simp: CountByte_def filter_empty_conv)

lemma CountByte_Cons [simp]: "CountByte (c # l) c = Suc (CountByte l c)"
  by (simp add: CountByte_def)

lemma CountByte_unlines: "\<forall>l\<in>set ls. CHR 0x0A \<notin> set l \<Longrightarrow> CountByte (unlines ls) CHR 0x0A = length ls"
  by (induction ls) auto

lemma ReplaceByte_skip: "c \<notin> set l \<Longrightarrow> ReplaceByte (l @ r) c new n = l @ ReplaceByte r c new n"
  by (induction l) auto

lemma ReplaceByte_zero [simp]: "ReplaceByte s c new 0 = s"
  by (induction s) simp_all

lemma ReplaceByte_unlines:
  assumes "\<forall>l\<in>set (l0 # ls). CHR 0x0A \<notin> set l"
  shows "ReplaceByte (unlines (l0 # ls)) CHR 0x0A (CHR 0x0A # g) (int (length ls)) = unlines (l0 # map ((@) g) ls)"
  using assms
proof (induction ls arbitrary: l0)
  case (Cons l ls)
  with Cons.IH [of l] show ?case by (simp add: ReplaceByte_skip)
qed (simp add: ReplaceByte_skip)

lemma subslice_prefix: "subslice (a @ b) 0 (int (length a)) = Done a"
  by (simp add: subslice_def)

lemma subslice_inner: "subslice (a @ b @ [x]) (int (length a)) (int (length (a @ b @ [x])) - 1) = Done b"
proof -
  have "int (length (a @ b @ [x])) - 1 = int (length (a @ b))" by simp
  then show ?thesis unfolding subslice_def by (simp only: nat_int) simp
qed

text \<open>
  What a report says. A stack as the Go runtime prints it, whose first line names the goroutine, is written
  with the name repeated at the beginning of every other line, and the last line break is left
  alone; the number that is logged is what stands between \<open>goroutine\<close> and the bracket.
\<close>

lemma printStackTo_labels:
  assumes "l0 = ''goroutine'' @ d @ '' ['' @ e" and "CHR ''['' \<notin> set d" and "\<forall>l\<in>set (l0 # ls). CHR 0x0A \<notin> set l"
    and "take n buf = unlines (l0 # ls)"
  shows "printStackTo buf n = Done (d, unlines (l0 # map ((@) (''goroutine'' @ d @ '' '')) ls))"
proof -
  let ?h = "''goroutine'' @ d @ '' ''"
  have l0: "l0 = ?h @ CHR ''['' # e" using assms(1) by simp
  obtain rest where buf: "buf = unlines (l0 # ls) @ rest" using assms(4) by (metis append_take_drop_id)
  have "IndexByte (unlines (l0 # ls)) CHR ''['' = int (length ?h)"
    using IndexByte_app [of "CHR ''[''" ?h "e @ CHR 0x0A # unlines ls"] assms(2) l0 by simp
  moreover have "subslice buf 0 (int (length ''goroutine'')) = Done ''goroutine''"
    using subslice_prefix [of "''goroutine''" "d @ '' ['' @ e @ CHR 0x0A # unlines ls @ rest"] buf assms(1) by simp
  moreover have "subslice buf 0 (int (length ?h)) = Done ?h"
    using subslice_prefix [of ?h "CHR ''['' # e @ CHR 0x0A # unlines ls @ rest"] buf l0 by simp
  moreover have "subslice ?h (int (length ''goroutine'')) (int (length ?h) - 1) = Done d" by (rule subslice_inner)
  moreover have "CountByte (unlines (l0 # ls)) CHR 0x0A = Suc (length ls)" using CountByte_unlines [OF assms(3)] by simp
  ultimately show ?thesis using assms(4) ReplaceByte_unlines [OF assms(3), of ?h]
    by (simp add: printStackTo_def Let_def del: unlines_simps append.simps append_Cons list.size)
qed

text \<open>The stacks a report can be made from: they name the goroutine and have a bracket at index ten or later.\<close>

definition readable :: "string \<times> nat \<Rightarrow> bool" where
  "readable st \<longleftrightarrow> take 9 (fst st) = ''goroutine'' \<and> 10 \<le> IndexByte (take (snd st) (fst st)) CHR ''[''"

lemma subslice_Panic: "\<not> (0 \<le> lo \<and> lo \<le> hi \<and> hi \<le> int (length s)) \<Longrightarrow> subslice s lo hi = Panic IndexRange"
  by (simp add: subslice_def)

text \<open>A report is written exactly from a readable stack; from any other the slicing panics.\<close>

lemma printStackTo_cases:
  "if readable (buf, n) then \<exists>r. printStackTo buf n = Done r else printStackTo buf n = Panic IndexRange"
proof (cases "9 \<le> length buf \<and> take 9 buf = ''goroutine''")
  case False
  then have "\<not> readable (buf, n)"
    unfolding readable_def by (auto dest: arg_cong [where f = length])
  moreover have "printStackTo buf n = Panic IndexRange"
    using False by (cases "9 \<le> length buf") (simp_all add: printStackTo_def Let_def subslice_def)
  ultimately show ?thesis by simp
next
  case True
  let ?i = "IndexByte (take n buf) CHR ''[''"
  have b: "?i \<le> int (length buf)"
    using IndexByte_bounds [of "take n buf" "CHR ''[''"] min.cobounded1 [of "length buf" n] unfolding length_take by linarith
  have h: "subslice buf 0 9 = Done ''goroutine''" using True by (simp add: subslice_def)
  show ?thesis
  proof (cases "0 \<le> ?i")
    case False
    then show ?thesis using True h by (simp add: readable_def printStackTo_def Let_def subslice_Panic)
  next
    case i: True
    then have "subslice buf 0 ?i = Done (take (nat ?i) buf)" using b by (simp add: subslice_def)
    then show ?thesis using True h i b by (auto simp: readable_def printStackTo_def Let_def subslice_def)
  qed
qed

section \<open>The contract of a mutex\<close>

text \<open>
  What a client of a mutex relies on: who holds it, when it can be taken, and the
  states the laws are stated for.
\<close>

locale mutex_impl =
  fixes lock :: "nat \<Rightarrow> ('m, unit) go" and unlock :: "('m, unit) go"
    and holder :: "'m \<Rightarrow> nat option" and avail :: "'m \<Rightarrow> bool" and ok :: "'m \<Rightarrow> bool"
  assumes lock_avail: "ok m \<Longrightarrow> avail m \<Longrightarrow> \<exists>m'. lock g m = (Done (), m') \<and> holder m' = Some g \<and> ok m'"
    and lock_waits: "ok m \<Longrightarrow> \<not> avail m \<Longrightarrow> \<not> isDone (lock g m)"
    and avail_holder: "ok m \<Longrightarrow> avail m \<Longrightarrow> holder m = None"
    and unlock_held: "ok m \<Longrightarrow> holder m = Some g \<Longrightarrow> \<exists>m'. unlock m = (Done (), m') \<and> avail m' \<and> ok m'"
    and unlock_unheld: "ok m \<Longrightarrow> holder m = None \<Longrightarrow> \<not> isDone (unlock m)"
begin

text \<open>A critical section that leaves the mutex alone gives it back.\<close>

lemma critical:
  assumes "ok m" and "avail m"
    and body: "\<And>m. ok m \<Longrightarrow> holder m = Some g \<Longrightarrow> \<exists>m'. body m = (Done (), m') \<and> holder m' = Some g \<and> ok m'"
  shows "\<exists>m'. andThen (lock g) (\<lambda>_. andThen body (\<lambda>_. unlock)) m = (Done (), m') \<and> avail m' \<and> ok m'"
proof -
  obtain m1 where 1: "lock g m = (Done (), m1)" "holder m1 = Some g" "ok m1" using lock_avail [OF assms(1,2)] by blast
  obtain m2 where 2: "body m1 = (Done (), m2)" "holder m2 = Some g" "ok m2" using body [OF 1(3,2)] by blast
  from unlock_held [OF 2(3,2)] 1(1) 2(1) show ?thesis by auto
qed

text \<open>Nobody gets a mutex that is held.\<close>

lemma held_waits: "ok m \<Longrightarrow> holder m = Some h \<Longrightarrow> \<not> isDone (lock g m)"
  using lock_waits avail_holder by force

end

locale rwmutex_impl = mutex_impl +
  fixes rlock :: "('m, unit) go" and runlock :: "('m, unit) go" and readers :: "'m \<Rightarrow> nat"
  assumes avail_iff: "ok m \<Longrightarrow> avail m \<longleftrightarrow> holder m = None \<and> readers m = 0"
    and rlock_avail: "ok m \<Longrightarrow> holder m = None \<Longrightarrow> \<exists>m'. rlock m = (Done (), m') \<and> readers m' = Suc (readers m) \<and> holder m' = None \<and> ok m'"
    and rlock_waits: "ok m \<Longrightarrow> holder m \<noteq> None \<Longrightarrow> \<not> isDone (rlock m)"
    and runlock_held: "ok m \<Longrightarrow> readers m = Suc n \<Longrightarrow> \<exists>m'. runlock m = (Done (), m') \<and> readers m' = n \<and> holder m' = holder m \<and> ok m'"
    and runlock_unheld: "ok m \<Longrightarrow> readers m = 0 \<Longrightarrow> \<not> isDone (runlock m)"

interpretation smx: mutex_impl sync_Lock sync_Unlock id "\<lambda>m. m = None" "\<lambda>m. True"
  by unfold_locales (auto simp: sync_Lock_def sync_Unlock_def isDone_def)

interpretation srw: rwmutex_impl syncrw_Lock syncrw_Unlock rw_writer "\<lambda>m. rw_writer m = None \<and> rw_readers m = 0"
    "\<lambda>m. rw_writer m = None \<or> rw_readers m = 0" syncrw_RLock syncrw_RUnlock rw_readers
  by unfold_locales
    (auto simp: syncrw_Lock_def syncrw_Unlock_def syncrw_RLock_def syncrw_RUnlock_def isDone_def)

section \<open>The timed mutexes keep the contract\<close>

lemma onInner_Done [simp]: "f (inner i) = (Done a, m) \<Longrightarrow> onInner f i = (Done a, i\<lparr>inner := m\<rparr>)"
  by (simp add: onInner_def)

lemma isDone_onInner [simp]: "isDone (onInner f i) \<longleftrightarrow> isDone (f (inner i))"
  by (simp add: onInner_def isDone_def split: prod.splits)

lemma isDone_andThen_modify [simp]: "isDone (andThen f (\<lambda>_. modify u) i) \<longleftrightarrow> isDone (f i)"
  by (cases "f i"; cases "fst (f i)") (auto simp: isDone_def andThen_def)

text \<open>A report either is written or ends the call; it never touches the mutex inside.\<close>

lemma report_cases:
  "if mu_now i - mu_t i \<ge> selfishThreshold \<and> \<not> readable (mu_stack i) then report i = (Panic IndexRange, i)
   else \<exists>rs. report i = (Done (), i\<lparr>mu_reports := mu_reports i @ rs\<rparr>)"
proof (cases "mu_now i - mu_t i \<ge> selfishThreshold")
  case True
  obtain buf n where [simp]: "mu_stack i = (buf, n)" by fastforce
  from True printStackTo_cases [of buf n] show ?thesis
    by (auto simp: report_def go_simps split: if_splits)
next
  case False
  then show ?thesis by (auto simp: report_def intro: exI [of _ "[]"])
qed

context mutex_impl begin

abbreviation timed_ok :: "('m, 'z) internalMutex_scheme \<Rightarrow> bool" where
  "timed_ok i \<equiv> ok (inner i) \<and> readable (mu_stack i)"

lemma timed_Unlock:
  assumes "ok (inner i)" and "holder (inner i) = Some g"
  shows "if mu_now i - mu_t i \<ge> selfishThreshold \<and> \<not> readable (mu_stack i) then mutex_Unlock unlock i = (Panic IndexRange, i)
    else \<exists>m' rs. mutex_Unlock unlock i = (Done (), i\<lparr>inner := m', mu_reports := mu_reports i @ rs\<rparr>) \<and> avail m' \<and> ok m'"
proof -
  obtain m' where m': "unlock (inner i) = (Done (), m')" "avail m'" "ok m'" using unlock_held [OF assms] by blast
  show ?thesis
  proof (cases "mu_now i - mu_t i \<ge> selfishThreshold \<and> \<not> readable (mu_stack i)")
    case True
    then show ?thesis using report_cases [of i] by (simp add: mutex_Unlock_def)
  next
    case False
    then obtain rs where "report i = (Done (), i\<lparr>mu_reports := mu_reports i @ rs\<rparr>)" using report_cases [of i] by auto
    moreover have "i\<lparr>mu_reports := x, inner := y\<rparr> = i\<lparr>inner := y, mu_reports := x\<rparr>" for x y by simp
    ultimately have "mutex_Unlock unlock i = (Done (), i\<lparr>inner := m', mu_reports := mu_reports i @ rs\<rparr>)"
      using m'(1) by (simp add: mutex_Unlock_def)
    then show ?thesis using m' False by auto
  qed
qed

lemma timed_Lock:
  assumes "ok (inner i)" and "avail (inner i)"
  shows "\<exists>m'. mutex_Lock lock g i = (Done (), i\<lparr>inner := m', mu_t := mu_now i\<rparr>) \<and> holder m' = Some g \<and> ok m'"
  using lock_avail [OF assms, of g] by (auto simp: mutex_Lock_def)

lemma timed_section:
  assumes "ok (inner i)" and "avail (inner i)" and "printStackTo (fst (mu_stack i)) (snd (mu_stack i)) = Done r"
  shows "\<exists>m'. andThen (mutex_Lock lock g) (\<lambda>_. andThen (modify (\<lambda>i. i\<lparr>mu_now := mu_now i + t\<rparr>)) (\<lambda>_. mutex_Unlock unlock)) i =
    (Done (), i\<lparr>inner := m', mu_t := mu_now i, mu_now := mu_now i + t, mu_reports := mu_reports i @
       (if t \<ge> selfishThreshold then [r] else [])\<rparr>) \<and> avail m'"
proof -
  obtain m1 where 1: "mutex_Lock lock g i = (Done (), i\<lparr>inner := m1, mu_t := mu_now i\<rparr>)" "holder m1 = Some g" "ok m1"
    using timed_Lock [OF assms(1,2)] by blast
  obtain m2 where 2: "unlock m1 = (Done (), m2)" "avail m2" using unlock_held [OF 1(3,2)] by blast
  show ?thesis using 1(1) 2 assms(3)
    by (intro exI [of _ m2]) (simp add: mutex_Unlock_def report_def go_simps onInner_def)
qed

lemma timed: "mutex_impl (mutex_Lock lock) (mutex_Unlock unlock) (\<lambda>i. holder (inner i)) (\<lambda>i. avail (inner i)) timed_ok"
proof
  fix i :: "('m, 'z) internalMutex_scheme" and g
  assume ok: "timed_ok i"
  show "\<exists>i'. mutex_Lock lock g i = (Done (), i') \<and> holder (inner i') = Some g \<and> timed_ok i'" if "avail (inner i)"
    using timed_Lock [of i g] ok that by auto
  show "\<not> isDone (mutex_Lock lock g i)" if "\<not> avail (inner i)"
    using lock_waits [of "inner i" g] ok that by (simp add: mutex_Lock_def)
  show "holder (inner i) = None" if "avail (inner i)" using avail_holder ok that by simp
  show "\<exists>i'. mutex_Unlock unlock i = (Done (), i') \<and> avail (inner i') \<and> timed_ok i'" if "holder (inner i) = Some g"
    using timed_Unlock [of i g] ok that by auto
  show "\<not> isDone (mutex_Unlock unlock i)" if "holder (inner i) = None"
  proof -
    obtain rs where "report i = (Done (), i\<lparr>mu_reports := mu_reports i @ rs\<rparr>)" using report_cases [of i] ok by auto
    then show ?thesis using unlock_unheld [of "inner i"] ok that by (simp add: mutex_Unlock_def)
  qed
qed

end

lemma rw_as_mutex: "rw_Lock = mutex_Lock" "rw_Unlock = mutex_Unlock"
  by (simp_all add: fun_eq_iff rw_Lock_def mutex_Lock_def rw_Unlock_def mutex_Unlock_def)

context rwmutex_impl begin

lemma timed_rw: "rwmutex_impl (rw_Lock lock) (rw_Unlock unlock) (\<lambda>i. holder (inner i)) (\<lambda>i. avail (inner i)) timed_ok
    (rw_RLock rlock) (rw_RUnlock runlock) (\<lambda>i. readers (inner i))"
  unfolding rw_as_mutex rwmutex_impl_def
proof (intro conjI timed)
  show "rwmutex_impl_axioms (\<lambda>i. holder (inner i)) (\<lambda>i. avail (inner i)) timed_ok
    (rw_RLock rlock) (rw_RUnlock runlock) (\<lambda>i. readers (inner i))"
  proof
    fix i :: "('m, 'z) internalMutex_scheme" and n
    assume ok: "timed_ok i"
    show "avail (inner i) \<longleftrightarrow> holder (inner i) = None \<and> readers (inner i) = 0" using avail_iff ok by simp
    show "\<exists>i'. rw_RLock rlock i = (Done (), i') \<and> readers (inner i') = Suc (readers (inner i)) \<and> holder (inner i') = None \<and> timed_ok i'"
      if "holder (inner i) = None" using rlock_avail [of "inner i"] ok that by (auto simp: rw_RLock_def)
    show "\<not> isDone (rw_RLock rlock i)" if "holder (inner i) \<noteq> None" using rlock_waits [of "inner i"] ok that by (simp add: rw_RLock_def)
    show "\<exists>i'. rw_RUnlock runlock i = (Done (), i') \<and> readers (inner i') = n \<and> holder (inner i') = holder (inner i) \<and> timed_ok i'"
      if "readers (inner i) = Suc n" using runlock_held [of "inner i" n] ok that by (auto simp: rw_RUnlock_def)
    show "\<not> isDone (rw_RUnlock runlock i)" if "readers (inner i) = 0" using runlock_unheld [of "inner i"] ok that by (simp add: rw_RUnlock_def)
  qed
qed

end

interpretation tmx: mutex_impl "mutex_Lock sync_Lock" "mutex_Unlock sync_Unlock" "\<lambda>i. id (inner i)" "\<lambda>i. inner i = None"
    "\<lambda>i. True \<and> readable (mu_stack i)"
  by (rule smx.timed)

interpretation trw: rwmutex_impl "rw_Lock syncrw_Lock" "rw_Unlock syncrw_Unlock" "\<lambda>i. rw_writer (inner i)"
    "\<lambda>i. rw_writer (inner i) = None \<and> rw_readers (inner i) = 0"
    "\<lambda>i. (rw_writer (inner i) = None \<or> rw_readers (inner i) = 0) \<and> readable (mu_stack i)"
    "rw_RLock syncrw_RLock" "rw_RUnlock syncrw_RUnlock" "\<lambda>i. rw_readers (inner i)"
  by (rule srw.timed_rw)

text \<open>
  The debug build changes nothing about who gets a mutex: over a read-write mutex that keeps the
  contract, the timed read-write mutex keeps it too, in every state in which a report could be
  written.
\<close>

theorem timed_mutex_contract:
  assumes "rwmutex_impl lock unlock holder avail ok rlock runlock readers"
  shows "rwmutex_impl (rw_Lock lock) (rw_Unlock unlock) (\<lambda>i. holder (inner i)) (\<lambda>i. avail (inner i))
    (\<lambda>i. ok (inner i) \<and> readable (mu_stack i)) (rw_RLock rlock) (rw_RUnlock runlock) (\<lambda>i. readers (inner i))"
  by (rule rwmutex_impl.timed_rw [OF assms])

definition demo_stack :: "string \<times> nat" where
  "demo_stack = (''goroutine 7 [running]:'' @ CHR 0x0A # ''main.f()'' @ [CHR 0x0A], 100)"

theorem timed_mutex_contract_witness:
  "isDone (rw_RLock syncrw_RLock \<lparr>inner = \<lparr>rw_writer = None, rw_readers = 2\<rparr>, mu_t = 0, mu_now = 5, mu_stack = demo_stack, mu_reports = []\<rparr>) \<and>
   \<not> isDone (rw_Lock syncrw_Lock 1 \<lparr>inner = \<lparr>rw_writer = None, rw_readers = 2\<rparr>, mu_t = 0, mu_now = 5, mu_stack = demo_stack, mu_reports = []\<rparr>)"
proof -
  let ?i = "\<lparr>inner = \<lparr>rw_writer = None, rw_readers = 2\<rparr>, mu_t = 0, mu_now = 5, mu_stack = demo_stack, mu_reports = []\<rparr>"
  have ok: "readable (mu_stack ?i)" by (simp add: readable_def demo_stack_def)
  note c = timed_mutex_contract [OF srw.rwmutex_impl_axioms]
  show ?thesis using rwmutex_impl.rlock_avail [OF c, of ?i] ok
      mutex_impl.lock_waits [OF rwmutex_impl.axioms(1) [OF c], of ?i 1] by (auto simp: isDone_def)
qed

text \<open>
  Exactly the holder that was too slow is reported. Taking a free mutex, holding it for \<open>d\<close> nanoseconds and
  unlocking it gives it back, and writes the labelled stack of the goroutine when \<open>d\<close> is at least a
  tenth of a second, and nothing otherwise.
\<close>

theorem slow_holder_reported:
  fixes i :: "('m, 'z) internalMutex_scheme"
  assumes "mutex_impl lock unlock holder avail ok" and "ok (inner i)" and "avail (inner i)"
    and "mu_stack i = (buf, n)" and "take n buf = unlines (l0 # ls)" and "\<forall>l\<in>set (l0 # ls). CHR 0x0A \<notin> set l"
    and "l0 = ''goroutine'' @ d @ '' ['' @ e" and "CHR ''['' \<notin> set d"
  shows "\<exists>m'. andThen (mutex_Lock lock g) (\<lambda>_. andThen (modify (\<lambda>i. i\<lparr>mu_now := mu_now i + t\<rparr>)) (\<lambda>_. mutex_Unlock unlock)) i =
    (Done (), i\<lparr>inner := m', mu_t := mu_now i, mu_now := mu_now i + t, mu_reports := mu_reports i @
       (if t \<ge> 100000000 then [(d, unlines (l0 # map ((@) (''goroutine'' @ d @ '' '')) ls))] else [])\<rparr>) \<and> avail m'"
  using mutex_impl.timed_section [OF assms(1-3), of "(d, unlines (l0 # map ((@) (''goroutine'' @ d @ '' '')) ls))" g t]
    printStackTo_labels [OF assms(7,8,6,5)] assms(4) by (simp add: selfishThreshold_def)

theorem slow_holder_reported_witness:
  "let i = \<lparr>inner = None, mu_t = 0, mu_now = 5, mu_stack = demo_stack, mu_reports = []\<rparr> in
   \<forall>t. \<exists>m'. andThen (mutex_Lock sync_Lock 1) (\<lambda>_. andThen (modify (\<lambda>i. i\<lparr>mu_now := mu_now i + t\<rparr>)) (\<lambda>_. mutex_Unlock sync_Unlock)) i =
    (Done (), i\<lparr>inner := m', mu_t := 5, mu_now := 5 + t, mu_reports :=
       (if t \<ge> 100000000 then [('' 7'', unlines [''goroutine 7 [running]:'', ''goroutine 7 main.f()''])] else [])\<rparr>) \<and> m' = None"
proof -
  let ?i = "\<lparr>inner = None :: nat option, mu_t = 0, mu_now = 5, mu_stack = demo_stack, mu_reports = []\<rparr>"
  have st: "mu_stack ?i = (fst demo_stack, 100)" by (simp add: demo_stack_def)
  have lines: "take 100 (fst demo_stack) = unlines [''goroutine 7 [running]:'', ''main.f()'']" by (simp add: demo_stack_def)
  have nl: "\<forall>l\<in>set [''goroutine 7 [running]:'', ''main.f()'']. CHR 0x0A \<notin> set l" by simp
  have l0: "''goroutine 7 [running]:'' = ''goroutine'' @ '' 7'' @ '' ['' @ ''running]:''" "CHR ''['' \<notin> set '' 7''" by simp_all
  have "\<exists>m'. andThen (mutex_Lock sync_Lock 1) (\<lambda>_. andThen (modify (\<lambda>i. i\<lparr>mu_now := mu_now i + t\<rparr>)) (\<lambda>_. mutex_Unlock sync_Unlock)) ?i =
    (Done (), ?i\<lparr>inner := m', mu_t := mu_now ?i, mu_now := mu_now ?i + t, mu_reports := mu_reports ?i @
       (if t \<ge> 100000000 then [('' 7'', unlines (''goroutine 7 [running]:'' # map ((@) (''goroutine'' @ '' 7'' @ '' '')) [''main.f()'']))] else [])\<rparr>) \<and> m' = None" for t
    by (rule slow_holder_reported [OF smx.mutex_impl_axioms TrueI _ st lines nl l0, of 1 t]) simp
  moreover have "map ((@) (''goroutine'' @ '' 7'' @ '' '')) [''main.f()''] = [''goroutine 7 main.f()'']" by simp
  moreover have "mu_now ?i = 5" "mu_reports ?i = []" by simp_all
  ultimately show ?thesis unfolding Let_def by (intro allI) (simp only: append_Nil)
qed

text \<open>
  (C21) A report that cannot be made costs the mutex: unlocking returns exactly when the holder was fast or the
  stack is readable. Otherwise the slicing in \<open>printStackTo\<close> panics before the mutex inside is
  unlocked; it stays locked and nobody gets it any more. The fallback for stacks that do not begin with \<open>goroutine\<close>
  is such a case.
\<close>

theorem unreadable_stack_keeps_lock:
  fixes i :: "('m, 'z) internalMutex_scheme"
  assumes "mutex_impl lock unlock holder avail ok" and "ok (inner i)" and "holder (inner i) = Some g"
  shows "if mu_now i - mu_t i < 100000000 \<or> readable (mu_stack i) then isDone (mutex_Unlock unlock i)
    else mutex_Unlock unlock i = (Panic IndexRange, i) \<and> \<not> isDone (mutex_Lock lock h i)"
proof -
  have "\<not> isDone (mutex_Lock lock h i)" using mutex_impl.held_waits [OF assms] by (simp add: mutex_Lock_def)
  then show ?thesis using mutex_impl.timed_Unlock [OF assms] by (auto simp: selfishThreshold_def isDone_def split: if_splits)
qed

theorem unreadable_stack_keeps_lock_witness:
  "mutex_Unlock sync_Unlock \<lparr>inner = Some 1, mu_t = 0, mu_now = 100000000, mu_stack = (''created by main'', 16), mu_reports = []\<rparr> =
     (Panic IndexRange, \<lparr>inner = Some 1, mu_t = 0, mu_now = 100000000, mu_stack = (''created by main'', 16), mu_reports = []\<rparr>)"
  using unreadable_stack_keeps_lock [OF smx.mutex_impl_axioms,
    of "\<lparr>inner = Some 1, mu_t = 0, mu_now = 100000000, mu_stack = (''created by main'', 16), mu_reports = []\<rparr>" 1]
  by (simp add: readable_def)

end
