(* ===== verification/Lockfile.thy ===== *)
theory Lockfile
  imports Go_Base
begin

text \<open>
  \<open>src/pkg/lock/lockfile/lockfile_linux.go\<close> over the per-descriptor locks of Linux. The state holds the open
  file descriptions with the lock each has, the \<open>Lockfile\<close> values, and the calls of \<open>Lock\<close> with a context
  that can be cancelled, each with the goroutine that sits in the system call and the one that
  drops a lock that comes too late. Actions of callers and goroutines are interleaved in any order.
\<close>

section \<open>Locks of the kernel\<close>

datatype lockType = F_RDLCK | F_WRLCK | F_UNLCK

text \<open>An open file description; a closed one is kept, without a lock, for calls that still wait on it.\<close>

record ofd =
  od_path :: string
  od_lock :: lockType
  od_open :: bool

definition conflict :: "lockType \<Rightarrow> lockType \<Rightarrow> bool" where
  "conflict a b \<longleftrightarrow> a \<noteq> F_UNLCK \<and> b \<noteq> F_UNLCK \<and> (a = F_WRLCK \<or> b = F_WRLCK)"

definition refused :: "ofd list \<Rightarrow> nat \<Rightarrow> lockType \<Rightarrow> bool" where
  "refused fds k t \<longleftrightarrow> list_ex (\<lambda>j. j \<noteq> k \<and> od_open (fds ! j) \<and> od_path (fds ! j) = od_path (fds ! k) \<and>
     conflict t (od_lock (fds ! j))) [0..<length fds]"

definition setLock :: "ofd list \<Rightarrow> nat \<Rightarrow> lockType \<Rightarrow> ofd list" where
  "setLock fds k t = (if od_open (fds ! k) then fds[k := (fds ! k)\<lparr>od_lock := t\<rparr>] else fds)"

section \<open>States\<close>

text \<open>
  The goroutine in the system call: not there yet, waiting in the kernel on a description, or done
  with its result in the channel.
\<close>

datatype sysState = NotIssued | Waiting nat | Sent err

text \<open>
  A call of \<open>Lock\<close>: at the select; cancelled and returned, with the goroutine that waits for the channel; that
  goroutine before it unlocks; returned with the result of the system call; cancelled and all over.
\<close>

datatype lock_pc = Selecting sysState | Draining sysState | Releasing | Returned err | Over

record lock_call =
  lc_file :: nat
  lc_type :: lockType
  lc_pc :: lock_pc

record lf_sys =
  lf_fds :: "ofd list"
  lf_fp :: "nat option list"       \<comment> \<open>the \<open>Lockfile\<close> values by number: the field \<open>fp\<close>\<close>
  lf_calls :: "lock_call list"

definition lf_init :: lf_sys where
  "lf_init = \<lparr>lf_fds = [], lf_fp = [], lf_calls = []\<rparr>"

section \<open>The methods\<close>

definition SETLK :: int where "SETLK = 37"

definition SETLKW :: int where "SETLKW = 38"

definition EBADF :: go_error where "EBADF = Errorf ''bad file descriptor'' []"

definition EAGAIN :: go_error where "EAGAIN = Errorf ''resource temporarily unavailable'' []"

text \<open>\<open>syscall.FcntlFlock(l.fp.Fd(), command, &flockT)\<close>; the descriptor of a nil file is invalid.\<close>

definition FcntlFlock :: "nat option \<Rightarrow> int \<Rightarrow> lockType \<Rightarrow> (lf_sys, err) go" where
  "FcntlFlock fp command t = (\<lambda>s. case fp of
      None \<Rightarrow> (Done (Some EBADF), s)
    | Some k \<Rightarrow>
        if refused (lf_fds s) k t then (if command = SETLKW then (Blocked, s) else (Done (Some EAGAIN), s))
        else (Done None, s\<lparr>lf_fds := setLock (lf_fds s) k t\<rparr>))"

text \<open>\<open>NewLockfile\<close> when the file can be opened, and the error otherwise.\<close>

definition NewLockfile :: "err \<Rightarrow> string \<Rightarrow> (lf_sys, go_error + nat) go" where
  "NewLockfile openErr path = (\<lambda>s. case openErr of
      Some e \<Rightarrow> (Done (Inl (Errorf ''failed to create lockfile %s'' [path])), s)
    | None \<Rightarrow> (Done (Inr (length (lf_fp s))),
        s\<lparr>lf_fds := lf_fds s @ [\<lparr>od_path = path, od_lock = F_UNLCK, od_open = True\<rparr>], lf_fp := lf_fp s @ [Some (length (lf_fds s))]\<rparr>))"

text \<open>\<open>Close\<close>: the kernel drops the lock with the description; closing a nil file is an error.\<close>

definition lf_Close :: "nat \<Rightarrow> (lf_sys, err) go" where
  "lf_Close l = (\<lambda>s. case lf_fp s ! l of
      None \<Rightarrow> (Done (Some (Errorf ''invalid argument'' [])), s)
    | Some k \<Rightarrow> (Done None, s\<lparr>lf_fp := (lf_fp s)[l := None],
        lf_fds := (lf_fds s)[k := (lf_fds s ! k)\<lparr>od_lock := F_UNLCK, od_open := False\<rparr>]\<rparr>))"

definition flockType :: "bool \<Rightarrow> bool \<Rightarrow> lockType" where
  "flockType unlock exclusive = (if unlock then F_UNLCK else if exclusive then F_WRLCK else F_RDLCK)"

definition flockCommand :: "bool \<Rightarrow> bool \<Rightarrow> int" where
  "flockCommand unlock wait = (if \<not> unlock \<and> wait then SETLKW else SETLK)"

text \<open>\<open>flock\<close> with a context that cannot be cancelled.\<close>

definition flock :: "nat \<Rightarrow> bool \<Rightarrow> bool \<Rightarrow> bool \<Rightarrow> (lf_sys, err) go" where
  "flock l unlock exclusive wait = (\<lambda>s. FcntlFlock (lf_fp s ! l) (flockCommand unlock wait) (flockType unlock exclusive) s)"

definition lf_TryLock :: "nat \<Rightarrow> bool \<Rightarrow> (lf_sys, err) go" where
  "lf_TryLock l exclusive = flock l False exclusive False"

definition lf_Lock :: "nat \<Rightarrow> bool \<Rightarrow> (lf_sys, err) go" where
  "lf_Lock l exclusive = flock l False exclusive True"

definition lf_Unlock :: "nat \<Rightarrow> (lf_sys, err) go" where
  "lf_Unlock l = flock l True False False"

text \<open>\<open>flock\<close> of \<open>Lock\<close> with a context that can be cancelled, up to the select.\<close>

definition lf_LockCtx :: "nat \<Rightarrow> bool \<Rightarrow> (lf_sys, nat) go" where
  "lf_LockCtx l exclusive = (\<lambda>s. (Done (length (lf_calls s)),
     s\<lparr>lf_calls := lf_calls s @ [\<lparr>lc_file = l, lc_type = flockType False exclusive, lc_pc = Selecting NotIssued\<rparr>]\<rparr>))"

text \<open>\<open>lockfile_other.go\<close>: on other systems every method fails.\<close>

definition notImplemented :: go_error where
  "notImplemented = Errorf ''not implemented'' []"

definition other_NewLockfile :: "string \<Rightarrow> go_error + unit" where
  "other_NewLockfile path = Inl notImplemented"

definition other_Close :: err where
  "other_Close = Some notImplemented"

definition other_TryLock :: "bool \<Rightarrow> err" where
  "other_TryLock exclusive = Some notImplemented"

definition other_Lock :: "bool \<Rightarrow> err" where
  "other_Lock exclusive = Some notImplemented"

definition other_Unlock :: err where
  "other_Unlock = Some notImplemented"

section \<open>Actions\<close>

definition setPc :: "nat \<Rightarrow> lock_pc \<Rightarrow> lf_sys \<Rightarrow> lf_sys" where
  "setPc c pc s = s\<lparr>lf_calls := (lf_calls s)[c := (lf_calls s ! c)\<lparr>lc_pc := pc\<rparr>]\<rparr>"

text \<open>One action of the goroutine in the system call, by what it does to its state; \<open>None\<close> while it waits.\<close>

definition sys_act :: "lock_call \<Rightarrow> sysState \<Rightarrow> lf_sys \<Rightarrow> (sysState \<times> lf_sys) option" where
  "sys_act lc x s = (case x of
      NotIssued \<Rightarrow> (case lf_fp s ! lc_file lc of None \<Rightarrow> Some (Sent (Some EBADF), s) | Some k \<Rightarrow> Some (Waiting k, s))
    | Waiting k \<Rightarrow> (case FcntlFlock (Some k) (flockCommand False True) (lc_type lc) s of
        (Done e, s') \<Rightarrow> Some (Sent e, s') | _ \<Rightarrow> None)
    | Sent e \<Rightarrow> None)"

text \<open>
  What can happen to a call: its system call goes on, its select receives the result, its context
  is cancelled, the second goroutine receives the result and unlocks.
\<close>

datatype call_action = SysCall | Receive | Cancel | Drain | DrainUnlock

definition call_act :: "nat \<Rightarrow> call_action \<Rightarrow> lf_sys \<Rightarrow> lf_sys option" where
  "call_act c a s = (let lc = lf_calls s ! c in case (lc_pc lc, a) of
      (Selecting x, SysCall) \<Rightarrow> map_option (\<lambda>(x', s'). setPc c (Selecting x') s') (sys_act lc x s)
    | (Draining x, SysCall) \<Rightarrow> map_option (\<lambda>(x', s'). setPc c (Draining x') s') (sys_act lc x s)
    | (Selecting (Sent e), Receive) \<Rightarrow> Some (setPc c (Returned e) s)
    | (Selecting x, Cancel) \<Rightarrow> Some (setPc c (Draining x) s)
    | (Draining (Sent e), Drain) \<Rightarrow> Some (setPc c (if e = None then Releasing else Over) s)
    | (Releasing, DrainUnlock) \<Rightarrow> Some (setPc c Over (snd (lf_Unlock (lc_file lc) s)))
    | _ \<Rightarrow> None)"

datatype lf_action =
    New string
  | TryLock nat bool
  | LockNow nat bool
  | Unlock nat
  | Close nat
  | LockCtx nat bool
  | Call nat call_action

definition proceed :: "(lf_sys, 'a) go \<Rightarrow> lf_sys \<Rightarrow> lf_sys option" where
  "proceed f s = (case f s of (Done _, s') \<Rightarrow> Some s' | _ \<Rightarrow> None)"

fun lf_act :: "lf_action \<Rightarrow> lf_sys \<Rightarrow> lf_sys option" where
  "lf_act (New path) s = proceed (NewLockfile None path) s"
| "lf_act (TryLock l e) s = (if l < length (lf_fp s) then proceed (lf_TryLock l e) s else None)"
| "lf_act (LockNow l e) s = (if l < length (lf_fp s) then proceed (lf_Lock l e) s else None)"
| "lf_act (Unlock l) s = (if l < length (lf_fp s) then proceed (lf_Unlock l) s else None)"
| "lf_act (Close l) s = (if l < length (lf_fp s) then proceed (lf_Close l) s else None)"
| "lf_act (LockCtx l e) s = (if l < length (lf_fp s) then proceed (lf_LockCtx l e) s else None)"
| "lf_act (Call c a) s = (if c < length (lf_calls s) then call_act c a s else None)"

fun lf_run :: "lf_action list \<Rightarrow> lf_sys \<Rightarrow> lf_sys option" where
  "lf_run [] s = Some s"
| "lf_run (a # as) s = (case lf_act a s of None \<Rightarrow> None | Some s' \<Rightarrow> lf_run as s')"

lemma lf_run_append: "lf_run (as @ bs) s = (case lf_run as s of None \<Rightarrow> None | Some s' \<Rightarrow> lf_run bs s')"
  by (induction as arbitrary: s) (auto split: option.splits)

section \<open>Exclusion\<close>

text \<open>Locks on one file exclude each other, and a closed description has none.\<close>

definition excl :: "ofd list \<Rightarrow> bool" where
  "excl fds \<longleftrightarrow> (\<forall>i<length fds. (od_open (fds ! i) \<or> od_lock (fds ! i) = F_UNLCK) \<and>
     (\<forall>j<length fds. i \<noteq> j \<longrightarrow> od_path (fds ! i) = od_path (fds ! j) \<longrightarrow> \<not> conflict (od_lock (fds ! i)) (od_lock (fds ! j))))"

lemma conflict_sym: "conflict a b \<longleftrightarrow> conflict b a"
  by (auto simp: conflict_def)

lemma conflict_UNLCK [simp]: "\<not> conflict F_UNLCK t" "\<not> conflict t F_UNLCK"
  by (simp_all add: conflict_def)

lemma refused_iff: "refused fds k t \<longleftrightarrow> (\<exists>j<length fds. j \<noteq> k \<and> od_open (fds ! j) \<and> od_path (fds ! j) = od_path (fds ! k) \<and>
    conflict t (od_lock (fds ! j)))"
  by (auto simp: refused_def list_ex_iff)

lemma refused_UNLCK [simp]: "\<not> refused fds k F_UNLCK"
  by (simp add: refused_iff)

lemma setLock_length [simp]: "length (setLock fds k t) = length fds"
  by (simp add: setLock_def)

lemma setLock_nth: "j < length fds \<Longrightarrow>
    setLock fds k t ! j = (if j = k \<and> od_open (fds ! k) then (fds ! k)\<lparr>od_lock := t\<rparr> else fds ! j)"
  by (simp add: setLock_def)

lemma excl_setLock: "excl fds \<Longrightarrow> \<not> refused fds k t \<Longrightarrow> excl (setLock fds k t)"
  unfolding excl_def refused_iff
  by (auto simp: setLock_nth conflict_sym [of _ t]) (metis conflict_UNLCK(2))

lemma excl_append: "excl fds \<Longrightarrow> excl (fds @ [\<lparr>od_path = p, od_lock = F_UNLCK, od_open = b\<rparr>])"
  by (auto simp: excl_def nth_append less_Suc_eq)

lemma excl_close: "excl fds \<Longrightarrow> excl (fds[k := (fds ! k)\<lparr>od_lock := F_UNLCK, od_open := False\<rparr>])"
  by (cases "k < length fds") (auto simp: excl_def nth_list_update)

text \<open>Each method and each action changes the descriptions in one of these ways.\<close>

lemma FcntlFlock_excl: "FcntlFlock fp command t s = (r, s') \<Longrightarrow> excl (lf_fds s) \<Longrightarrow> excl (lf_fds s')"
  by (auto simp: FcntlFlock_def excl_setLock split: option.splits if_splits)

lemma flock_excl: "flock l u e w s = (r, s') \<Longrightarrow> excl (lf_fds s) \<Longrightarrow> excl (lf_fds s')"
  by (auto simp: flock_def dest: FcntlFlock_excl)

lemmas lf_method_defs = lf_TryLock_def lf_Lock_def lf_Unlock_def

lemma setPc_simps [simp]: "lf_fds (setPc c pc s) = lf_fds s" "lf_fp (setPc c pc s) = lf_fp s"
    "length (lf_calls (setPc c pc s)) = length (lf_calls s)"
  by (simp_all add: setPc_def)

lemma setPc_nth: "d < length (lf_calls s) \<Longrightarrow>
    lf_calls (setPc c pc s) ! d = (if d = c then (lf_calls s ! c)\<lparr>lc_pc := pc\<rparr> else lf_calls s ! d)"
  by (simp add: setPc_def)

lemma sys_act_excl: "sys_act lc x s = Some (x', s') \<Longrightarrow> excl (lf_fds s) \<Longrightarrow> excl (lf_fds s')"
  by (auto simp: sys_act_def split: sysState.splits option.splits prod.splits outcome.splits dest: FcntlFlock_excl)

lemma call_act_excl: "call_act c a s = Some s' \<Longrightarrow> excl (lf_fds s) \<Longrightarrow> excl (lf_fds s')"
  using flock_excl [of "lc_file (lf_calls s ! c)" True False False s]
  by (auto simp: call_act_def Let_def lf_Unlock_def split: lock_pc.splits call_action.splits sysState.splits
      dest: sys_act_excl) (metis prod.collapse)

lemma lf_act_excl: "lf_act a s = Some s' \<Longrightarrow> excl (lf_fds s) \<Longrightarrow> excl (lf_fds s')"
  by (cases a) (auto simp: proceed_def NewLockfile_def lf_Close_def lf_LockCtx_def lf_method_defs excl_append excl_close
      split: if_splits prod.splits outcome.splits option.splits dest: flock_excl call_act_excl)

lemma lf_run_excl: "lf_run as s = Some s' \<Longrightarrow> excl (lf_fds s) \<Longrightarrow> excl (lf_fds s')"
  by (induction as arbitrary: s) (auto split: option.splits dest: lf_act_excl)

section \<open>Calls and their descriptions\<close>

fun sys_waits :: "sysState \<Rightarrow> nat option" where
  "sys_waits (Waiting k) = Some k"
| "sys_waits _ = None"

fun waits_on :: "lock_pc \<Rightarrow> nat option" where
  "waits_on (Selecting x) = sys_waits x"
| "waits_on (Draining x) = sys_waits x"
| "waits_on _ = None"

definition owns :: "nat option list \<Rightarrow> nat \<Rightarrow> nat \<Rightarrow> bool" where
  "owns fp l k \<longleftrightarrow> (\<forall>m<length fp. m \<noteq> l \<longrightarrow> fp ! m \<noteq> Some k)"

lemma owns_append: "owns fp l k \<Longrightarrow> k \<noteq> k' \<Longrightarrow> owns (fp @ [Some k']) l k"
  by (auto simp: owns_def nth_append less_Suc_eq)

lemma owns_new: "\<forall>m<length fp. fp ! m \<noteq> Some k \<Longrightarrow> owns (fp @ [Some k]) (length fp) k"
  by (auto simp: owns_def nth_append less_Suc_eq)

lemma owns_close: "owns fp l k \<Longrightarrow> owns (fp[m := None]) l k"
  by (cases "m < length fp") (auto simp: owns_def nth_list_update)

text \<open>The description of a \<open>Lockfile\<close> is open and its own, also for the calls that wait on it.\<close>

definition lf_wf :: "lf_sys \<Rightarrow> bool" where
  "lf_wf s \<longleftrightarrow>
     (\<forall>l<length (lf_fp s). \<forall>k. lf_fp s ! l = Some k \<longrightarrow> k < length (lf_fds s) \<and> od_open (lf_fds s ! k) \<and> owns (lf_fp s) l k) \<and>
     (\<forall>lc\<in>set (lf_calls s). lc_file lc < length (lf_fp s) \<and>
        (\<forall>k. waits_on (lc_pc lc) = Some k \<longrightarrow> k < length (lf_fds s) \<and> owns (lf_fp s) (lc_file lc) k))"

lemma lf_wfI:
  assumes "\<And>l k. l < length (lf_fp s) \<Longrightarrow> lf_fp s ! l = Some k \<Longrightarrow> k < length (lf_fds s) \<and> od_open (lf_fds s ! k) \<and> owns (lf_fp s) l k"
    and "\<And>lc. lc \<in> set (lf_calls s) \<Longrightarrow> lc_file lc < length (lf_fp s)"
    and "\<And>lc k. lc \<in> set (lf_calls s) \<Longrightarrow> waits_on (lc_pc lc) = Some k \<Longrightarrow> k < length (lf_fds s) \<and> owns (lf_fp s) (lc_file lc) k"
  shows "lf_wf s"
  using assms unfolding lf_wf_def by blast

lemma lf_wf_fp: "lf_wf s \<Longrightarrow> l < length (lf_fp s) \<Longrightarrow> lf_fp s ! l = Some k \<Longrightarrow>
    k < length (lf_fds s) \<and> od_open (lf_fds s ! k) \<and> owns (lf_fp s) l k"
  unfolding lf_wf_def by blast

lemma lf_wf_file: "lf_wf s \<Longrightarrow> lc \<in> set (lf_calls s) \<Longrightarrow> lc_file lc < length (lf_fp s)"
  unfolding lf_wf_def by blast

lemma lf_wf_waits: "lf_wf s \<Longrightarrow> lc \<in> set (lf_calls s) \<Longrightarrow> waits_on (lc_pc lc) = Some k \<Longrightarrow>
    k < length (lf_fds s) \<and> owns (lf_fp s) (lc_file lc) k"
  unfolding lf_wf_def by blast

lemmas lf_wf_facts = lf_wf_fp lf_wf_file lf_wf_waits

lemma lf_wf_init: "lf_wf lf_init"
  by (simp add: lf_wf_def lf_init_def)

lemma lf_wf_setLock: "lf_wf s \<Longrightarrow> lf_wf (s\<lparr>lf_fds := setLock (lf_fds s) k t\<rparr>)"
  by (rule lf_wfI) (auto simp: setLock_nth dest: lf_wf_facts)

lemma FcntlFlock_wf: "FcntlFlock fp command t s = (r, s') \<Longrightarrow> lf_wf s \<Longrightarrow> lf_wf s'"
  by (auto simp: FcntlFlock_def lf_wf_setLock split: option.splits if_splits)

lemma flock_wf: "flock l u e w s = (r, s') \<Longrightarrow> lf_wf s \<Longrightarrow> lf_wf s'"
  by (auto simp: flock_def dest: FcntlFlock_wf)

lemma lf_wf_setPc:
  assumes "lf_wf s" and "c < length (lf_calls s)"
    and "\<And>k. waits_on pc = Some k \<Longrightarrow> waits_on (lc_pc (lf_calls s ! c)) = Some k \<or> lf_fp s ! lc_file (lf_calls s ! c) = Some k"
  shows "lf_wf (setPc c pc s)"
proof -
  have c: "lf_calls s ! c \<in> set (lf_calls s)" using assms(2) by simp
  have cases: "lc \<in> set (lf_calls s) \<or> lc = (lf_calls s ! c)\<lparr>lc_pc := pc\<rparr>" if "lc \<in> set (lf_calls (setPc c pc s))" for lc
    using that set_update_subset_insert [of "lf_calls s" c] by (auto simp: setPc_def)
  show ?thesis
  proof (rule lf_wfI)
    show "lc_file lc < length (lf_fp (setPc c pc s))" if "lc \<in> set (lf_calls (setPc c pc s))" for lc
      using cases [OF that] lf_wf_file [OF assms(1)] c by auto
    show "k < length (lf_fds (setPc c pc s)) \<and> owns (lf_fp (setPc c pc s)) (lc_file lc) k"
      if "lc \<in> set (lf_calls (setPc c pc s))" "waits_on (lc_pc lc) = Some k" for lc k
      using cases [OF that(1)] that(2) lf_wf_waits [OF assms(1)] lf_wf_waits [OF assms(1) c, of k]
        lf_wf_fp [OF assms(1) lf_wf_file [OF assms(1) c], of k] assms(3) [of k] by auto
  qed (use lf_wf_fp [OF assms(1)] in simp)
qed

lemma sys_act_frame:
  assumes "sys_act lc x s = Some (x', s')" and "lf_wf s"
  shows "lf_wf s' \<and> lf_calls s' = lf_calls s \<and> lf_fp s' = lf_fp s \<and>
    (\<forall>k. sys_waits x' = Some k \<longrightarrow> lf_fp s ! lc_file lc = Some k)"
proof -
  have "lf_calls s' = lf_calls s \<and> lf_fp s' = lf_fp s" if "FcntlFlock fp command t s = (r, s')" for fp command t r
    using that by (auto simp: FcntlFlock_def split: option.splits if_splits)
  then show ?thesis using assms
    by (auto simp: sys_act_def dest: FcntlFlock_wf split: sysState.splits option.splits prod.splits outcome.splits)
qed

lemma call_act_wf:
  assumes "call_act c a s = Some s'" and "c < length (lf_calls s)" and "lf_wf s"
  shows "lf_wf s'"
proof -
  have "lf_wf (snd (lf_Unlock l s)) \<and> lf_calls (snd (lf_Unlock l s)) = lf_calls s" for l
    using flock_wf [of l True False False s] assms(3)
    by (cases "flock l True False False s") (auto simp: lf_Unlock_def flock_def FcntlFlock_def split: option.splits if_splits)
  then show ?thesis using assms
    by (auto simp: call_act_def Let_def split: lock_pc.splits call_action.splits sysState.splits if_splits
        dest!: sys_act_frame intro!: lf_wf_setPc)
qed

lemma NewLockfile_wf:
  assumes "lf_wf s"
  shows "lf_wf (snd (NewLockfile None path s))"
proof (rule lf_wfI)
  let ?n = "length (lf_fds s)" and ?s = "snd (NewLockfile None path s)"
  have new: "lf_fds ?s = lf_fds s @ [\<lparr>od_path = path, od_lock = F_UNLCK, od_open = True\<rparr>]" "lf_fp ?s = lf_fp s @ [Some ?n]"
    "lf_calls ?s = lf_calls s" by (simp_all add: NewLockfile_def)
  have unused: "\<forall>m<length (lf_fp s). lf_fp s ! m \<noteq> Some ?n" using lf_wf_fp [OF assms] by blast
  show "k < length (lf_fds ?s) \<and> od_open (lf_fds ?s ! k) \<and> owns (lf_fp ?s) l k"
    if "l < length (lf_fp ?s)" "lf_fp ?s ! l = Some k" for l k
    using that lf_wf_fp [OF assms, of l k] owns_new [OF unused] owns_append [of "lf_fp s" l k ?n]
    by (cases "l = length (lf_fp s)") (auto simp: new nth_append)
  show "lc_file lc < length (lf_fp ?s)" if "lc \<in> set (lf_calls ?s)" for lc
    using that lf_wf_file [OF assms, of lc] by (simp add: new)
  show "k < length (lf_fds ?s) \<and> owns (lf_fp ?s) (lc_file lc) k" if "lc \<in> set (lf_calls ?s)" "waits_on (lc_pc lc) = Some k" for lc k
    using that lf_wf_waits [OF assms, of lc k] owns_append [of "lf_fp s" "lc_file lc" k ?n] by (auto simp: new)
qed

lemma lf_Close_wf:
  assumes "lf_wf s" and "l < length (lf_fp s)"
  shows "lf_wf (snd (lf_Close l s))"
proof (cases "lf_fp s ! l")
  case None
  then show ?thesis using assms(1) by (simp add: lf_Close_def)
next
  case (Some j)
  let ?s = "snd (lf_Close l s)"
  have new: "lf_fds ?s = (lf_fds s)[j := (lf_fds s ! j)\<lparr>od_lock := F_UNLCK, od_open := False\<rparr>]" "lf_fp ?s = (lf_fp s)[l := None]"
    "lf_calls ?s = lf_calls s" using Some by (simp_all add: lf_Close_def)
  show ?thesis
  proof (rule lf_wfI)
    show "k < length (lf_fds ?s) \<and> od_open (lf_fds ?s ! k) \<and> owns (lf_fp ?s) m k"
      if "m < length (lf_fp ?s)" "lf_fp ?s ! m = Some k" for m k
    proof -
      have m: "m \<noteq> l" "lf_fp s ! m = Some k" using that assms(2) by (auto simp: new nth_list_update split: if_splits)
      moreover have "k \<noteq> j" using lf_wf_fp [OF assms Some] m that(1) by (auto simp: owns_def new)
      ultimately show ?thesis using lf_wf_fp [OF assms(1), of m k] that(1) by (auto simp: new owns_close)
    qed
    show "lc_file lc < length (lf_fp ?s)" if "lc \<in> set (lf_calls ?s)" for lc
      using that lf_wf_file [OF assms(1), of lc] by (simp add: new)
    show "k < length (lf_fds ?s) \<and> owns (lf_fp ?s) (lc_file lc) k" if "lc \<in> set (lf_calls ?s)" "waits_on (lc_pc lc) = Some k" for lc k
      using that lf_wf_waits [OF assms(1), of lc k] by (simp add: new owns_close)
  qed
qed

lemma lf_LockCtx_wf: "lf_wf s \<Longrightarrow> l < length (lf_fp s) \<Longrightarrow> lf_wf (snd (lf_LockCtx l e s))"
  by (rule lf_wfI) (auto simp: lf_LockCtx_def dest: lf_wf_facts)

lemma proceed_snd: "proceed f s = Some s' \<Longrightarrow> s' = snd (f s)"
  by (auto simp: proceed_def split: prod.splits outcome.splits)

lemma lf_act_wf: "lf_act a s = Some s' \<Longrightarrow> lf_wf s \<Longrightarrow> lf_wf s'"
  by (cases a) (auto simp: lf_method_defs split: if_splits dest!: proceed_snd
      intro: NewLockfile_wf lf_Close_wf lf_LockCtx_wf call_act_wf flock_wf [OF prod.collapse [symmetric]])

lemma lf_run_wf: "lf_run as s = Some s' \<Longrightarrow> lf_wf s \<Longrightarrow> lf_wf s'"
  by (induction as arbitrary: s) (auto split: option.splits dest: lf_act_wf)

section \<open>A single call on a lock file\<close>

fun ended :: "lock_pc \<Rightarrow> bool" where
  "ended (Returned _) = True"
| "ended Over = True"
| "ended _ = False"

text \<open>The actions that are not methods called on the lock file \<open>l\<close>.\<close>

fun leaves :: "nat \<Rightarrow> lf_action \<Rightarrow> bool" where
  "leaves l (New _) = True"
| "leaves l (TryLock m _) = (m \<noteq> l)"
| "leaves l (LockNow m _) = (m \<noteq> l)"
| "leaves l (Unlock m) = (m \<noteq> l)"
| "leaves l (Close m) = (m \<noteq> l)"
| "leaves l (LockCtx m _) = (m \<noteq> l)"
| "leaves l (Call _ _) = True"

text \<open>What the stage of a call says about the lock of its description.\<close>

fun sys_stage :: "nat \<Rightarrow> lockType \<Rightarrow> sysState \<Rightarrow> lockType \<Rightarrow> bool" where
  "sys_stage k t NotIssued x = True"
| "sys_stage k t (Waiting j) x = (j = k)"
| "sys_stage k t (Sent e) x = (e = None \<and> x = t)"

fun stage :: "nat \<Rightarrow> lockType \<Rightarrow> lock_pc \<Rightarrow> lockType \<Rightarrow> bool" where
  "stage k t (Selecting y) x = sys_stage k t y x"
| "stage k t (Draining y) x = sys_stage k t y x"
| "stage k t Releasing x = (x = t)"
| "stage k t (Returned e) x = (e = None \<and> x = t)"
| "stage k t Over x = (x = F_UNLCK)"

definition lone :: "nat \<Rightarrow> nat \<Rightarrow> nat \<Rightarrow> lockType \<Rightarrow> lf_sys \<Rightarrow> bool" where
  "lone l c k t s \<longleftrightarrow> lf_wf s \<and> l < length (lf_fp s) \<and> lf_fp s ! l = Some k \<and>
     c < length (lf_calls s) \<and> lc_file (lf_calls s ! c) = l \<and> lc_type (lf_calls s ! c) = t \<and>
     (\<forall>d<length (lf_calls s). d \<noteq> c \<longrightarrow> lc_file (lf_calls s ! d) = l \<longrightarrow> ended (lc_pc (lf_calls s ! d))) \<and>
     stage k t (lc_pc (lf_calls s ! c)) (od_lock (lf_fds s ! k))"

text \<open>Locks on other descriptions do not touch this one.\<close>

definition same_at :: "nat \<Rightarrow> nat \<Rightarrow> lf_sys \<Rightarrow> lf_sys \<Rightarrow> bool" where
  "same_at l k s s' \<longleftrightarrow> l < length (lf_fp s') \<and> lf_fp s' ! l = lf_fp s ! l \<and> od_lock (lf_fds s' ! k) = od_lock (lf_fds s ! k)"

lemma FcntlFlock_other:
  assumes "FcntlFlock fp command t s = (r, s')" and "fp \<noteq> Some k" and "l < length (lf_fp s)"
  shows "same_at l k s s' \<and> lf_calls s' = lf_calls s"
  using assms by (auto simp: FcntlFlock_def same_at_def setLock_def split: option.splits if_splits)

lemma fp_other: "lf_wf s \<Longrightarrow> l < length (lf_fp s) \<Longrightarrow> lf_fp s ! l = Some k \<Longrightarrow> m < length (lf_fp s) \<Longrightarrow> m \<noteq> l \<Longrightarrow> lf_fp s ! m \<noteq> Some k"
  using lf_wf_fp [of s l k] by (auto simp: owns_def)

lemma flock_other:
  assumes "lf_wf s" and "l < length (lf_fp s)" and "lf_fp s ! l = Some k" and "m < length (lf_fp s)" and "m \<noteq> l"
    and "flock m u e w s = (r, s')"
  shows "same_at l k s s' \<and> lf_calls s' = lf_calls s"
  using FcntlFlock_other [OF assms(6) [unfolded flock_def] fp_other [OF assms(1-5)] assms(2)] .

text \<open>A call on another lock file, or one that has ended.\<close>

lemma sys_act_other:
  assumes "lf_wf s" and "l < length (lf_fp s)" and "lf_fp s ! l = Some k" and "lc \<in> set (lf_calls s)" and "lc_file lc \<noteq> l"
    and "sys_act lc x s = Some (x', s')" and "waits_on (lc_pc lc) = sys_waits x"
  shows "same_at l k s s' \<and> lf_calls s' = lf_calls s"
proof -
  have "x \<noteq> Waiting k" using lf_wf_waits [OF assms(1,4), of k] assms(2,3,5,7) by (auto simp: owns_def)
  then show ?thesis using assms(6) FcntlFlock_other [of "Some _" _ "lc_type lc" s _ s' k l] assms(2)
    by (auto simp: sys_act_def same_at_def split: sysState.splits option.splits prod.splits outcome.splits)
qed

lemma same_at_setPc [simp]: "same_at l k s (setPc c pc s') \<longleftrightarrow> same_at l k s s'"
  by (simp add: same_at_def)

lemma call_act_cases:
  assumes "call_act c a s = Some s'"
  obtains pc where "s' = setPc c pc s" "\<not> ended (lc_pc (lf_calls s ! c))"
  | pc x x' s1 where "s' = setPc c pc s1" "\<not> ended (lc_pc (lf_calls s ! c))" "sys_act (lf_calls s ! c) x s = Some (x', s1)"
      "waits_on (lc_pc (lf_calls s ! c)) = sys_waits x"
  | pc where "s' = setPc c pc (snd (lf_Unlock (lc_file (lf_calls s ! c)) s))" "\<not> ended (lc_pc (lf_calls s ! c))"
  using assms by (auto simp: call_act_def Let_def split: lock_pc.splits call_action.splits sysState.splits)

lemma call_act_other:
  assumes "lf_wf s" and "l < length (lf_fp s)" and "lf_fp s ! l = Some k" and "d < length (lf_calls s)"
    and "lc_file (lf_calls s ! d) \<noteq> l \<or> ended (lc_pc (lf_calls s ! d))" and "call_act d a s = Some s'"
  shows "same_at l k s s' \<and> (\<exists>pc. lf_calls s' = (lf_calls s)[d := (lf_calls s ! d)\<lparr>lc_pc := pc\<rparr>]) \<and> lc_file (lf_calls s ! d) \<noteq> l"
proof -
  let ?lc = "lf_calls s ! d"
  have mem: "?lc \<in> set (lf_calls s)" using assms(4) by simp
  have ne: "lc_file ?lc \<noteq> l" using assms(5,6) by (auto elim: call_act_cases)
  have un: "same_at l k s (snd (lf_Unlock (lc_file ?lc) s)) \<and> lf_calls (snd (lf_Unlock (lc_file ?lc) s)) = lf_calls s"
    using flock_other [OF assms(1-3) lf_wf_file [OF assms(1) mem] ne, of True False False]
    by (cases "flock (lc_file ?lc) True False False s") (auto simp: lf_Unlock_def)
  have refl: "same_at l k s s" using assms(2) by (simp add: same_at_def)
  from assms(6) show ?thesis
  proof (cases rule: call_act_cases)
    case (1 pc)
    then show ?thesis using refl ne by (auto simp: setPc_def same_at_def)
  next
    case (2 pc x x' s1)
    then show ?thesis using sys_act_other [OF assms(1-3) mem ne, of x x' s1] ne by (auto simp: setPc_def same_at_def)
  next
    case (3 pc)
    then show ?thesis using un ne by (auto simp: setPc_def same_at_def)
  qed
qed

lemma lone_setPc:
  assumes "lone l c k t s" and "lf_wf (setPc c pc s1)" and "lf_fp s1 = lf_fp s" and "lf_calls s1 = lf_calls s"
    and "stage k t pc (od_lock (lf_fds s1 ! k))"
  shows "lone l c k t (setPc c pc s1)"
  using assms by (auto simp: lone_def setPc_nth)

lemma lone_own:
  assumes "lone l c k t s" and "call_act c a s = Some s'"
  shows "lone l c k t s'"
proof -
  note wf = assms(1) [unfolded lone_def]
  let ?lc = "lf_calls s ! c"
  have k: "k < length (lf_fds s)" "od_open (lf_fds s ! k)" using wf lf_wf_fp [of s l k] by auto
  have lock: "od_lock (setLock (lf_fds s) k u ! k) = u" for u using k by (simp add: setLock_nth)
  have lwf: "lf_wf s'" using call_act_wf [OF assms(2)] wf by blast
  have st: "stage k t (lc_pc ?lc) (od_lock (lf_fds s ! k))" "lc_file ?lc = l" "lc_type ?lc = t" "lf_fp s ! l = Some k" using wf by auto
  have sys: "lf_fp s1 = lf_fp s \<and> lf_calls s1 = lf_calls s \<and> sys_stage k t x' (od_lock (lf_fds s1 ! k))"
    if "sys_act ?lc x s = Some (x', s1)" "sys_stage k t x (od_lock (lf_fds s ! k))" for x x' s1
    using that st lock by (auto simp: sys_act_def FcntlFlock_def flockCommand_def split: sysState.splits option.splits prod.splits outcome.splits if_splits)
  have un: "lf_fp (snd (lf_Unlock l s)) = lf_fp s \<and> lf_calls (snd (lf_Unlock l s)) = lf_calls s \<and>
      od_lock (lf_fds (snd (lf_Unlock l s)) ! k) = F_UNLCK"
    using st(4) lock by (simp add: lf_Unlock_def flock_def FcntlFlock_def flockType_def)
  show ?thesis
  proof (cases "lc_pc ?lc")
    case (Selecting x)
    then show ?thesis using assms lwf st sys [of x]
      by (auto simp: call_act_def Let_def split: call_action.splits sysState.splits intro!: lone_setPc [where s = s])
  next
    case (Draining x)
    then show ?thesis using assms lwf st sys [of x]
      by (auto simp: call_act_def Let_def split: call_action.splits sysState.splits if_splits intro!: lone_setPc [where s = s])
  next
    case Releasing
    then show ?thesis using assms lwf st un
      by (auto simp: call_act_def Let_def split: call_action.splits intro!: lone_setPc [where s = s])
  qed (use assms(2) in \<open>simp_all add: call_act_def Let_def\<close>)
qed

text \<open>Methods on other lock files: the calls on \<open>l\<close> and its description stay as they are.\<close>

lemma lf_act_other:
  assumes "lf_wf s" and "l < length (lf_fp s)" and "lf_fp s ! l = Some k" and "leaves l a" and "lf_act a s = Some s'"
    and "\<And>d x. a \<noteq> Call d x"
  shows "same_at l k s s' \<and> (lf_calls s' = lf_calls s \<or> (\<exists>lc. lf_calls s' = lf_calls s @ [lc] \<and> lc_file lc \<noteq> l))"
proof -
  have k: "k < length (lf_fds s)" using lf_wf_fp [OF assms(1-3)] by simp
  have fl: "same_at l k s (snd (flock m u e w s)) \<and> lf_calls (snd (flock m u e w s)) = lf_calls s"
    if "m < length (lf_fp s)" "m \<noteq> l" for m u e w
    using flock_other [OF assms(1-3) that] by (cases "flock m u e w s") auto
  have cl: "same_at l k s (snd (lf_Close m s)) \<and> lf_calls (snd (lf_Close m s)) = lf_calls s"
    if "m < length (lf_fp s)" "m \<noteq> l" for m
    using fp_other [OF assms(1-3) that] assms(2) that(2) by (auto simp: lf_Close_def same_at_def split: option.splits)
  from assms(4,5) show ?thesis
  proof (cases a)
    case (New p)
    then have "s' = snd (NewLockfile None p s)" using assms(5) by (auto dest: proceed_snd)
    then show ?thesis using assms(2) k by (auto simp: NewLockfile_def same_at_def nth_append)
  next
    case (LockCtx m e)
    then have "s' = snd (lf_LockCtx m e s)" using assms(5) by (auto dest: proceed_snd split: if_splits)
    then show ?thesis using assms(2,4) LockCtx by (auto simp: lf_LockCtx_def same_at_def)
  qed (use assms(4-6) fl cl in \<open>auto simp: lf_method_defs split: if_splits dest!: proceed_snd\<close>)
qed

lemma lone_act:
  assumes "lone l c k t s" and "leaves l a" and "lf_act a s = Some s'"
  shows "lone l c k t s'"
proof -
  note l = assms(1) [unfolded lone_def]
  have wf: "lf_wf s'" using lf_act_wf [OF assms(3)] l by blast
  show ?thesis
  proof (cases "\<exists>d x. a = Call d x")
    case True
    then obtain d x where a: "a = Call d x" by blast
    then have d: "d < length (lf_calls s)" "call_act d x s = Some s'" using assms(3) by (auto split: if_splits)
    show ?thesis
    proof (cases "d = c")
      case True
      then show ?thesis using lone_own [OF assms(1)] d by simp
    next
      case False
      with l d have "lc_file (lf_calls s ! d) \<noteq> l \<or> ended (lc_pc (lf_calls s ! d))" by auto
      from call_act_other [OF _ _ _ d(1) this d(2), of k] l wf False d(1) show ?thesis
        by (auto simp: lone_def same_at_def nth_list_update)
    qed
  next
    case False
    then show ?thesis using lf_act_other [OF _ _ _ assms(2,3), of k] l wf
      by (auto simp: lone_def same_at_def nth_append less_Suc_eq)
  qed
qed

lemma lone_run: "lf_run as s = Some s' \<Longrightarrow> list_all (leaves l) as \<Longrightarrow> lone l c k t s \<Longrightarrow> lone l c k t s'"
  by (induction as arbitrary: s) (auto split: option.splits dest: lone_act)

section \<open>Properties\<close>

text \<open>
  Whatever callers and goroutines do in whatever order, an exclusive lock on a file is alone: two open
  descriptions of one path never hold locks of which one is exclusive.
\<close>

theorem lockfile_exclusion:
  assumes "lf_run as lf_init = Some s" and "i < length (lf_fds s)" and "j < length (lf_fds s)" and "i \<noteq> j"
    and "od_path (lf_fds s ! i) = od_path (lf_fds s ! j)" and "od_lock (lf_fds s ! i) = F_WRLCK"
  shows "od_lock (lf_fds s ! j) = F_UNLCK"
proof -
  have "excl (lf_fds s)" using lf_run_excl [OF assms(1)] by (simp add: excl_def lf_init_def)
  then have "\<not> conflict F_WRLCK (od_lock (lf_fds s ! j))" using assms(2-6) unfolding excl_def by metis
  then show ?thesis by (simp add: conflict_def)
qed

theorem lockfile_exclusion_witness:
  "\<exists>s. lf_run [New ''p'', New ''p'', LockNow 0 True, TryLock 1 True, TryLock 1 False] lf_init = Some s \<and>
     od_lock (lf_fds s ! 0) = F_WRLCK \<and> od_lock (lf_fds s ! 1) = F_UNLCK"
proof -
  let ?as = "[New ''p'', New ''p'', LockNow 0 True, TryLock 1 True, TryLock 1 False]"
  let ?p = "\<lambda>t. \<lparr>od_path = ''p'', od_lock = t, od_open = True\<rparr>"
  let ?s = "\<lparr>lf_fds = [?p F_WRLCK, ?p F_UNLCK], lf_fp = [Some 0, Some 1], lf_calls = []\<rparr>"
  have run: "lf_run ?as lf_init = Some ?s" by code_simp
  from lockfile_exclusion [OF run, of 0 1] run show ?thesis by simp
qed

text \<open>
  (C5) A call of \<open>Lock\<close> that is cancelled leaves no lock behind. As long as no other method is called on the
  lock file, a call that returns the result of the system call returns nil and holds the lock it asked
  for, and when a cancelled call and its goroutines are over the file is unlocked, however late the
  system call succeeded and whatever happens to other lock files meanwhile.
\<close>

theorem cancelled_lock_dropped:
  assumes "lf_run as lf_init = Some s0" and "l < length (lf_fp s0)" and "lf_fp s0 ! l = Some k"
    and "\<forall>lc\<in>set (lf_calls s0). lc_file lc = l \<longrightarrow> ended (lc_pc lc)"
    and "lf_run (LockCtx l e # bs) s0 = Some s" and "list_all (leaves l) bs"
  shows "case lc_pc (lf_calls s ! length (lf_calls s0)) of
      Returned r \<Rightarrow> r = None \<and> od_lock (lf_fds s ! k) = flockType False e
    | Over \<Rightarrow> od_lock (lf_fds s ! k) = F_UNLCK
    | _ \<Rightarrow> True"
proof -
  let ?c = "length (lf_calls s0)" and ?s1 = "snd (lf_LockCtx l e s0)"
  have wf: "lf_wf s0" using lf_run_wf [OF assms(1) lf_wf_init] .
  have run: "lf_run bs ?s1 = Some s" using assms(2,5) by (simp add: proceed_def lf_LockCtx_def)
  have "lone l ?c k (flockType False e) ?s1"
    using lf_LockCtx_wf [OF wf assms(2), of e] assms(2-4) nth_mem [of _ "lf_calls s0"]
    by (auto simp: lone_def lf_LockCtx_def nth_append less_Suc_eq)
  from lone_run [OF run assms(6) this] show ?thesis
    by (auto simp: lone_def split: lock_pc.splits)
qed

definition late_trace :: "lf_action list" where
  "late_trace = [Call 0 SysCall, Call 0 Cancel, Unlock 0, Call 0 SysCall, Call 0 Drain, Call 0 DrainUnlock]"

theorem cancelled_lock_dropped_witness:
  "\<exists>s0 s. lf_run [New ''p'', New ''p'', LockNow 0 True] lf_init = Some s0 \<and> lf_run (LockCtx 1 True # late_trace) s0 = Some s \<and>
     lc_pc (lf_calls s ! 0) = Over \<and> od_lock (lf_fds s ! 1) = F_UNLCK"
proof -
  let ?p = "\<lambda>t. \<lparr>od_path = ''p'', od_lock = t, od_open = True\<rparr>"
  let ?start = "\<lparr>lf_fds = [?p F_WRLCK, ?p F_UNLCK], lf_fp = [Some 0, Some 1], lf_calls = []\<rparr>"
  let ?s = "\<lparr>lf_fds = [?p F_UNLCK, ?p F_UNLCK], lf_fp = [Some 0, Some 1], lf_calls = [\<lparr>lc_file = 1, lc_type = F_WRLCK, lc_pc = Over\<rparr>]\<rparr>"
  have 0: "lf_run [New ''p'', New ''p'', LockNow 0 True] lf_init = Some ?start" by code_simp
  have 1: "lf_run (LockCtx 1 True # late_trace) ?start = Some ?s" by code_simp
  have "list_all (leaves 1) late_trace" by (simp add: late_trace_def)
  from cancelled_lock_dropped [OF 0 _ _ _ 1 this, of 1] have "od_lock (lf_fds ?s ! 1) = F_UNLCK" by simp
  then show ?thesis by (intro exI [of _ ?start] exI [of _ ?s] conjI 0 1) simp_all
qed

text \<open>
  (C20) The lock that comes too late takes the lock of a retry with it. When a cancelled call still waits in
  the kernel and a second call on the same lock file has got the exclusive lock and returned nil,
  the first call's goroutines go on to unlock the file: the second caller, who has called nothing
  else, no longer holds what it was given.
\<close>

theorem late_lock_drops_retry:
  assumes "lf_run as lf_init = Some s" and "l < length (lf_fp s)" and "lf_fp s ! l = Some k"
    and "c < length (lf_calls s)" and "d < length (lf_calls s)" and "c \<noteq> d"
    and "lc_file (lf_calls s ! c) = l" and "lc_pc (lf_calls s ! c) = Draining (Waiting k)"
    and "lc_pc (lf_calls s ! d) = Returned None" and "od_lock (lf_fds s ! k) = F_WRLCK"
  shows "\<exists>s'. lf_run [Call c SysCall, Call c Drain, Call c DrainUnlock] s = Some s' \<and>
    lc_pc (lf_calls s' ! d) = Returned None \<and> lf_fp s' ! l = Some k \<and> od_lock (lf_fds s' ! k) = F_UNLCK"
proof -
  let ?t = "lc_type (lf_calls s ! c)"
  have k: "k < length (lf_fds s)" "od_open (lf_fds s ! k)"
    using lf_wf_fp [OF lf_run_wf [OF assms(1) lf_wf_init] assms(2,3)] by auto
  have "excl (lf_fds s)" using lf_run_excl [OF assms(1)] by (simp add: excl_def lf_init_def)
  then have "\<not> conflict (od_lock (lf_fds s ! j)) F_WRLCK" if "j < length (lf_fds s)" "j \<noteq> k" "od_path (lf_fds s ! j) = od_path (lf_fds s ! k)" for j
    using that k(1) assms(10) unfolding excl_def by metis
  then have free: "\<not> refused (lf_fds s) k ?t" by (auto simp: refused_iff conflict_def)
  let ?s1 = "setPc c (Draining (Sent None)) (s\<lparr>lf_fds := setLock (lf_fds s) k ?t\<rparr>)"
  let ?s2 = "setPc c Releasing ?s1"
  have 1: "lf_act (Call c SysCall) s = Some ?s1"
    using assms(4,8) free by (simp add: call_act_def sys_act_def FcntlFlock_def)
  have 2: "lf_act (Call c Drain) ?s1 = Some ?s2" using assms(4) by (simp add: call_act_def setPc_nth)
  have 3: "lf_act (Call c DrainUnlock) ?s2 = Some (setPc c Over (snd (lf_Unlock l ?s2)))"
    using assms(4,7) by (simp add: call_act_def setPc_nth)
  have un: "lf_Unlock l ?s2 = (Done None, ?s2\<lparr>lf_fds := setLock (lf_fds ?s2) k F_UNLCK\<rparr>)"
    using assms(3) by (simp add: lf_Unlock_def flock_def FcntlFlock_def flockType_def)
  show ?thesis using 1 2 3 un assms(3-6,9) k by (auto simp: setPc_nth setLock_nth)
qed

definition retry_trace :: "lf_action list" where
  "retry_trace = [New ''p'', New ''p'', LockNow 0 True, LockCtx 1 True, Call 0 SysCall, Call 0 Cancel, Unlock 0,
     LockCtx 1 True, Call 1 SysCall, Call 1 SysCall, Call 1 Receive]"

theorem late_lock_drops_retry_witness:
  "\<exists>s s'. lf_run retry_trace lf_init = Some s \<and> lc_pc (lf_calls s ! 1) = Returned None \<and> od_lock (lf_fds s ! 1) = F_WRLCK \<and>
     lf_run [Call 0 SysCall, Call 0 Drain, Call 0 DrainUnlock] s = Some s' \<and> od_lock (lf_fds s' ! 1) = F_UNLCK"
proof -
  let ?p = "\<lambda>t. \<lparr>od_path = ''p'', od_lock = t, od_open = True\<rparr>"
  let ?s = "\<lparr>lf_fds = [?p F_UNLCK, ?p F_WRLCK], lf_fp = [Some 0, Some 1],
    lf_calls = [\<lparr>lc_file = 1, lc_type = F_WRLCK, lc_pc = Draining (Waiting 1)\<rparr>, \<lparr>lc_file = 1, lc_type = F_WRLCK, lc_pc = Returned None\<rparr>]\<rparr>"
  have run: "lf_run retry_trace lf_init = Some ?s" by code_simp
  obtain s' where "lf_run [Call 0 SysCall, Call 0 Drain, Call 0 DrainUnlock] ?s = Some s'" "od_lock (lf_fds s' ! 1) = F_UNLCK"
    using late_lock_drops_retry [OF run, of 1 1 0 1] by (auto simp del: lf_run.simps)
  then show ?thesis by (intro exI [of _ ?s] exI [of _ s'] conjI run) simp_all
qed

end
