(* ===== verification/Deep_Copy.thy ===== *)
theory Deep_Copy
  imports K8s_Objects
begin

text \<open>
  \<open>src/pkg/k8s/apis/eni.io/v1alpha1/zz_generated.deepcopy.go\<close>: the copies of the custom resource, on
  an explicit store, because what a deep copy promises is about sharing. Pointers are addresses, a
  slice is a window on an array of the store, structs live in cells of their own when they are made
  with \<open>new\<close>. The abstraction \<open>subnet_of\<close> reads a struct back as the value \<open>SubnetObj\<close> the controllers are
  modelled with. The copy of the object metadata (\<open>apimachinery\<close>) is modelled for the fields that
  \<open>ObjectMeta\<close> has.
\<close>

section \<open>The store\<close>

type_synonym addr = nat

text \<open>A non-nil slice: the array, the first element and the length.\<close>

record slice_ref =
  sl_array :: addr
  sl_off :: nat
  sl_len :: nat

record MetaR =
  m_Name :: string
  m_Annotations :: "addr option"
  m_Finalizers :: "slice_ref option"
  m_DeletionTimestamp :: "addr option"

record SpecR =
  s_IPVersion :: "addr option"
  s_Subnet :: string
  s_Vpc :: string
  s_Project :: string
  s_PreAllocated :: "addr option"
  s_MinAvaliable :: "addr option"
  s_NamespaceName :: "slice_ref option"
  s_NodeName :: "slice_ref option"

record StatusR =
  t_SubnatName :: "addr option"
  t_VpcName :: "addr option"
  t_Gateway :: "addr option"
  t_Cidr :: "addr option"
  t_NamespaceName :: "slice_ref option"
  t_NodeName :: "slice_ref option"

record SubnetR =
  u_Meta :: MetaR
  u_Spec :: SpecR
  u_Status :: StatusR

text \<open>The items of a list are the address of an array of structs.\<close>

record SubnetListR =
  l_RemainingItemCount :: "addr option"
  l_Items :: "addr option"

datatype cell =
    CInt int
  | CStr string
  | CTime nat
  | CArr "string list"
  | CMap "string gomap"
  | CSubnet SubnetR
  | CSubnets "SubnetR list"
  | CSpec SpecR
  | CStatus StatusR
  | CList SubnetListR

record store =
  cells :: "addr \<rightharpoonup> cell"
  limit :: addr

definition loadCell :: "addr \<Rightarrow> (store, cell) go" where
  "loadCell a = (\<lambda>\<sigma>. case cells \<sigma> a of Some c \<Rightarrow> (Done c, \<sigma>) | None \<Rightarrow> (Panic NilDeref, \<sigma>))"

definition newCell :: "cell \<Rightarrow> (store, addr) go" where
  "newCell c = (\<lambda>\<sigma>. (Done (limit \<sigma>), \<sigma>\<lparr>cells := (cells \<sigma>)(limit \<sigma> \<mapsto> c), limit := Suc (limit \<sigma>)\<rparr>))"

definition assignCell :: "addr \<Rightarrow> cell \<Rightarrow> (store, unit) go" where
  "assignCell a c = modify (\<lambda>\<sigma>. \<sigma>\<lparr>cells := (cells \<sigma>)(a \<mapsto> c)\<rparr>)"

section \<open>Copies\<close>

text \<open>
  \<open>if in != nil { out = new(T); in.DeepCopyInto(out) }\<close>: the new cell starts with a zero value and
  then receives the copy. \<open>K\<close> and \<open>un\<close> put a value of type \<open>T\<close> into a cell and take it out. For a
  type without pointers the copy is the assignment \<open>**out = **in\<close>.
\<close>

definition copyNew ::
  "('a \<Rightarrow> cell) \<Rightarrow> (cell \<Rightarrow> 'a option) \<Rightarrow> ('a \<Rightarrow> 'a) \<Rightarrow> ('a \<Rightarrow> (store, 'a) go) \<Rightarrow> addr option \<Rightarrow> (store, addr option) go" where
  "copyNew K un zero into inp = (case inp of
      None \<Rightarrow> ret None
    | Some a \<Rightarrow> andThen (loadCell a) (\<lambda>c. case un c of
        None \<Rightarrow> raise BadAssertion
      | Some x \<Rightarrow> andThen (newCell (K (zero x))) (\<lambda>out. andThen (into x) (\<lambda>x'.
          andThen (assignCell out (K x')) (\<lambda>_. ret (Some out))))))"

fun unInt :: "cell \<Rightarrow> int option" where
  "unInt (CInt i) = Some i"
| "unInt _ = None"

fun unStr :: "cell \<Rightarrow> string option" where
  "unStr (CStr s) = Some s"
| "unStr _ = None"

fun unTime :: "cell \<Rightarrow> nat option" where
  "unTime (CTime t) = Some t"
| "unTime _ = None"

fun unMap :: "cell \<Rightarrow> string gomap option" where
  "unMap (CMap m) = Some m"
| "unMap _ = None"

fun unArr :: "cell \<Rightarrow> string list option" where
  "unArr (CArr xs) = Some xs"
| "unArr _ = None"

fun unSubnet :: "cell \<Rightarrow> SubnetR option" where
  "unSubnet (CSubnet u) = Some u"
| "unSubnet _ = None"

fun unSubnets :: "cell \<Rightarrow> SubnetR list option" where
  "unSubnets (CSubnets us) = Some us"
| "unSubnets _ = None"

fun unSpec :: "cell \<Rightarrow> SpecR option" where
  "unSpec (CSpec s) = Some s"
| "unSpec _ = None"

fun unStatus :: "cell \<Rightarrow> StatusR option" where
  "unStatus (CStatus s) = Some s"
| "unStatus _ = None"

fun unList :: "cell \<Rightarrow> SubnetListR option" where
  "unList (CList l) = Some l"
| "unList _ = None"

definition copyInt :: "addr option \<Rightarrow> (store, addr option) go" where
  "copyInt = copyNew CInt unInt (\<lambda>_. 0) ret"

definition copyStr :: "addr option \<Rightarrow> (store, addr option) go" where
  "copyStr = copyNew CStr unStr (\<lambda>_. []) ret"

definition copyTime :: "addr option \<Rightarrow> (store, addr option) go" where
  "copyTime = copyNew CTime unTime (\<lambda>_. 0) ret"

text \<open>A map is copied entry by entry into a new one.\<close>

definition copyMap :: "addr option \<Rightarrow> (store, addr option) go" where
  "copyMap = copyNew CMap unMap (\<lambda>_. []) ret"

text \<open>\<open>if *in != nil { *out = make([]string, len(*in)); copy(*out, *in) }\<close>\<close>

definition copySlice :: "slice_ref option \<Rightarrow> (store, slice_ref option) go" where
  "copySlice sl = (case sl of
      None \<Rightarrow> ret None
    | Some r \<Rightarrow> andThen (newCell (CArr (replicate (sl_len r) []))) (\<lambda>a'. andThen (loadCell (sl_array r)) (\<lambda>c. case unArr c of
        None \<Rightarrow> raise BadAssertion
      | Some xs \<Rightarrow> andThen (assignCell a' (CArr (take (sl_len r) (drop (sl_off r) xs)))) (\<lambda>_.
          ret (Some \<lparr>sl_array = a', sl_off = 0, sl_len = sl_len r\<rparr>)))))"

definition meta_DeepCopyInto :: "MetaR \<Rightarrow> (store, MetaR) go" where
  "meta_DeepCopyInto m =
     andThen (copyTime (m_DeletionTimestamp m)) (\<lambda>t.
     andThen (copyMap (m_Annotations m)) (\<lambda>an.
     andThen (copySlice (m_Finalizers m)) (\<lambda>f.
     ret (m\<lparr>m_DeletionTimestamp := t, m_Annotations := an, m_Finalizers := f\<rparr>))))"

definition spec_DeepCopyInto :: "SpecR \<Rightarrow> (store, SpecR) go" where
  "spec_DeepCopyInto s =
     andThen (copyInt (s_IPVersion s)) (\<lambda>v.
     andThen (copyInt (s_PreAllocated s)) (\<lambda>p.
     andThen (copyInt (s_MinAvaliable s)) (\<lambda>m.
     andThen (copySlice (s_NamespaceName s)) (\<lambda>ns.
     andThen (copySlice (s_NodeName s)) (\<lambda>no.
     ret (s\<lparr>s_IPVersion := v, s_PreAllocated := p, s_MinAvaliable := m, s_NamespaceName := ns, s_NodeName := no\<rparr>))))))"

definition status_DeepCopyInto :: "StatusR \<Rightarrow> (store, StatusR) go" where
  "status_DeepCopyInto t =
     andThen (copyStr (t_SubnatName t)) (\<lambda>sn.
     andThen (copyStr (t_VpcName t)) (\<lambda>vn.
     andThen (copyStr (t_Gateway t)) (\<lambda>gw.
     andThen (copyStr (t_Cidr t)) (\<lambda>ci.
     andThen (copySlice (t_NamespaceName t)) (\<lambda>ns.
     andThen (copySlice (t_NodeName t)) (\<lambda>no.
     ret (t\<lparr>t_SubnatName := sn, t_VpcName := vn, t_Gateway := gw, t_Cidr := ci, t_NamespaceName := ns, t_NodeName := no\<rparr>)))))))"

definition subnet_DeepCopyInto :: "SubnetR \<Rightarrow> (store, SubnetR) go" where
  "subnet_DeepCopyInto u =
     andThen (meta_DeepCopyInto (u_Meta u)) (\<lambda>m.
     andThen (spec_DeepCopyInto (u_Spec u)) (\<lambda>s.
     andThen (status_DeepCopyInto (u_Status u)) (\<lambda>t.
     ret (u\<lparr>u_Meta := m, u_Spec := s, u_Status := t\<rparr>))))"

definition zeroMetaR :: MetaR where
  "zeroMetaR = \<lparr>m_Name = [], m_Annotations = None, m_Finalizers = None, m_DeletionTimestamp = None\<rparr>"

definition zeroSpecR :: SpecR where
  "zeroSpecR = \<lparr>s_IPVersion = None, s_Subnet = [], s_Vpc = [], s_Project = [], s_PreAllocated = None,
     s_MinAvaliable = None, s_NamespaceName = None, s_NodeName = None\<rparr>"

definition zeroStatusR :: StatusR where
  "zeroStatusR = \<lparr>t_SubnatName = None, t_VpcName = None, t_Gateway = None, t_Cidr = None, t_NamespaceName = None, t_NodeName = None\<rparr>"

definition zeroSubnetR :: SubnetR where
  "zeroSubnetR = \<lparr>u_Meta = zeroMetaR, u_Spec = zeroSpecR, u_Status = zeroStatusR\<rparr>"

text \<open>The copies that make a new struct; a nil receiver gives nil.\<close>

definition spec_DeepCopy :: "addr option \<Rightarrow> (store, addr option) go" where
  "spec_DeepCopy = copyNew CSpec unSpec (\<lambda>_. zeroSpecR) spec_DeepCopyInto"

definition status_DeepCopy :: "addr option \<Rightarrow> (store, addr option) go" where
  "status_DeepCopy = copyNew CStatus unStatus (\<lambda>_. zeroStatusR) status_DeepCopyInto"

definition subnet_DeepCopy :: "addr option \<Rightarrow> (store, addr option) go" where
  "subnet_DeepCopy = copyNew CSubnet unSubnet (\<lambda>_. zeroSubnetR) subnet_DeepCopyInto"

text \<open>\<open>for i := range *in { (*in)[i].DeepCopyInto(&(*out)[i]) }\<close>, one element after the other.\<close>

fun copyItems :: "SubnetR list \<Rightarrow> (store, SubnetR list) go" where
  "copyItems [] = ret []"
| "copyItems (u # us) = andThen (subnet_DeepCopyInto u) (\<lambda>u'. andThen (copyItems us) (\<lambda>us'. ret (u' # us')))"

definition list_DeepCopyInto :: "SubnetListR \<Rightarrow> (store, SubnetListR) go" where
  "list_DeepCopyInto l =
     andThen (copyInt (l_RemainingItemCount l)) (\<lambda>n.
     andThen (copyNew CSubnets unSubnets (\<lambda>us. replicate (length us) zeroSubnetR) copyItems (l_Items l)) (\<lambda>its.
     ret (l\<lparr>l_RemainingItemCount := n, l_Items := its\<rparr>)))"

definition list_DeepCopy :: "addr option \<Rightarrow> (store, addr option) go" where
  "list_DeepCopy = copyNew CList unList (\<lambda>_. \<lparr>l_RemainingItemCount = None, l_Items = None\<rparr>) list_DeepCopyInto"

text \<open>
  \<open>DeepCopyObject\<close>: the copy as a \<open>runtime.Object\<close>, an interface value, which is nil and not an interface
  that holds a nil pointer when there is nothing to copy.
\<close>

datatype object = SubnetObject addr | SubnetListObject addr

definition subnet_DeepCopyObject :: "addr option \<Rightarrow> (store, object option) go" where
  "subnet_DeepCopyObject inp = andThen (subnet_DeepCopy inp) (\<lambda>c. case c of Some a \<Rightarrow> ret (Some (SubnetObject a)) | None \<Rightarrow> ret None)"

definition list_DeepCopyObject :: "addr option \<Rightarrow> (store, object option) go" where
  "list_DeepCopyObject inp = andThen (list_DeepCopy inp) (\<lambda>c. case c of Some a \<Rightarrow> ret (Some (SubnetListObject a)) | None \<Rightarrow> ret None)"

section \<open>What a deep copy promises\<close>

definition store_ok :: "store \<Rightarrow> bool" where
  "store_ok \<sigma> \<longleftrightarrow> (\<forall>a. cells \<sigma> a \<noteq> None \<longrightarrow> a < limit \<sigma>)"

text \<open>Only new cells: the extension order on stores.\<close>

definition ext :: "store \<Rightarrow> store \<Rightarrow> bool" where
  "ext \<sigma> \<sigma>' \<longleftrightarrow> (\<forall>a. cells \<sigma> a \<noteq> None \<longrightarrow> cells \<sigma>' a = cells \<sigma> a) \<and> store_ok \<sigma>'"

lemma ext_refl [simp]: "store_ok \<sigma> \<Longrightarrow> ext \<sigma> \<sigma>"
  by (simp add: ext_def)

lemma ext_trans: "ext \<sigma> \<sigma>' \<Longrightarrow> ext \<sigma>' \<sigma>'' \<Longrightarrow> ext \<sigma> \<sigma>''"
  by (simp add: ext_def)

lemma ext_ok: "ext \<sigma> \<sigma>' \<Longrightarrow> store_ok \<sigma>'"
  by (simp add: ext_def)

lemma ext_dom: "ext \<sigma> \<sigma>' \<Longrightarrow> dom (cells \<sigma>) \<subseteq> dom (cells \<sigma>')"
  by (auto simp: ext_def dom_def)

text \<open>
  The contract: \<open>ok\<close> says that a value is well typed in a store, \<open>view\<close> what it denotes there, \<open>foot\<close> which
  cells it owns. All three depend on these cells only; the copy denotes the same in cells of its
  own, and changes no cell that was there.
\<close>

locale deep_copy =
  fixes copy :: "'a \<Rightarrow> (store, 'a) go"
    and ok :: "store \<Rightarrow> 'a \<Rightarrow> bool"
    and view :: "store \<Rightarrow> 'a \<Rightarrow> 'v"
    and foot :: "store \<Rightarrow> 'a \<Rightarrow> addr set"
  assumes ok_foot: "ok \<sigma> x \<Longrightarrow> foot \<sigma> x \<subseteq> dom (cells \<sigma>)"
    and locality: "ok \<sigma> x \<Longrightarrow> (\<And>a. a \<in> foot \<sigma> x \<Longrightarrow> cells \<sigma>' a = cells \<sigma> a) \<Longrightarrow>
       ok \<sigma>' x \<and> view \<sigma>' x = view \<sigma> x \<and> foot \<sigma>' x = foot \<sigma> x"
    and copies: "store_ok \<sigma> \<Longrightarrow> ok \<sigma> x \<Longrightarrow> \<exists>x' \<sigma>'. copy x \<sigma> = (Done x', \<sigma>') \<and> ext \<sigma> \<sigma>' \<and> ok \<sigma>' x' \<and>
       view \<sigma>' x' = view \<sigma> x \<and> foot \<sigma>' x' \<subseteq> dom (cells \<sigma>') - dom (cells \<sigma>)"
begin

lemma stable:
  assumes "ok \<sigma> x" and "ext \<sigma> \<sigma>'"
  shows "ok \<sigma>' x" and "view \<sigma>' x = view \<sigma> x" and "foot \<sigma>' x = foot \<sigma> x"
proof -
  have "cells \<sigma>' a = cells \<sigma> a" if "a \<in> foot \<sigma> x" for a
    using that ok_foot [OF assms(1)] assms(2) by (auto simp: ext_def)
  from locality [OF assms(1) this] show "ok \<sigma>' x" "view \<sigma>' x = view \<sigma> x" "foot \<sigma>' x = foot \<sigma> x" by simp_all
qed

lemma run:
  assumes "store_ok \<sigma>" and "ok \<sigma> x" and "copy x \<sigma> = (Done x', \<sigma>')"
  shows "ext \<sigma> \<sigma>'" and "store_ok \<sigma>'" and "ok \<sigma>' x'" and "view \<sigma>' x' = view \<sigma> x"
    and "foot \<sigma>' x' \<subseteq> dom (cells \<sigma>')" and "foot \<sigma>' x' \<inter> dom (cells \<sigma>) = {}"
  using copies [OF assms(1,2)] assms(3) ext_ok by auto

text \<open>Whatever is written into the cells of one of them, the other still denotes the same.\<close>

lemma independent:
  assumes "store_ok \<sigma>" and "ok \<sigma> x" and "copy x \<sigma> = (Done x', \<sigma>')"
  shows "(\<forall>a. cells \<sigma>'' a \<noteq> cells \<sigma>' a \<longrightarrow> a \<in> foot \<sigma>' x') \<Longrightarrow> ok \<sigma>'' x \<and> view \<sigma>'' x = view \<sigma> x"
    and "(\<forall>a. cells \<sigma>'' a \<noteq> cells \<sigma>' a \<longrightarrow> a \<in> foot \<sigma> x) \<Longrightarrow> ok \<sigma>'' x' \<and> view \<sigma>'' x' = view \<sigma> x"
proof -
  note c = run [OF assms]
  note s = stable [OF assms(2) c(1)]
  have dj: "foot \<sigma> x \<inter> foot \<sigma>' x' = {}" using ok_foot [OF assms(2)] c(6) by blast
  show "ok \<sigma>'' x \<and> view \<sigma>'' x = view \<sigma> x" if w: "\<forall>a. cells \<sigma>'' a \<noteq> cells \<sigma>' a \<longrightarrow> a \<in> foot \<sigma>' x'"
  proof -
    have "cells \<sigma>'' a = cells \<sigma>' a" if "a \<in> foot \<sigma>' x" for a using that dj w s(3) by blast
    from locality [OF s(1) this] s(2) show ?thesis by simp
  qed
  show "ok \<sigma>'' x' \<and> view \<sigma>'' x' = view \<sigma> x" if w: "\<forall>a. cells \<sigma>'' a \<noteq> cells \<sigma>' a \<longrightarrow> a \<in> foot \<sigma> x"
  proof -
    have "cells \<sigma>'' a = cells \<sigma>' a" if "a \<in> foot \<sigma>' x'" for a using that dj w by blast
    from locality [OF c(3) this] c(4) show ?thesis by simp
  qed
qed

end

section \<open>How copies are put together\<close>

text \<open>A value without pointers.\<close>

lemma deep_copy_plain: "deep_copy ret (\<lambda>_ _. True) (\<lambda>_ x. x) (\<lambda>_ _. {})"
  by (rule deep_copy.intro) auto

text \<open>One copy after the other.\<close>

definition copyPair :: "('a \<Rightarrow> (store, 'a) go) \<Rightarrow> ('b \<Rightarrow> (store, 'b) go) \<Rightarrow> 'a \<times> 'b \<Rightarrow> (store, 'a \<times> 'b) go" where
  "copyPair f g = (\<lambda>(x, y). andThen (f x) (\<lambda>x'. andThen (g y) (\<lambda>y'. ret (x', y'))))"

lemma deep_copy_pair:
  assumes f: "deep_copy f okf vf ff" and g: "deep_copy g okg vg fg"
  shows "deep_copy (copyPair f g) (\<lambda>\<sigma> (x, y). okf \<sigma> x \<and> okg \<sigma> y) (\<lambda>\<sigma> (x, y). (vf \<sigma> x, vg \<sigma> y))
    (\<lambda>\<sigma> (x, y). ff \<sigma> x \<union> fg \<sigma> y)"
proof (rule deep_copy.intro, goal_cases)
  case (1 \<sigma> p)
  then show ?case using deep_copy.ok_foot [OF f] deep_copy.ok_foot [OF g] by (cases p) auto
next
  case (2 \<sigma> p \<sigma>')
  obtain x y where p: "p = (x, y)" by (cases p)
  with 2 have "\<And>a. a \<in> ff \<sigma> x \<Longrightarrow> cells \<sigma>' a = cells \<sigma> a" "\<And>a. a \<in> fg \<sigma> y \<Longrightarrow> cells \<sigma>' a = cells \<sigma> a" by auto
  with 2(1) p deep_copy.locality [OF f, of \<sigma> x \<sigma>'] deep_copy.locality [OF g, of \<sigma> y \<sigma>'] show ?case by simp
next
  case (3 \<sigma> p)
  obtain x y where p: "p = (x, y)" by (cases p)
  with 3 have ok: "okf \<sigma> x" "okg \<sigma> y" by simp_all
  obtain x' \<sigma>1 where x: "f x \<sigma> = (Done x', \<sigma>1)" "ext \<sigma> \<sigma>1" "okf \<sigma>1 x'" "vf \<sigma>1 x' = vf \<sigma> x"
    "ff \<sigma>1 x' \<subseteq> dom (cells \<sigma>1) - dom (cells \<sigma>)" using deep_copy.copies [OF f 3(1) ok(1)] by blast
  note y0 = deep_copy.stable [OF g ok(2) x(2)]
  obtain y' \<sigma>2 where y: "g y \<sigma>1 = (Done y', \<sigma>2)" "ext \<sigma>1 \<sigma>2" "okg \<sigma>2 y'" "vg \<sigma>2 y' = vg \<sigma>1 y"
    "fg \<sigma>2 y' \<subseteq> dom (cells \<sigma>2) - dom (cells \<sigma>1)" using deep_copy.copies [OF g ext_ok [OF x(2)] y0(1)] by blast
  note x0 = deep_copy.stable [OF f x(3) y(2)]
  have "copyPair f g p \<sigma> = (Done (x', y'), \<sigma>2)" using p x(1) y(1) by (simp add: copyPair_def)
  moreover have "ff \<sigma>2 x' \<union> fg \<sigma>2 y' \<subseteq> dom (cells \<sigma>2) - dom (cells \<sigma>)"
    using x(5) y(5) x0(3) ext_dom [OF x(2)] ext_dom [OF y(2)] by blast
  ultimately show ?case using p y(3,4) y0(2) x0(1,2) x(4) ext_trans [OF x(2) y(2)] by auto
qed

text \<open>A struct, through the tuple of its fields.\<close>

lemma deep_copy_struct:
  assumes c: "deep_copy c ok v ft" and proj: "\<And>t s. proj (upd t s) = t" and V: "\<And>t s w. V (upd t s) w = V s w"
    and cp: "\<And>s. copy s = andThen (c (proj s)) (\<lambda>t. ret (upd t s))"
  shows "deep_copy copy (\<lambda>\<sigma> s. ok \<sigma> (proj s)) (\<lambda>\<sigma> s. V s (v \<sigma> (proj s))) (\<lambda>\<sigma> s. ft \<sigma> (proj s))"
proof (rule deep_copy.intro, goal_cases)
  case (1 \<sigma> s)
  then show ?case by (rule deep_copy.ok_foot [OF c])
next
  case (2 \<sigma> s \<sigma>')
  then show ?case using deep_copy.locality [OF c, of \<sigma> "proj s" \<sigma>'] by simp
next
  case (3 \<sigma> s)
  from deep_copy.copies [OF c 3] obtain t \<sigma>' where "c (proj s) \<sigma> = (Done t, \<sigma>')" "ext \<sigma> \<sigma>'" "ok \<sigma>' t"
    "v \<sigma>' t = v \<sigma> (proj s)" "ft \<sigma>' t \<subseteq> dom (cells \<sigma>') - dom (cells \<sigma>)" by blast
  then show ?case by (intro exI [of _ "upd t s"] exI [of _ \<sigma>']) (simp add: cp proj V)
qed

text \<open>A pointer to a cell that holds the value.\<close>

definition ptr_val :: "(cell \<Rightarrow> 'a option) \<Rightarrow> store \<Rightarrow> addr option \<Rightarrow> 'a option" where
  "ptr_val un \<sigma> p = Option.bind (Option.bind p (cells \<sigma>)) un"

definition ptr_ok :: "(cell \<Rightarrow> 'a option) \<Rightarrow> (store \<Rightarrow> 'a \<Rightarrow> bool) \<Rightarrow> store \<Rightarrow> addr option \<Rightarrow> bool" where
  "ptr_ok un ok \<sigma> p \<longleftrightarrow> p = None \<or> (case ptr_val un \<sigma> p of None \<Rightarrow> False | Some x \<Rightarrow> ok \<sigma> x)"

definition ptr_view :: "(cell \<Rightarrow> 'a option) \<Rightarrow> (store \<Rightarrow> 'a \<Rightarrow> 'v) \<Rightarrow> store \<Rightarrow> addr option \<Rightarrow> 'v option" where
  "ptr_view un v \<sigma> p = map_option (v \<sigma>) (ptr_val un \<sigma> p)"

definition ptr_foot :: "(cell \<Rightarrow> 'a option) \<Rightarrow> (store \<Rightarrow> 'a \<Rightarrow> addr set) \<Rightarrow> store \<Rightarrow> addr option \<Rightarrow> addr set" where
  "ptr_foot un ft \<sigma> p = set_option p \<union> (case ptr_val un \<sigma> p of None \<Rightarrow> {} | Some x \<Rightarrow> ft \<sigma> x)"

lemma ptr_okE:
  assumes "ptr_ok un ok \<sigma> (Some a)"
  obtains c x where "cells \<sigma> a = Some c" and "un c = Some x" and "ok \<sigma> x"
  using assms by (cases "cells \<sigma> a") (auto simp: ptr_ok_def ptr_val_def split: option.splits)

text \<open>How the copy of a cell runs: the contents are copied after the new cell has been taken.\<close>

lemma copyNew_run:
  assumes c: "deep_copy into ok v ft" and st: "store_ok \<sigma>" and x: "cells \<sigma> a = Some e" "un e = Some x" "ok \<sigma> x"
  obtains x' \<sigma>2 where
    "copyNew K un z into (Some a) \<sigma> = (Done (Some (limit \<sigma>)), \<sigma>2\<lparr>cells := (cells \<sigma>2)(limit \<sigma> \<mapsto> K x')\<rparr>)"
    and "ext \<sigma> (\<sigma>2\<lparr>cells := (cells \<sigma>2)(limit \<sigma> \<mapsto> K x')\<rparr>)" and "ok \<sigma>2 x'" and "v \<sigma>2 x' = v \<sigma> x"
    and "ft \<sigma>2 x' \<subseteq> dom (cells \<sigma>2) - insert (limit \<sigma>) (dom (cells \<sigma>))"
    and "\<exists>\<sigma>1. store_ok \<sigma>1 \<and> ok \<sigma>1 x \<and> into x \<sigma>1 = (Done x', \<sigma>2)"
proof -
  let ?out = "limit \<sigma>" and ?\<sigma>1 = "\<sigma>\<lparr>cells := (cells \<sigma>)(limit \<sigma> \<mapsto> K (z x)), limit := Suc (limit \<sigma>)\<rparr>"
  have fresh: "cells \<sigma> ?out = None" using st by (auto simp: store_ok_def)
  have e1: "ext \<sigma> ?\<sigma>1" using st fresh by (auto simp: ext_def store_ok_def less_Suc_eq)
  note x1 = deep_copy.stable [OF c x(3) e1]
  obtain x' \<sigma>2 where x': "into x ?\<sigma>1 = (Done x', \<sigma>2)" "ext ?\<sigma>1 \<sigma>2" "ok \<sigma>2 x'" "v \<sigma>2 x' = v ?\<sigma>1 x"
    "ft \<sigma>2 x' \<subseteq> dom (cells \<sigma>2) - dom (cells ?\<sigma>1)"
    using deep_copy.copies [OF c ext_ok [OF e1] x1(1)] by blast
  have o2: "cells \<sigma>2 ?out \<noteq> None" using x'(2) by (simp add: ext_def)
  have "copyNew K un z into (Some a) \<sigma> = (Done (Some ?out), \<sigma>2\<lparr>cells := (cells \<sigma>2)(?out \<mapsto> K x')\<rparr>)"
    using x x'(1) by (simp add: copyNew_def loadCell_def newCell_def assignCell_def)
  moreover have "ext \<sigma> (\<sigma>2\<lparr>cells := (cells \<sigma>2)(?out \<mapsto> K x')\<rparr>)"
    using ext_trans [OF e1 x'(2)] o2 fresh by (auto simp: ext_def store_ok_def)
  ultimately show thesis using x' x1(1,2) ext_ok [OF e1] that by auto
qed

lemma deep_copy_new:
  assumes c: "deep_copy into ok v ft" and un: "\<And>x. un (K x) = Some x"
  shows "deep_copy (copyNew K un z into) (ptr_ok un ok) (ptr_view un v) (ptr_foot un ft)"
proof (rule deep_copy.intro, goal_cases)
  case (1 \<sigma> p)
  show ?case
  proof (cases p)
    case (Some a)
    with 1 obtain c x where "cells \<sigma> a = Some c" "un c = Some x" "ok \<sigma> x" by (auto elim: ptr_okE)
    with Some deep_copy.ok_foot [OF c, of \<sigma> x] show ?thesis by (auto simp: ptr_foot_def ptr_val_def un)
  qed (simp add: ptr_foot_def ptr_val_def)
next
  case (2 \<sigma> p \<sigma>')
  show ?case
  proof (cases p)
    case (Some a)
    with 2(1) obtain c x where x: "cells \<sigma> a = Some c" "un c = Some x" "ok \<sigma> x" by (auto elim: ptr_okE)
    with 2(2) Some have "cells \<sigma>' a = Some c" "\<And>b. b \<in> ft \<sigma> x \<Longrightarrow> cells \<sigma>' b = cells \<sigma> b"
      by (auto simp: ptr_foot_def ptr_val_def un)
    with x Some deep_copy.locality [OF c x(3), of \<sigma>'] show ?thesis
      by (simp add: ptr_ok_def ptr_view_def ptr_foot_def ptr_val_def un)
  qed (simp add: ptr_ok_def ptr_view_def ptr_foot_def ptr_val_def)
next
  case (3 \<sigma> p)
  show ?case
  proof (cases p)
    case None
    with 3 show ?thesis by (simp add: copyNew_def ptr_ok_def ptr_view_def ptr_foot_def ptr_val_def)
  next
    case (Some a)
    with 3(2) obtain e x where x: "cells \<sigma> a = Some e" "un e = Some x" "ok \<sigma> x" by (auto elim: ptr_okE)
    obtain x' \<sigma>2 where run: "copyNew K un z into p \<sigma> = (Done (Some (limit \<sigma>)), \<sigma>2\<lparr>cells := (cells \<sigma>2)(limit \<sigma> \<mapsto> K x')\<rparr>)"
      and e3: "ext \<sigma> (\<sigma>2\<lparr>cells := (cells \<sigma>2)(limit \<sigma> \<mapsto> K x')\<rparr>)" and x': "ok \<sigma>2 x'" "v \<sigma>2 x' = v \<sigma> x"
        "ft \<sigma>2 x' \<subseteq> dom (cells \<sigma>2) - insert (limit \<sigma>) (dom (cells \<sigma>))"
      using copyNew_run [where K = K and un = un and z = z, OF c 3(1) x] Some by metis
    let ?\<sigma>3 = "\<sigma>2\<lparr>cells := (cells \<sigma>2)(limit \<sigma> \<mapsto> K x')\<rparr>"
    have fresh: "cells \<sigma> (limit \<sigma>) = None" using 3(1) by (auto simp: store_ok_def)
    have "\<And>b. b \<in> ft \<sigma>2 x' \<Longrightarrow> cells ?\<sigma>3 b = cells \<sigma>2 b" using x'(3) by auto
    note x3 = deep_copy.locality [OF c x'(1) this]
    have "ptr_ok un ok ?\<sigma>3 (Some (limit \<sigma>))" using x3 by (simp add: ptr_ok_def ptr_val_def un)
    moreover have "ptr_view un v ?\<sigma>3 (Some (limit \<sigma>)) = ptr_view un v \<sigma> p"
      using x3 x'(2) Some x(1,2) by (simp add: ptr_view_def ptr_val_def un)
    moreover have "ptr_foot un ft ?\<sigma>3 (Some (limit \<sigma>)) \<subseteq> dom (cells ?\<sigma>3) - dom (cells \<sigma>)"
      using x3 x'(3) fresh by (auto simp: ptr_foot_def ptr_val_def un)
    ultimately show ?thesis using run e3 by blast
  qed
qed

text \<open>A slice of strings: the copy has an array of exactly its length.\<close>

definition window :: "slice_ref \<Rightarrow> string list \<Rightarrow> string list" where
  "window r xs = take (sl_len r) (drop (sl_off r) xs)"

definition slice_arr :: "store \<Rightarrow> slice_ref \<Rightarrow> string list option" where
  "slice_arr \<sigma> r = ptr_val unArr \<sigma> (Some (sl_array r))"

definition slice_ok :: "store \<Rightarrow> slice_ref option \<Rightarrow> bool" where
  "slice_ok \<sigma> sl \<longleftrightarrow> (case sl of None \<Rightarrow> True
     | Some r \<Rightarrow> (case slice_arr \<sigma> r of None \<Rightarrow> False | Some xs \<Rightarrow> sl_off r + sl_len r \<le> length xs))"

definition slice_view :: "store \<Rightarrow> slice_ref option \<Rightarrow> slice" where
  "slice_view \<sigma> sl = Option.bind sl (\<lambda>r. map_option (window r) (slice_arr \<sigma> r))"

definition slice_foot :: "store \<Rightarrow> slice_ref option \<Rightarrow> addr set" where
  "slice_foot \<sigma> sl = sl_array ` set_option sl"

lemma unArr_eq: "unArr c = Some xs \<longleftrightarrow> c = CArr xs"
  by (cases c) auto

lemma slice_okE:
  assumes "slice_ok \<sigma> (Some r)"
  obtains xs where "cells \<sigma> (sl_array r) = Some (CArr xs)" and "sl_off r + sl_len r \<le> length xs"
  using assms by (auto simp: slice_ok_def slice_arr_def ptr_val_def unArr_eq split: option.splits bind_splits)

lemmas slice_simps = slice_ok_def slice_view_def slice_foot_def slice_arr_def ptr_val_def window_def

interpretation slc: deep_copy copySlice slice_ok slice_view slice_foot
proof
  fix \<sigma> sl assume "slice_ok \<sigma> sl"
  then show "slice_foot \<sigma> sl \<subseteq> dom (cells \<sigma>)" by (cases sl) (auto simp: slice_foot_def elim: slice_okE)
next
  fix \<sigma> \<sigma>' :: store and sl assume "slice_ok \<sigma> sl" "\<And>a. a \<in> slice_foot \<sigma> sl \<Longrightarrow> cells \<sigma>' a = cells \<sigma> a"
  then show "slice_ok \<sigma>' sl \<and> slice_view \<sigma>' sl = slice_view \<sigma> sl \<and> slice_foot \<sigma>' sl = slice_foot \<sigma> sl"
    by (cases sl) (auto simp: slice_simps)
next
  fix \<sigma> sl assume st: "store_ok \<sigma>" and ok: "slice_ok \<sigma> sl"
  show "\<exists>sl' \<sigma>'. copySlice sl \<sigma> = (Done sl', \<sigma>') \<and> ext \<sigma> \<sigma>' \<and> slice_ok \<sigma>' sl' \<and>
     slice_view \<sigma>' sl' = slice_view \<sigma> sl \<and> slice_foot \<sigma>' sl' \<subseteq> dom (cells \<sigma>') - dom (cells \<sigma>)"
  proof (cases sl)
    case None
    with st show ?thesis by (simp add: copySlice_def slice_simps)
  next
    case (Some r)
    with ok obtain xs where xs: "cells \<sigma> (sl_array r) = Some (CArr xs)" "sl_off r + sl_len r \<le> length xs"
      by (auto elim: slice_okE)
    let ?out = "limit \<sigma>"
    have fresh: "cells \<sigma> ?out = None" using st by (auto simp: store_ok_def)
    then have ne: "sl_array r \<noteq> ?out" using xs(1) by auto
    let ?\<sigma>' = "\<sigma>\<lparr>cells := (cells \<sigma>)(?out \<mapsto> CArr (window r xs)), limit := Suc ?out\<rparr>"
    let ?sl' = "Some \<lparr>sl_array = ?out, sl_off = 0, sl_len = sl_len r\<rparr>"
    have "copySlice sl \<sigma> = (Done ?sl', ?\<sigma>')"
      using Some xs(1) ne by (simp add: copySlice_def newCell_def loadCell_def assignCell_def window_def)
    moreover have "ext \<sigma> ?\<sigma>'" using st fresh by (auto simp: ext_def store_ok_def less_Suc_eq)
    moreover have "slice_ok ?\<sigma>' ?sl'" "slice_view ?\<sigma>' ?sl' = slice_view \<sigma> sl"
      using Some xs by (auto simp: slice_simps)
    moreover have "slice_foot ?\<sigma>' ?sl' \<subseteq> dom (cells ?\<sigma>') - dom (cells \<sigma>)" using fresh by (auto simp: slice_foot_def)
    ultimately show ?thesis by blast
  qed
qed

text \<open>The elements of an array, one after the other.\<close>

lemma deep_copy_list:
  assumes c: "deep_copy c ok v ft" and cp: "\<And>x xs. cs (x # xs) = andThen (c x) (\<lambda>x'. andThen (cs xs) (\<lambda>xs'. ret (x' # xs')))"
    and nil: "cs [] = ret []"
  shows "deep_copy cs (\<lambda>\<sigma>. list_all (ok \<sigma>)) (\<lambda>\<sigma>. map (v \<sigma>)) (\<lambda>\<sigma> xs. \<Union> (ft \<sigma> ` set xs))"
proof (rule deep_copy.intro, goal_cases)
  case (1 \<sigma> xs)
  then show ?case using deep_copy.ok_foot [OF c] by (fastforce simp: list_all_iff)
next
  case (2 \<sigma> xs \<sigma>')
  then have "ok \<sigma>' x \<and> v \<sigma>' x = v \<sigma> x \<and> ft \<sigma>' x = ft \<sigma> x" if "x \<in> set xs" for x
    using that deep_copy.locality [OF c, of \<sigma> x \<sigma>'] by (auto simp: list_all_iff)
  then show ?case by (auto simp: list_all_iff)
next
  case (3 \<sigma> xs)
  then show ?case
  proof (induction xs arbitrary: \<sigma>)
    case Nil
    then show ?case by (simp add: nil)
  next
    case (Cons x xs)
    obtain x' \<sigma>1 where x: "c x \<sigma> = (Done x', \<sigma>1)" "ext \<sigma> \<sigma>1" "ok \<sigma>1 x'" "v \<sigma>1 x' = v \<sigma> x"
      "ft \<sigma>1 x' \<subseteq> dom (cells \<sigma>1) - dom (cells \<sigma>)" using deep_copy.copies [OF c Cons.prems(1), of x] Cons.prems(2) by auto
    have s: "ok \<sigma>1 y \<and> v \<sigma>1 y = v \<sigma> y" if "y \<in> set xs" for y
      using deep_copy.stable [OF c _ x(2), of y] that Cons.prems(2) by (auto simp: list_all_iff)
    then have "list_all (ok \<sigma>1) xs" "map (v \<sigma>1) xs = map (v \<sigma>) xs" by (auto simp: list_all_iff)
    with Cons.IH [OF ext_ok [OF x(2)]] obtain xs' \<sigma>2 where xs: "cs xs \<sigma>1 = (Done xs', \<sigma>2)" "ext \<sigma>1 \<sigma>2"
      "list_all (ok \<sigma>2) xs'" "map (v \<sigma>2) xs' = map (v \<sigma>) xs"
      "\<Union> (ft \<sigma>2 ` set xs') \<subseteq> dom (cells \<sigma>2) - dom (cells \<sigma>1)" by auto
    note x2 = deep_copy.stable [OF c x(3) xs(2)]
    have "ft \<sigma>2 x' \<subseteq> dom (cells \<sigma>2) - dom (cells \<sigma>)" unfolding x2(3) using x(5) ext_dom [OF xs(2)] by blast
    moreover have "\<Union> (ft \<sigma>2 ` set xs') \<subseteq> dom (cells \<sigma>2) - dom (cells \<sigma>)" using xs(5) ext_dom [OF x(2)] by blast
    ultimately have "\<Union> (ft \<sigma>2 ` set (x' # xs')) \<subseteq> dom (cells \<sigma>2) - dom (cells \<sigma>)" by simp
    with x xs x2 show ?case
      by (intro exI [of _ "x' # xs'"] exI [of _ \<sigma>2]) (simp add: cp ext_trans [OF x(2) xs(2)])
  qed
qed

section \<open>The types of the custom resource\<close>

abbreviation plain_ok :: "(cell \<Rightarrow> 'a option) \<Rightarrow> store \<Rightarrow> addr option \<Rightarrow> bool" where
  "plain_ok un \<equiv> ptr_ok un (\<lambda>_ _. True)"

abbreviation plain_view :: "(cell \<Rightarrow> 'a option) \<Rightarrow> store \<Rightarrow> addr option \<Rightarrow> 'a option" where
  "plain_view un \<equiv> ptr_view un (\<lambda>_ x. x)"

abbreviation plain_foot :: "(cell \<Rightarrow> 'a option) \<Rightarrow> store \<Rightarrow> addr option \<Rightarrow> addr set" where
  "plain_foot un \<equiv> ptr_foot un (\<lambda>_ _. {})"

lemma deep_copyInt: "deep_copy copyInt (plain_ok unInt) (plain_view unInt) (plain_foot unInt)"
  unfolding copyInt_def by (rule deep_copy_new [OF deep_copy_plain]) simp

lemma deep_copyStr: "deep_copy copyStr (plain_ok unStr) (plain_view unStr) (plain_foot unStr)"
  unfolding copyStr_def by (rule deep_copy_new [OF deep_copy_plain]) simp

lemma deep_copyTime: "deep_copy copyTime (plain_ok unTime) (plain_view unTime) (plain_foot unTime)"
  unfolding copyTime_def by (rule deep_copy_new [OF deep_copy_plain]) simp

lemma deep_copyMap: "deep_copy copyMap (plain_ok unMap) (plain_view unMap) (plain_foot unMap)"
  unfolding copyMap_def by (rule deep_copy_new [OF deep_copy_plain]) simp

lemmas deep_copySlice = slc.deep_copy_axioms

lemma plain_foot_eq [simp]: "plain_foot un \<sigma> p = set_option p"
  by (simp add: ptr_foot_def split: option.split)

text \<open>Well-typedness, denotation and footprint of the structs.\<close>

definition meta_ok :: "store \<Rightarrow> MetaR \<Rightarrow> bool" where
  "meta_ok \<sigma> m \<longleftrightarrow> plain_ok unTime \<sigma> (m_DeletionTimestamp m) \<and> plain_ok unMap \<sigma> (m_Annotations m) \<and> slice_ok \<sigma> (m_Finalizers m)"

definition meta_of :: "store \<Rightarrow> MetaR \<Rightarrow> ObjectMeta" where
  "meta_of \<sigma> m = \<lparr>metaName = m_Name m, Annotations = (case plain_view unMap \<sigma> (m_Annotations m) of None \<Rightarrow> [] | Some an \<Rightarrow> an),
     Finalizers = elems (slice_view \<sigma> (m_Finalizers m)), DeletionTimestamp = plain_view unTime \<sigma> (m_DeletionTimestamp m)\<rparr>"

definition meta_foot :: "store \<Rightarrow> MetaR \<Rightarrow> addr set" where
  "meta_foot \<sigma> m = plain_foot unTime \<sigma> (m_DeletionTimestamp m) \<union> (plain_foot unMap \<sigma> (m_Annotations m) \<union> slice_foot \<sigma> (m_Finalizers m))"

definition spec_ok :: "store \<Rightarrow> SpecR \<Rightarrow> bool" where
  "spec_ok \<sigma> s \<longleftrightarrow> plain_ok unInt \<sigma> (s_IPVersion s) \<and> plain_ok unInt \<sigma> (s_PreAllocated s) \<and> plain_ok unInt \<sigma> (s_MinAvaliable s) \<and>
     slice_ok \<sigma> (s_NamespaceName s) \<and> slice_ok \<sigma> (s_NodeName s)"

definition spec_of :: "store \<Rightarrow> SpecR \<Rightarrow> SubnetSpec" where
  "spec_of \<sigma> s = \<lparr>IPVersion = plain_view unInt \<sigma> (s_IPVersion s), Subnet = s_Subnet s, Vpc = s_Vpc s, Project = s_Project s,
     PreAllocated = plain_view unInt \<sigma> (s_PreAllocated s), MinAvaliable = plain_view unInt \<sigma> (s_MinAvaliable s),
     NamespaceName = slice_view \<sigma> (s_NamespaceName s), NodeName = slice_view \<sigma> (s_NodeName s)\<rparr>"

definition spec_foot :: "store \<Rightarrow> SpecR \<Rightarrow> addr set" where
  "spec_foot \<sigma> s = plain_foot unInt \<sigma> (s_IPVersion s) \<union> (plain_foot unInt \<sigma> (s_PreAllocated s) \<union>
     (plain_foot unInt \<sigma> (s_MinAvaliable s) \<union> (slice_foot \<sigma> (s_NamespaceName s) \<union> slice_foot \<sigma> (s_NodeName s))))"

definition status_ok :: "store \<Rightarrow> StatusR \<Rightarrow> bool" where
  "status_ok \<sigma> t \<longleftrightarrow> plain_ok unStr \<sigma> (t_SubnatName t) \<and> plain_ok unStr \<sigma> (t_VpcName t) \<and> plain_ok unStr \<sigma> (t_Gateway t) \<and>
     plain_ok unStr \<sigma> (t_Cidr t) \<and> slice_ok \<sigma> (t_NamespaceName t) \<and> slice_ok \<sigma> (t_NodeName t)"

definition status_of :: "store \<Rightarrow> StatusR \<Rightarrow> SubnetStatus" where
  "status_of \<sigma> t = \<lparr>SubnatName = plain_view unStr \<sigma> (t_SubnatName t), VpcName = plain_view unStr \<sigma> (t_VpcName t),
     Gateway = plain_view unStr \<sigma> (t_Gateway t), Cidr = plain_view unStr \<sigma> (t_Cidr t),
     st_NamespaceName = slice_view \<sigma> (t_NamespaceName t), st_NodeName = slice_view \<sigma> (t_NodeName t)\<rparr>"

definition status_foot :: "store \<Rightarrow> StatusR \<Rightarrow> addr set" where
  "status_foot \<sigma> t = plain_foot unStr \<sigma> (t_SubnatName t) \<union> (plain_foot unStr \<sigma> (t_VpcName t) \<union> (plain_foot unStr \<sigma> (t_Gateway t) \<union>
     (plain_foot unStr \<sigma> (t_Cidr t) \<union> (slice_foot \<sigma> (t_NamespaceName t) \<union> slice_foot \<sigma> (t_NodeName t)))))"

definition struct_ok :: "store \<Rightarrow> SubnetR \<Rightarrow> bool" where
  "struct_ok \<sigma> u \<longleftrightarrow> meta_ok \<sigma> (u_Meta u) \<and> spec_ok \<sigma> (u_Spec u) \<and> status_ok \<sigma> (u_Status u)"

definition struct_of :: "store \<Rightarrow> SubnetR \<Rightarrow> SubnetObj" where
  "struct_of \<sigma> u = \<lparr>sn_meta = meta_of \<sigma> (u_Meta u), sn_spec = spec_of \<sigma> (u_Spec u), sn_status = status_of \<sigma> (u_Status u)\<rparr>"

definition struct_foot :: "store \<Rightarrow> SubnetR \<Rightarrow> addr set" where
  "struct_foot \<sigma> u = meta_foot \<sigma> (u_Meta u) \<union> (spec_foot \<sigma> (u_Spec u) \<union> status_foot \<sigma> (u_Status u))"

lemma deep_copy_meta: "deep_copy meta_DeepCopyInto meta_ok meta_of meta_foot"
proof -
  let ?proj = "\<lambda>m. (m_DeletionTimestamp m, m_Annotations m, m_Finalizers m)"
  let ?upd = "\<lambda>(t, an, f) m. m\<lparr>m_DeletionTimestamp := t, m_Annotations := an, m_Finalizers := f\<rparr>"
  let ?V = "\<lambda>m (t, an, f). \<lparr>metaName = m_Name m, Annotations = (case an of None \<Rightarrow> [] | Some x \<Rightarrow> x), Finalizers = elems f, DeletionTimestamp = t\<rparr>"
  note d = deep_copy_pair [OF deep_copyTime deep_copy_pair [OF deep_copyMap deep_copySlice]]
  have p: "?proj (?upd t m) = t" "?V (?upd t m) w = ?V m w" for t m w by (simp_all split: prod.splits)
  have c: "meta_DeepCopyInto m = andThen (copyPair copyTime (copyPair copyMap copySlice) (?proj m)) (\<lambda>t. ret (?upd t m))" for m
    by (simp add: meta_DeepCopyInto_def copyPair_def andThen_assoc) (simp add: ret_def)
  show ?thesis
    using deep_copy_struct [OF d, where proj = ?proj and upd = ?upd and V = ?V and copy = meta_DeepCopyInto, OF p c]
    by (simp add: meta_ok_def [abs_def] meta_of_def [abs_def] meta_foot_def [abs_def])
qed

lemma deep_copy_spec: "deep_copy spec_DeepCopyInto spec_ok spec_of spec_foot"
proof -
  let ?proj = "\<lambda>s. (s_IPVersion s, s_PreAllocated s, s_MinAvaliable s, s_NamespaceName s, s_NodeName s)"
  let ?upd = "\<lambda>(v, p, m, ns, no) s. s\<lparr>s_IPVersion := v, s_PreAllocated := p, s_MinAvaliable := m, s_NamespaceName := ns, s_NodeName := no\<rparr>"
  let ?V = "\<lambda>s (v, p, m, ns, no). \<lparr>IPVersion = v, Subnet = s_Subnet s, Vpc = s_Vpc s, Project = s_Project s,
     PreAllocated = p, MinAvaliable = m, NamespaceName = ns, NodeName = no\<rparr>"
  note d = deep_copy_pair [OF deep_copyInt deep_copy_pair [OF deep_copyInt deep_copy_pair [OF deep_copyInt
    deep_copy_pair [OF deep_copySlice deep_copySlice]]]]
  have p: "?proj (?upd t m) = t" "?V (?upd t m) w = ?V m w" for t m w by (simp_all split: prod.splits)
  have c: "spec_DeepCopyInto s = andThen (copyPair copyInt (copyPair copyInt (copyPair copyInt (copyPair copySlice copySlice)))
      (?proj s)) (\<lambda>t. ret (?upd t s))" for s
    by (simp add: spec_DeepCopyInto_def copyPair_def andThen_assoc) (simp add: ret_def)
  show ?thesis
    using deep_copy_struct [OF d, where proj = ?proj and upd = ?upd and V = ?V and copy = spec_DeepCopyInto, OF p c]
    by (simp add: spec_ok_def [abs_def] spec_of_def [abs_def] spec_foot_def [abs_def])
qed

lemma deep_copy_status: "deep_copy status_DeepCopyInto status_ok status_of status_foot"
proof -
  let ?proj = "\<lambda>s. (t_SubnatName s, t_VpcName s, t_Gateway s, t_Cidr s, t_NamespaceName s, t_NodeName s)"
  let ?upd = "\<lambda>(sn, vn, gw, ci, ns, no) s. s\<lparr>t_SubnatName := sn, t_VpcName := vn, t_Gateway := gw, t_Cidr := ci, t_NamespaceName := ns, t_NodeName := no\<rparr>"
  let ?V = "\<lambda>s :: StatusR. \<lambda>(sn, vn, gw, ci, ns, no). \<lparr>SubnatName = sn, VpcName = vn, Gateway = gw, Cidr = ci, st_NamespaceName = ns, st_NodeName = no\<rparr>"
  note d = deep_copy_pair [OF deep_copyStr deep_copy_pair [OF deep_copyStr deep_copy_pair [OF deep_copyStr
    deep_copy_pair [OF deep_copyStr deep_copy_pair [OF deep_copySlice deep_copySlice]]]]]
  have p: "?proj (?upd t m) = t" "?V (?upd t m) w = ?V m w" for t m w by (simp_all split: prod.splits)
  have c: "status_DeepCopyInto s = andThen (copyPair copyStr (copyPair copyStr (copyPair copyStr (copyPair copyStr (copyPair copySlice copySlice))))
      (?proj s)) (\<lambda>t. ret (?upd t s))" for s
    by (simp add: status_DeepCopyInto_def copyPair_def andThen_assoc) (simp add: ret_def)
  show ?thesis
    using deep_copy_struct [OF d, where proj = ?proj and upd = ?upd and V = ?V and copy = status_DeepCopyInto, OF p c]
    by (simp add: status_ok_def [abs_def] status_of_def [abs_def] status_foot_def [abs_def])
qed

lemma deep_copy_subnet: "deep_copy subnet_DeepCopyInto struct_ok struct_of struct_foot"
proof -
  let ?proj = "\<lambda>u. (u_Meta u, u_Spec u, u_Status u)"
  let ?upd = "\<lambda>(m, s, t) u. u\<lparr>u_Meta := m, u_Spec := s, u_Status := t\<rparr>"
  let ?V = "\<lambda>u :: SubnetR. \<lambda>(m, s, t). \<lparr>sn_meta = m, sn_spec = s, sn_status = t\<rparr>"
  note d = deep_copy_pair [OF deep_copy_meta deep_copy_pair [OF deep_copy_spec deep_copy_status]]
  have p: "?proj (?upd t m) = t" "?V (?upd t m) w = ?V m w" for t m w by (simp_all split: prod.splits)
  have c: "subnet_DeepCopyInto u = andThen (copyPair meta_DeepCopyInto (copyPair spec_DeepCopyInto status_DeepCopyInto)
      (?proj u)) (\<lambda>t. ret (?upd t u))" for u
    by (simp add: subnet_DeepCopyInto_def copyPair_def andThen_assoc) (simp add: ret_def)
  show ?thesis
    using deep_copy_struct [OF d, where proj = ?proj and upd = ?upd and V = ?V and copy = subnet_DeepCopyInto, OF p c]
    by (simp add: struct_ok_def [abs_def] struct_of_def [abs_def] struct_foot_def [abs_def])
qed

text \<open>Pointers to a subnet and to a list of subnets.\<close>

definition subnet_ok :: "store \<Rightarrow> addr option \<Rightarrow> bool" where
  "subnet_ok = ptr_ok unSubnet struct_ok"

definition subnet_of :: "store \<Rightarrow> addr option \<Rightarrow> SubnetObj option" where
  "subnet_of = ptr_view unSubnet struct_of"

definition subnet_foot :: "store \<Rightarrow> addr option \<Rightarrow> addr set" where
  "subnet_foot = ptr_foot unSubnet struct_foot"

interpretation sdc: deep_copy subnet_DeepCopy subnet_ok subnet_of subnet_foot
  unfolding subnet_DeepCopy_def subnet_ok_def subnet_of_def subnet_foot_def
  by (rule deep_copy_new [OF deep_copy_subnet]) simp

abbreviation items_ok :: "store \<Rightarrow> addr option \<Rightarrow> bool" where
  "items_ok \<equiv> ptr_ok unSubnets (\<lambda>\<sigma>. list_all (struct_ok \<sigma>))"

abbreviation items_view :: "store \<Rightarrow> addr option \<Rightarrow> SubnetObj list option" where
  "items_view \<equiv> ptr_view unSubnets (\<lambda>\<sigma>. map (struct_of \<sigma>))"

abbreviation items_foot :: "store \<Rightarrow> addr option \<Rightarrow> addr set" where
  "items_foot \<equiv> ptr_foot unSubnets (\<lambda>\<sigma> us. \<Union> (struct_foot \<sigma> ` set us))"

lemma deep_copy_items:
  "deep_copy (copyNew CSubnets unSubnets (\<lambda>us. replicate (length us) zeroSubnetR) copyItems) items_ok items_view items_foot"
  by (rule deep_copy_new [OF deep_copy_list [OF deep_copy_subnet]]) simp_all

definition slist_ok :: "store \<Rightarrow> addr option \<Rightarrow> bool" where
  "slist_ok = ptr_ok unList (\<lambda>\<sigma> l. plain_ok unInt \<sigma> (l_RemainingItemCount l) \<and> items_ok \<sigma> (l_Items l))"

definition slist_of :: "store \<Rightarrow> addr option \<Rightarrow> (int option \<times> SubnetObj list option) option" where
  "slist_of = ptr_view unList (\<lambda>\<sigma> l. (plain_view unInt \<sigma> (l_RemainingItemCount l), items_view \<sigma> (l_Items l)))"

definition slist_foot :: "store \<Rightarrow> addr option \<Rightarrow> addr set" where
  "slist_foot = ptr_foot unList (\<lambda>\<sigma> l. plain_foot unInt \<sigma> (l_RemainingItemCount l) \<union> items_foot \<sigma> (l_Items l))"

lemma deep_copy_slist_into:
  "deep_copy list_DeepCopyInto (\<lambda>\<sigma> l. plain_ok unInt \<sigma> (l_RemainingItemCount l) \<and> items_ok \<sigma> (l_Items l))
     (\<lambda>\<sigma> l. (plain_view unInt \<sigma> (l_RemainingItemCount l), items_view \<sigma> (l_Items l)))
     (\<lambda>\<sigma> l. plain_foot unInt \<sigma> (l_RemainingItemCount l) \<union> items_foot \<sigma> (l_Items l))"
proof -
  let ?proj = "\<lambda>l. (l_RemainingItemCount l, l_Items l)"
  let ?upd = "\<lambda>(n, its) l. l\<lparr>l_RemainingItemCount := n, l_Items := its\<rparr>"
  let ?V = "\<lambda>l :: SubnetListR. \<lambda>t. t"
  let ?its = "copyNew CSubnets unSubnets (\<lambda>us. replicate (length us) zeroSubnetR) copyItems"
  have p: "?proj (?upd t m) = t" "?V (?upd t m) w = ?V m w" for t m w by (simp_all split: prod.splits)
  have c: "list_DeepCopyInto l = andThen (copyPair copyInt ?its (?proj l)) (\<lambda>t. ret (?upd t l))" for l
    by (simp add: list_DeepCopyInto_def copyPair_def andThen_assoc) (simp add: ret_def)
  show ?thesis
    using deep_copy_struct [OF deep_copy_pair [OF deep_copyInt deep_copy_items], where proj = ?proj and upd = ?upd and V = ?V and copy = list_DeepCopyInto, OF p c]
    by simp
qed

interpretation ldc: deep_copy list_DeepCopy slist_ok slist_of slist_foot
  unfolding list_DeepCopy_def slist_ok_def slist_of_def slist_foot_def
  by (rule deep_copy_new [OF deep_copy_slist_into]) simp

section \<open>The finalizer of a copy\<close>

text \<open>
  \<open>controllerutil.RemoveFinalizer\<close> on a subnet in the store: it compacts the array of finalizers in place
  and shortens the slice.
\<close>

definition ref_RemoveFinalizer :: "addr \<Rightarrow> string \<Rightarrow> (store, unit) go" where
  "ref_RemoveFinalizer o1 finalizer = andThen (loadCell o1) (\<lambda>c. case unSubnet c of
      None \<Rightarrow> raise BadAssertion
    | Some u \<Rightarrow> (case m_Finalizers (u_Meta u) of
        None \<Rightarrow> assignCell o1 (CSubnet u)
      | Some r \<Rightarrow> andThen (loadCell (sl_array r)) (\<lambda>d. case unArr d of
          None \<Rightarrow> raise BadAssertion
        | Some xs \<Rightarrow> (case RemoveFinalizer_loop (sl_len r) 0 0 (window r xs) finalizer of
            (index, f) \<Rightarrow> andThen (assignCell (sl_array r) (CArr (take (sl_off r) xs @ f @ drop (sl_off r + sl_len r) xs))) (\<lambda>_.
              assignCell o1 (CSubnet (u\<lparr>u_Meta := (u_Meta u)\<lparr>m_Finalizers := Some (r\<lparr>sl_len := index\<rparr>)\<rparr>\<rparr>)))))))"

text \<open>In the struct a copy is made of, the finalizers share their array with nothing else.\<close>

definition finalizers_apart :: "store \<Rightarrow> SubnetR \<Rightarrow> bool" where
  "finalizers_apart \<sigma> u \<longleftrightarrow> slice_foot \<sigma> (m_Finalizers (u_Meta u)) \<inter> (plain_foot unTime \<sigma> (m_DeletionTimestamp (u_Meta u)) \<union>
     plain_foot unMap \<sigma> (m_Annotations (u_Meta u)) \<union> spec_foot \<sigma> (u_Spec u) \<union> status_foot \<sigma> (u_Status u)) = {}"

lemma copy_apart:
  assumes st: "store_ok \<sigma>" and ok: "struct_ok \<sigma> u" and run: "subnet_DeepCopyInto u \<sigma> = (Done u', \<sigma>')"
  shows "finalizers_apart \<sigma>' u'"
proof -
  obtain m s t \<sigma>m \<sigma>s where r: "meta_DeepCopyInto (u_Meta u) \<sigma> = (Done m, \<sigma>m)" "spec_DeepCopyInto (u_Spec u) \<sigma>m = (Done s, \<sigma>s)"
    "status_DeepCopyInto (u_Status u) \<sigma>s = (Done t, \<sigma>')" and u': "u' = u\<lparr>u_Meta := m, u_Spec := s, u_Status := t\<rparr>"
    using run by (auto simp: subnet_DeepCopyInto_def andThen_eq_Done_iff)
  obtain e an f \<sigma>e \<sigma>a where rm: "copyTime (m_DeletionTimestamp (u_Meta u)) \<sigma> = (Done e, \<sigma>e)"
    "copyMap (m_Annotations (u_Meta u)) \<sigma>e = (Done an, \<sigma>a)" "copySlice (m_Finalizers (u_Meta u)) \<sigma>a = (Done f, \<sigma>m)"
    and m: "m_DeletionTimestamp m = e" "m_Annotations m = an" "m_Finalizers m = f"
    using r(1) by (auto simp: meta_DeepCopyInto_def andThen_eq_Done_iff)
  have ok': "plain_ok unTime \<sigma> (m_DeletionTimestamp (u_Meta u))" "plain_ok unMap \<sigma> (m_Annotations (u_Meta u))"
    "slice_ok \<sigma> (m_Finalizers (u_Meta u))" "meta_ok \<sigma> (u_Meta u)" "spec_ok \<sigma> (u_Spec u)" "status_ok \<sigma> (u_Status u)"
    using ok by (simp_all add: struct_ok_def meta_ok_def)
  note e = deep_copy.run [OF deep_copyTime st ok'(1) rm(1)]
  note an = deep_copy.run [OF deep_copyMap e(2) deep_copy.stable(1) [OF deep_copyMap ok'(2) e(1)] rm(2)]
  note ea = ext_trans [OF e(1) an(1)]
  note f = deep_copy.run [OF deep_copySlice an(2) deep_copy.stable(1) [OF deep_copySlice ok'(3) ea] rm(3)]
  note em = ext_trans [OF ea f(1)]
  note s = deep_copy.run [OF deep_copy_spec f(2) deep_copy.stable(1) [OF deep_copy_spec ok'(5) em] r(2)]
  note t = deep_copy.run [OF deep_copy_status s(2) deep_copy.stable(1) [OF deep_copy_status ok'(6) ext_trans [OF em s(1)]] r(3)]
  have "set_option e \<inter> slice_foot \<sigma>m f = {}" "set_option an \<inter> slice_foot \<sigma>m f = {}"
    using e(5) an(5) f(6) ext_dom [OF an(1)] by (simp_all, blast+)
  moreover have "spec_foot \<sigma>s s \<inter> slice_foot \<sigma>m f = {}" "status_foot \<sigma>' t \<inter> slice_foot \<sigma>m f = {}"
    using f(5) s(6) t(6) ext_dom [OF s(1)] by blast+
  ultimately show ?thesis using u' m
    by (auto simp: finalizers_apart_def spec_foot_def status_foot_def slice_foot_def)
qed

lemma RemoveFinalizer_loop_length:
  "index \<le> i \<Longrightarrow> RemoveFinalizer_loop n i index f x = (j, g) \<Longrightarrow> j \<le> i + n \<and> length g = length f"
proof (induction n arbitrary: i index f)
  case (Suc n)
  show ?case
  proof (cases "f ! i = x")
    case True
    with Suc.IH [of index "Suc i" f] Suc.prems show ?thesis by simp
  next
    case False
    with Suc.IH [of "Suc index" "Suc i" "f[index := f ! i]"] Suc.prems show ?thesis by simp
  qed
qed simp

text \<open>The compacted array seen through the shortened slice.\<close>

lemma compacted_window:
  assumes "sl_off r + sl_len r \<le> length xs" and "RemoveFinalizer_loop (sl_len r) 0 0 (window r xs) x = (j, g)"
  shows "window (r\<lparr>sl_len := j\<rparr>) (take (sl_off r) xs @ g @ drop (sl_off r + sl_len r) xs) = filter (\<lambda>y. y \<noteq> x) (window r xs)"
    and "sl_off r + j \<le> length (take (sl_off r) xs @ g @ drop (sl_off r + sl_len r) xs)"
proof -
  have l: "length (window r xs) = sl_len r" using assms(1) by (simp add: window_def)
  have j: "j \<le> sl_len r" "length g = sl_len r" using RemoveFinalizer_loop_length [OF _ assms(2)] l by simp_all
  have "take j g = filter (\<lambda>y. y \<noteq> x) (window r xs)"
    using RemoveFinalizer_loop_eq [of 0 "sl_len r" "window r xs" 0 x "[]"] l assms(2) by simp
  with j assms(1) show "window (r\<lparr>sl_len := j\<rparr>) (take (sl_off r) xs @ g @ drop (sl_off r + sl_len r) xs) = filter (\<lambda>y. y \<noteq> x) (window r xs)"
    by (simp add: window_def)
  show "sl_off r + j \<le> length (take (sl_off r) xs @ g @ drop (sl_off r + sl_len r) xs)" using j assms(1) by simp
qed

lemma RemoveFinalizer_value: "RemoveFinalizer m x = m\<lparr>Finalizers := filter (\<lambda>y. y \<noteq> x) (Finalizers m)\<rparr>"
  by (rule ObjectMeta.equality) (simp_all add: RemoveFinalizer_Finalizers)

text \<open>
  Removing a finalizer in place, from a struct whose finalizers are apart: it writes the struct and
  the array of its finalizers, and the struct then denotes the value without the finalizer.
\<close>

lemma ref_RemoveFinalizer_spec:
  assumes b: "cells \<sigma> b = Some (CSubnet u)" and ok: "struct_ok \<sigma> u" and nb: "b \<notin> struct_foot \<sigma> u" and ap: "finalizers_apart \<sigma> u"
  obtains \<sigma>' where "ref_RemoveFinalizer b x \<sigma> = (Done (), \<sigma>')"
    and "\<forall>a. cells \<sigma>' a \<noteq> cells \<sigma> a \<longrightarrow> a = b \<or> a \<in> struct_foot \<sigma> u"
    and "subnet_of \<sigma>' (Some b) = Some ((struct_of \<sigma> u)\<lparr>sn_meta := RemoveFinalizer (meta_of \<sigma> (u_Meta u)) x\<rparr>)"
proof (cases "m_Finalizers (u_Meta u)")
  case None
  have "ref_RemoveFinalizer b x \<sigma> = (Done (), \<sigma>\<lparr>cells := (cells \<sigma>)(b \<mapsto> CSubnet u)\<rparr>)"
    using b None by (simp add: ref_RemoveFinalizer_def loadCell_def assignCell_def)
  moreover have "(cells \<sigma>)(b \<mapsto> CSubnet u) = cells \<sigma>" using b by (simp add: fun_upd_idem)
  ultimately have run: "ref_RemoveFinalizer b x \<sigma> = (Done (), \<sigma>)" by simp
  have "RemoveFinalizer (meta_of \<sigma> (u_Meta u)) x = meta_of \<sigma> (u_Meta u)"
    using None by (simp add: RemoveFinalizer_value meta_of_def slice_view_def)
  with b have "subnet_of \<sigma> (Some b) = Some ((struct_of \<sigma> u)\<lparr>sn_meta := RemoveFinalizer (meta_of \<sigma> (u_Meta u)) x\<rparr>)"
    by (simp add: subnet_of_def ptr_view_def ptr_val_def struct_of_def)
  with run that [of \<sigma>] show thesis by simp
next
  case (Some r)
  have oks: "meta_ok \<sigma> (u_Meta u)" "spec_ok \<sigma> (u_Spec u)" "status_ok \<sigma> (u_Status u)" using ok by (simp_all add: struct_ok_def)
  with Some obtain xs where xs: "cells \<sigma> (sl_array r) = Some (CArr xs)" "sl_off r + sl_len r \<le> length xs"
    by (auto simp: meta_ok_def elim: slice_okE)
  obtain j g where l: "RemoveFinalizer_loop (sl_len r) 0 0 (window r xs) x = (j, g)" by fastforce
  let ?ys = "take (sl_off r) xs @ g @ drop (sl_off r + sl_len r) xs"
  let ?u = "u\<lparr>u_Meta := (u_Meta u)\<lparr>m_Finalizers := Some (r\<lparr>sl_len := j\<rparr>)\<rparr>\<rparr>"
  let ?\<sigma> = "\<sigma>\<lparr>cells := (cells \<sigma>)(sl_array r \<mapsto> CArr ?ys, b \<mapsto> CSubnet ?u)\<rparr>"
  have arr: "sl_array r \<in> struct_foot \<sigma> u" using Some by (simp add: struct_foot_def meta_foot_def slice_foot_def)
  then have ne: "sl_array r \<noteq> b" using nb by auto
  have run: "ref_RemoveFinalizer b x \<sigma> = (Done (), ?\<sigma>)"
    using b Some xs(1) l by (simp add: ref_RemoveFinalizer_def loadCell_def assignCell_def)
  have other: "cells ?\<sigma> a = cells \<sigma> a" if "a \<in> struct_foot \<sigma> u" "a \<noteq> sl_array r" for a using that nb by auto
  have d: "sl_array r \<notin> set_option (m_DeletionTimestamp (u_Meta u)) \<union> set_option (m_Annotations (u_Meta u))"
    "sl_array r \<notin> spec_foot \<sigma> (u_Spec u)" "sl_array r \<notin> status_foot \<sigma> (u_Status u)"
    using ap Some by (auto simp: finalizers_apart_def slice_foot_def)
  have sp: "spec_of ?\<sigma> (u_Spec u) = spec_of \<sigma> (u_Spec u)"
    using deep_copy.locality [OF deep_copy_spec oks(2), of ?\<sigma>] other d(2) by (auto simp: struct_foot_def)
  have st: "status_of ?\<sigma> (u_Status u) = status_of \<sigma> (u_Status u)"
    using deep_copy.locality [OF deep_copy_status oks(3), of ?\<sigma>] other d(3) by (auto simp: struct_foot_def)
  have tm: "plain_view unTime ?\<sigma> (m_DeletionTimestamp (u_Meta u)) = plain_view unTime \<sigma> (m_DeletionTimestamp (u_Meta u))"
    "plain_view unMap ?\<sigma> (m_Annotations (u_Meta u)) = plain_view unMap \<sigma> (m_Annotations (u_Meta u))"
    using nb d(1) by (auto simp: ptr_view_def ptr_val_def struct_foot_def meta_foot_def split: bind_splits)
  have fn: "slice_view ?\<sigma> (Some (r\<lparr>sl_len := j\<rparr>)) = Some (filter (\<lambda>y. y \<noteq> x) (window r xs))"
    using compacted_window [OF xs(2) l] ne by (simp add: slice_view_def slice_arr_def ptr_val_def)
  have old: "slice_view \<sigma> (m_Finalizers (u_Meta u)) = Some (window r xs)"
    using Some xs(1) by (simp add: slice_view_def slice_arr_def ptr_val_def)
  have "meta_of ?\<sigma> (u_Meta ?u) = RemoveFinalizer (meta_of \<sigma> (u_Meta u)) x"
    using tm fn old by (simp add: RemoveFinalizer_value meta_of_def)
  with sp st have "subnet_of ?\<sigma> (Some b) = Some ((struct_of \<sigma> u)\<lparr>sn_meta := RemoveFinalizer (meta_of \<sigma> (u_Meta u)) x\<rparr>)"
    by (simp add: subnet_of_def ptr_view_def ptr_val_def struct_of_def)
  with run arr that [of ?\<sigma>] show thesis by auto
qed

section \<open>Properties\<close>

text \<open>
  (C33) The copies of the custom resource are well typed. In a well-typed store neither \<open>DeepCopy\<close> panics; the
  store it leaves is well formed, keeps every cell it had, and types the copy, which lives in
  new cells only and denotes the same object, a nil pointer being copied to nil.
\<close>

theorem DeepCopy_typed:
  assumes "store_ok \<sigma>" and "subnet_ok \<sigma> p" and "slist_ok \<sigma> l"
  shows "(\<exists>p' \<sigma>'. subnet_DeepCopy p \<sigma> = (Done p', \<sigma>') \<and> store_ok \<sigma>' \<and> subnet_ok \<sigma>' p' \<and> subnet_of \<sigma>' p' = subnet_of \<sigma> p \<and>
       (\<forall>a. cells \<sigma> a \<noteq> None \<longrightarrow> cells \<sigma>' a = cells \<sigma> a) \<and> subnet_foot \<sigma>' p' \<inter> dom (cells \<sigma>) = {} \<and> (p' = None \<longleftrightarrow> p = None)) \<and>
    (\<exists>l' \<sigma>'. list_DeepCopy l \<sigma> = (Done l', \<sigma>') \<and> store_ok \<sigma>' \<and> slist_ok \<sigma>' l' \<and> slist_of \<sigma>' l' = slist_of \<sigma> l \<and>
       (\<forall>a. cells \<sigma> a \<noteq> None \<longrightarrow> cells \<sigma>' a = cells \<sigma> a) \<and> slist_foot \<sigma>' l' \<inter> dom (cells \<sigma>) = {} \<and> (l' = None \<longleftrightarrow> l = None))"
proof -
  obtain p' \<sigma>1 where p: "subnet_DeepCopy p \<sigma> = (Done p', \<sigma>1)" using sdc.copies [OF assms(1,2)] by blast
  obtain l' \<sigma>2 where l: "list_DeepCopy l \<sigma> = (Done l', \<sigma>2)" using ldc.copies [OF assms(1,3)] by blast
  have "p' = None \<longleftrightarrow> p = None" using p
    by (auto simp: subnet_DeepCopy_def copyNew_def andThen_eq_Done_iff split: option.splits)
  moreover have "l' = None \<longleftrightarrow> l = None" using l
    by (auto simp: list_DeepCopy_def copyNew_def andThen_eq_Done_iff split: option.splits)
  ultimately show ?thesis using p l sdc.run [OF assms(1,2) p] ldc.run [OF assms(1,3) l]
    by (auto simp: ext_def)
qed

text \<open>
  (C3) Taking a finalizer off a copy, as the reconciler of the subnets does, refines the model on values: the
  copy denotes the object without the finalizer, and the object it was copied from, against which
  the patch is computed, denotes what it did, although the finalizers are compacted in place.
\<close>

theorem copy_without_finalizer:
  assumes st: "store_ok \<sigma>" and ok: "subnet_ok \<sigma> (Some a)" and ob: "subnet_of \<sigma> (Some a) = Some inp"
    and copy: "subnet_DeepCopy (Some a) \<sigma> = (Done (Some b), \<sigma>1)" and rm: "ref_RemoveFinalizer b x \<sigma>1 = (r, \<sigma>2)"
  shows "r = Done () \<and> subnet_of \<sigma>2 (Some a) = Some inp \<and>
    subnet_of \<sigma>2 (Some b) = Some (inp\<lparr>sn_meta := RemoveFinalizer (sn_meta inp) x\<rparr>)"
proof -
  obtain e u where u: "cells \<sigma> a = Some e" "unSubnet e = Some u" "struct_ok \<sigma> u"
    using ok unfolding subnet_ok_def by (rule ptr_okE)
  obtain u' \<sigma>' where c: "subnet_DeepCopy (Some a) \<sigma> = (Done (Some (limit \<sigma>)), \<sigma>'\<lparr>cells := (cells \<sigma>')(limit \<sigma> \<mapsto> CSubnet u')\<rparr>)"
    and u': "struct_ok \<sigma>' u'" "struct_foot \<sigma>' u' \<subseteq> dom (cells \<sigma>') - insert (limit \<sigma>) (dom (cells \<sigma>))"
    and into: "\<exists>\<sigma>0. store_ok \<sigma>0 \<and> struct_ok \<sigma>0 u \<and> subnet_DeepCopyInto u \<sigma>0 = (Done u', \<sigma>')"
    unfolding subnet_DeepCopy_def
    by (rule copyNew_run [where K = CSubnet and un = unSubnet and z = "\<lambda>_. zeroSubnetR", OF deep_copy_subnet st u]) blast
  have b: "b = limit \<sigma>" and s1: "\<sigma>1 = \<sigma>'\<lparr>cells := (cells \<sigma>')(limit \<sigma> \<mapsto> CSubnet u')\<rparr>" using c copy by simp_all
  have "\<And>d. d \<in> struct_foot \<sigma>' u' \<Longrightarrow> cells \<sigma>1 d = cells \<sigma>' d" using u'(2) s1 by auto
  note u1 = deep_copy.locality [OF deep_copy_subnet u'(1) this]
  have cell: "cells \<sigma>1 b = Some (CSubnet u')" using b s1 by simp
  have ap: "finalizers_apart \<sigma>1 u'"
    using into copy_apart [of _ u u' \<sigma>'] by (auto simp: finalizers_apart_def spec_foot_def status_foot_def slice_foot_def)
  have nb: "b \<notin> struct_foot \<sigma>1 u'" using u1 u'(2) b by auto
  from ref_RemoveFinalizer_spec [OF cell conjunct1 [OF u1] nb ap, of x]
  have r: "r = Done ()" and w: "\<forall>d. cells \<sigma>2 d \<noteq> cells \<sigma>1 d \<longrightarrow> d = b \<or> d \<in> struct_foot \<sigma>1 u'"
    and v: "subnet_of \<sigma>2 (Some b) = Some ((struct_of \<sigma>1 u')\<lparr>sn_meta := RemoveFinalizer (meta_of \<sigma>1 (u_Meta u')) x\<rparr>)"
    using rm by (metis prod.inject)+
  have "subnet_foot \<sigma>1 (Some b) = insert b (struct_foot \<sigma>1 u')" using cell by (simp add: subnet_foot_def ptr_foot_def ptr_val_def)
  with w have "subnet_of \<sigma>2 (Some a) = Some inp" using sdc.independent(1) [OF st ok copy] ob by simp
  moreover have "Some (struct_of \<sigma>1 u') = Some inp"
    using sdc.run(4) [OF st ok copy] ob cell by (simp add: subnet_of_def ptr_view_def ptr_val_def)
  ultimately show ?thesis using r v by (auto simp: struct_of_def)
qed

section \<open>Examples\<close>

text \<open>A subnet with two finalizers in the middle of a longer array, and a list that holds the same struct.\<close>

definition ex_struct :: SubnetR where
  "ex_struct = \<lparr>u_Meta = zeroMetaR\<lparr>m_Name := ''sub'', m_Finalizers := Some \<lparr>sl_array = 1, sl_off = 1, sl_len = 2\<rparr>\<rparr>,
     u_Spec = zeroSpecR\<lparr>s_IPVersion := Some 2, s_Subnet := ''s1''\<rparr>, u_Status = zeroStatusR\<rparr>"

definition ex_store :: store where
  "ex_store = \<lparr>cells = [0 \<mapsto> CSubnet ex_struct, 1 \<mapsto> CArr [''x'', FinializerController, ''keep'', ''y''], 2 \<mapsto> CInt 4,
     3 \<mapsto> CList \<lparr>l_RemainingItemCount = None, l_Items = Some 4\<rparr>, 4 \<mapsto> CSubnets [ex_struct]], limit = 5\<rparr>"

lemmas ex_store_simps = ex_store_def ex_struct_def zeroMetaR_def zeroSpecR_def zeroStatusR_def

lemma ex_store_ok: "store_ok ex_store" "subnet_ok ex_store (Some 0)" "slist_ok ex_store (Some 3)"
proof -
  show "store_ok ex_store" by (auto simp: store_ok_def ex_store_def)
  have "struct_ok ex_store ex_struct"
    by (simp add: struct_ok_def meta_ok_def spec_ok_def status_ok_def ptr_ok_def ptr_val_def slice_ok_def slice_arr_def ex_store_simps)
  then show "subnet_ok ex_store (Some 0)" "slist_ok ex_store (Some 3)"
    by (simp_all add: subnet_ok_def slist_ok_def ptr_ok_def ptr_val_def) (simp_all add: ex_store_def ptr_ok_def ptr_val_def)
qed

lemma ex_store_of: "\<exists>inp. subnet_of ex_store (Some 0) = Some inp \<and> Finalizers (sn_meta inp) = [FinializerController, ''keep'']"
  by (simp add: subnet_of_def ptr_view_def ptr_val_def struct_of_def meta_of_def slice_view_def slice_arr_def window_def ex_store_simps
      numeral_2_eq_2)

theorem DeepCopy_typed_witness:
  "\<exists>p' \<sigma>'. subnet_DeepCopy (Some 0) ex_store = (Done p', \<sigma>') \<and> subnet_of \<sigma>' p' = subnet_of ex_store (Some 0) \<and>
     cells \<sigma>' 1 = Some (CArr [''x'', FinializerController, ''keep'', ''y''])"
proof -
  have "cells ex_store 1 = Some (CArr [''x'', FinializerController, ''keep'', ''y''])" by (simp add: ex_store_def)
  with DeepCopy_typed [OF ex_store_ok] show ?thesis by force
qed

theorem copy_without_finalizer_witness:
  "\<exists>b \<sigma>1 \<sigma>2 inp out. subnet_DeepCopy (Some 0) ex_store = (Done (Some b), \<sigma>1) \<and> ref_RemoveFinalizer b FinializerController \<sigma>1 = (Done (), \<sigma>2) \<and>
     subnet_of \<sigma>2 (Some 0) = Some inp \<and> Finalizers (sn_meta inp) = [FinializerController, ''keep''] \<and>
     subnet_of \<sigma>2 (Some b) = Some out \<and> Finalizers (sn_meta out) = [''keep'']"
proof -
  obtain inp where inp: "subnet_of ex_store (Some 0) = Some inp" "Finalizers (sn_meta inp) = [FinializerController, ''keep'']"
    using ex_store_of by blast
  obtain p' \<sigma>1 where c: "subnet_DeepCopy (Some 0) ex_store = (Done p', \<sigma>1)" using sdc.copies [OF ex_store_ok(1,2)] by blast
  then obtain b where b: "p' = Some b"
    by (auto simp: subnet_DeepCopy_def copyNew_def andThen_eq_Done_iff split: option.splits)
  obtain r \<sigma>2 where rm: "ref_RemoveFinalizer b FinializerController \<sigma>1 = (r, \<sigma>2)" by fastforce
  have "FinializerController \<noteq> ''keep''" by (simp add: FinializerController_def)
  with copy_without_finalizer [OF ex_store_ok(1,2) inp(1) c [unfolded b] rm] c b rm inp(2) show ?thesis
    by (auto simp: RemoveFinalizer_Finalizers)
qed

end
