(* ===== verification/Openstack.thy ===== *)
theory Openstack
  imports Infra Waitgroup Strconv
begin

text \<open>
  \<open>src/pkg/infra/openstack.go\<close>: the client of the OpenStack services. The services themselves are
  a parameter, the record \<open>cloud\<close> of calls on the outside world. An operation with
  \<open>wait = false\<close> hands a task to one of two pools of 50 workers that refuse work when they are
  full; the model keeps the accepted tasks in the state and runs them (\<open>runTask\<close>) after the
  operation that submitted them has returned or is blocked. Variables captured by tasks live in
  an explicit store of frames. Calls that go through \<open>singleflight\<close> join a call of another
  goroutine with the same key, when there is one in flight, and get its result. The default
  branches for event kinds other than the three constants of \<open>util.Event\<close> do not arise.
\<close>

section \<open>Data\<close>

record FixedIP =
  fx_SubnetID :: string
  fx_IPAddress :: string

record Port =
  po_ID :: string
  po_Name :: string
  po_MAC :: string
  po_FixedIPs :: "FixedIP list"

record PortCreate =
  pc_NetworkID :: string
  pc_SubnetID :: string
  pc_DeviceID :: string
  pc_Name :: string
  pc_DeviceOwner :: string

record PortListOpts =
  plo_SubnetID :: string
  plo_ProjectID :: string
  plo_NetworkID :: string
  plo_DeviceID :: string

record AttachedIf =
  ai_PortID :: string
  ai_MAC :: string
  ai_FixedIPs :: "FixedIP list"

text \<open>A page of a listing, or the error met when fetching or decoding it.\<close>

datatype 'p page = PageError go_error | Page "'p list"

text \<open>
  The services. A result that \<open>Extract\<close> turns into a pointer and an error is the pair of the
  object (the zero object when the error is set) and the error.
\<close>

record 'w cloud =
  ports_Create :: "PortCreate \<Rightarrow> 'w \<Rightarrow> (Port \<times> err) \<times> 'w"
  ports_Delete :: "string \<Rightarrow> 'w \<Rightarrow> err \<times> 'w"
  ports_Get :: "string \<Rightarrow> 'w \<Rightarrow> (Port \<times> err) \<times> 'w"
  ports_List :: "PortListOpts \<Rightarrow> 'w \<Rightarrow> Port page list \<times> 'w"
  att_List :: "string \<Rightarrow> 'w \<Rightarrow> AttachedIf page list \<times> 'w"
  att_Create :: "string \<Rightarrow> string \<Rightarrow> string \<Rightarrow> 'w \<Rightarrow> (Port \<times> err) \<times> 'w"
  att_Delete :: "string \<Rightarrow> string \<Rightarrow> 'w \<Rightarrow> err \<times> 'w"
  pairs_Add :: "string \<Rightarrow> AddressPair list \<Rightarrow> 'w \<Rightarrow> (Port \<times> err) \<times> 'w"
  pairs_Remove :: "string \<Rightarrow> AddressPair list \<Rightarrow> 'w \<Rightarrow> err \<times> 'w"
  subnets_Get :: "string \<Rightarrow> 'w \<Rightarrow> (Subnat_info option \<times> err) \<times> 'w"
  az_List :: "'w \<Rightarrow> (go_error + string list) \<times> 'w"

definition VMDeviceOwner :: string where
  "VMDeviceOwner = ''compute:''"

definition PodDeviceOwner :: string where
  "PodDeviceOwner = ''network:secondary''"

text \<open>\<open>fromPorts\<close> indexes the addresses before it looks at how many there are.\<close>

definition fromPorts :: "Port \<Rightarrow> Interface outcome" where
  "fromPorts p = (case po_FixedIPs p of
      [] \<Rightarrow> Panic IndexRange
    | f # _ \<Rightarrow> Done (Interface (po_Name p) (po_ID p) (fx_IPAddress f) (fx_SubnetID f) (po_MAC p) None))"

section \<open>Reading operations\<close>

text \<open>\<open>Pager.EachPage\<close>.\<close>

fun eachPage :: "('p list \<Rightarrow> ('s, bool \<times> err) go) \<Rightarrow> 'p page list \<Rightarrow> ('s, err) go" where
  "eachPage handler [] = ret None"
| "eachPage handler (PageError e # pages) = ret (Some e)"
| "eachPage handler (Page xs # pages) =
     (if xs = [] then ret None
      else andThen (handler xs) (\<lambda>(more, e).
        if e \<noteq> None then ret e else if \<not> more then ret None else eachPage handler pages))"

definition listOpts :: "Opt \<Rightarrow> PortListOpts" where
  "listOpts o1 = \<lparr>plo_SubnetID = o_Subnet o1, plo_ProjectID = o_Project o1, plo_NetworkID = o_Vpc o1,
     plo_DeviceID = (if o_Port o1 \<noteq> [] then o_Port o1 else o_Instance o1)\<rparr>"

text \<open>The handler of one page returns from inside its loop.\<close>

fun pageLoop :: "(Interface option \<Rightarrow> ('s, bool \<times> err) go) \<Rightarrow> Port list \<Rightarrow> ('s, bool \<times> err) go" where
  "pageLoop fn [] = ret (True, None)"
| "pageLoop fn (p # ps) = (case po_FixedIPs p of
      [f] \<Rightarrow> fn (Some (Interface (po_Name p) (po_ID p) (fx_IPAddress f) (fx_SubnetID f) (po_MAC p) None))
    | _ \<Rightarrow> pageLoop fn ps)"

definition os_EachInterface ::
  "'w cloud \<Rightarrow> Opt \<Rightarrow> (Interface option \<Rightarrow> (('w, 'z) base_scheme, bool \<times> err) go) \<Rightarrow> (('w, 'z) base_scheme, err) go" where
  "os_EachInterface c o1 fn =
     (if o_Subnet o1 = [] then ret (Some (Errorf ''must set subnat id'' []))
      else andThen (inWorld (ports_List c (listOpts o1))) (\<lambda>pages. eachPage (pageLoop fn) pages))"

definition os_GetInterface :: "'w cloud \<Rightarrow> Opt \<Rightarrow> (('w, 'z) base_scheme, Interface option) go" where
  "os_GetInterface c o1 =
     (if o_Port o1 = [] then ret None
      else andThen (inWorld (ports_Get c (o_Port o1))) (\<lambda>(po, e).
        if e \<noteq> None then ret None else andThen (lift (fromPorts po)) (\<lambda>i. ret (Some i))))"

text \<open>\<open>m[k] = v\<close>\<close>

definition mapAssign :: "('v gomap) option \<Rightarrow> string \<Rightarrow> 'v \<Rightarrow> ('v gomap) option outcome" where
  "mapAssign m k v = (case m of None \<Rightarrow> Panic NilMapWrite | Some es \<Rightarrow> Done (Some (AList.update k v es)))"

fun collectIfs :: "Instance \<Rightarrow> AttachedIf list \<Rightarrow> Instance outcome" where
  "collectIfs inst [] = Done inst"
| "collectIfs inst (m # ms) = (case ai_FixedIPs m of
      [] \<Rightarrow> collectIfs inst ms
    | f # _ \<Rightarrow>
        if fx_IPAddress f = is_DefaultIp inst then collectIfs inst ms
        else bindo (mapAssign (is_Interface inst) (fx_IPAddress f)
            (Interface [] (ai_PortID m) (fx_IPAddress f) (fx_SubnetID f) (ai_MAC m) None))
          (\<lambda>m'. collectIfs (inst\<lparr>is_Interface := m'\<rparr>) ms))"

text \<open>The pages of the attached interfaces; the instance is the variable the handler captures.\<close>

fun instPages :: "Instance \<Rightarrow> AttachedIf page list \<Rightarrow> (Instance \<times> err) outcome" where
  "instPages inst [] = Done (inst, None)"
| "instPages inst (PageError e # pages) = Done (inst, Some e)"
| "instPages inst (Page xs # pages) =
     (if xs = [] then Done (inst, None) else bindo (collectIfs inst xs) (\<lambda>inst'. instPages inst' pages))"

definition os_GetInstance :: "'w cloud \<Rightarrow> Opt \<Rightarrow> (('w, 'z) base_scheme, Instance option) go" where
  "os_GetInstance c o1 =
     (let inst = \<lparr>is_Id = o_Instance o1, is_DefaultIp = o_Ip o1, is_NodeName = o_InstanceName o1, is_Interface = None\<rparr>
      in if is_Id inst = [] \<and> is_DefaultIp inst = [] then ret None
         else andThen (inWorld (att_List c (o_Instance o1))) (\<lambda>pages.
           andThen (lift (instPages inst pages)) (\<lambda>(inst', e).
             if e \<noteq> None then ret None else ret (Some inst'))))"

definition os_GetSubnat :: "'w cloud \<Rightarrow> Opt \<Rightarrow> (('w, 'z) base_scheme, Subnat_info option) go" where
  "os_GetSubnat c o1 =
     (if o_Subnet o1 = [] then ret None
      else andThen (inWorld (subnets_Get c (o_Subnet o1))) (\<lambda>(sn, e).
        if e \<noteq> None then ret None
        else case sn of None \<Rightarrow> raise NilDeref | Some n \<Rightarrow> ret (Some n)))"

fun firstZone :: "string list \<Rightarrow> string option" where
  "firstZone [] = None"
| "firstZone (z # zs) = (if z \<noteq> ''internal'' then Some z else firstZone zs)"

definition getDefaultAz :: "'w cloud \<Rightarrow> (('w, 'z) base_scheme, go_error + string) go" where
  "getDefaultAz c = andThen (inWorld (az_List c)) (\<lambda>r. case r of
      Inl e \<Rightarrow> ret (Inl e)
    | Inr zs \<Rightarrow> (case firstZone zs of
         Some z \<Rightarrow> ret (Inr z)
       | None \<Rightarrow> ret (Inl (Errorf ''not found non-internal az'' []))))"

section \<open>State of the asynchronous operations\<close>

text \<open>What a call through \<open>singleflight\<close> returns: the dynamic value and the error.\<close>

datatype flightVal = FNil | FCreateResult Port err | FAttachResult Port err | FPort Port

datatype 'cb task =
    CreatePort Opt nat
  | CreateWait Opt nat "'cb option"
  | DeletePort string
  | AttachPort string string "'cb option"
  | DetachPort string string
  | AssignPort string "AddressPair list" "'cb option"
  | UnassignPort string "AddressPair list"

text \<open>The variables of a call of \<open>UpdatePort\<close> that its tasks capture.\<close>

record callFrame =
  fr_wg :: StoppableWaitGroup
  fr_err :: err
  fr_i :: int

record ('w, 'cb) os_state = "'w base" +
  create_tasks :: "'cb task list"
  att_tasks :: "'cb task list"
  flights :: "(flightVal \<times> err) gomap"
  frames :: "callFrame list"

definition pool_cap :: nat where
  "pool_cap = 50"

definition submitCreate :: "'cb task \<Rightarrow> (('w, 'cb, 'z) os_state_scheme, unit) go" where
  "submitCreate t = modify (\<lambda>s. if length (create_tasks s) < pool_cap
     then s\<lparr>create_tasks := create_tasks s @ [t]\<rparr> else s)"

definition submitAtt :: "'cb task \<Rightarrow> (('w, 'cb, 'z) os_state_scheme, unit) go" where
  "submitAtt t = modify (\<lambda>s. if length (att_tasks s) < pool_cap
     then s\<lparr>att_tasks := att_tasks s @ [t]\<rparr> else s)"

definition gp_Do ::
  "string \<Rightarrow> (('w, 'cb, 'z) os_state_scheme, flightVal \<times> err) go \<Rightarrow>
   (('w, 'cb, 'z) os_state_scheme, flightVal \<times> err) go" where
  "gp_Do key fn = andThen (gets flights) (\<lambda>fs. case lookup fs key of Some r \<Rightarrow> ret r | None \<Rightarrow> fn)"

fun asCreateResult :: "flightVal \<Rightarrow> (Port \<times> err) outcome" where
  "asCreateResult (FCreateResult p e) = Done (p, e)"
| "asCreateResult _ = Panic BadAssertion"

fun asPort :: "flightVal \<Rightarrow> Port outcome" where
  "asPort (FPort p) = Done p"
| "asPort _ = Panic BadAssertion"

section \<open>Single requests\<close>

definition createOpts :: "Opt \<Rightarrow> PortCreate" where
  "createOpts o1 =
     (if o_Instance o1 \<noteq> []
      then \<lparr>pc_NetworkID = o_Vpc o1, pc_SubnetID = o_Subnet o1, pc_DeviceID = o_Instance o1,
            pc_Name = GetInstancePortName o1, pc_DeviceOwner = VMDeviceOwner @ o_Instance o1\<rparr>
      else \<lparr>pc_NetworkID = o_Vpc o1, pc_SubnetID = o_Subnet o1, pc_DeviceID = o_Port o1,
            pc_Name = GetInterfacePortName o1, pc_DeviceOwner = PodDeviceOwner @ o_Port o1\<rparr>)"

definition createKey :: "Opt \<Rightarrow> int \<Rightarrow> string" where
  "createKey o1 n = pc_Name (createOpts o1) @ Itoa n"

definition createPort :: "'w cloud \<Rightarrow> Opt \<Rightarrow> int \<Rightarrow> (('w, 'cb, 'z) os_state_scheme, Port \<times> err) go" where
  "createPort c o1 n = andThen (gp_Do (createKey o1 n)
       (andThen (inWorld (ports_Create c (createOpts o1))) (\<lambda>(p, e). ret (FCreateResult p e, None))))
     (\<lambda>(v, _). lift (asCreateResult v))"

definition deletePort :: "'w cloud \<Rightarrow> string \<Rightarrow> (('w, 'cb, 'z) os_state_scheme, err) go" where
  "deletePort c pid = andThen (gp_Do (''dp-'' @ pid)
       (andThen (inWorld (ports_Delete c pid)) (\<lambda>e. ret (FNil, e))))
     (\<lambda>(_, e). ret e)"

text \<open>\<open>if postfn != nil { postfn(fromPorts(p)) }\<close>\<close>

definition notify :: "('cb \<Rightarrow> Interface \<Rightarrow> ('s, unit) go) \<Rightarrow> 'cb option \<Rightarrow> Port \<Rightarrow> ('s, unit) go" where
  "notify call postfn p = (case postfn of
      None \<Rightarrow> ret ()
    | Some cb \<Rightarrow> andThen (lift (fromPorts p)) (\<lambda>i. call cb i))"

definition attachPort ::
  "('cb \<Rightarrow> Interface \<Rightarrow> (('w, 'cb, 'z) os_state_scheme, unit) go) \<Rightarrow> 'w cloud \<Rightarrow> string \<Rightarrow> string \<Rightarrow> string \<Rightarrow>
   'cb option \<Rightarrow> (('w, 'cb, 'z) os_state_scheme, Port option \<times> err) go" where
  "attachPort call c instanceid mainid networkid postfn =
     (if mainid \<noteq> [] \<and> networkid \<noteq> []
      then ret (None, Some (Errorf ''only one of mainid or networkid can be set'' []))
      else
        let portID = mainid;
            networkID = (if mainid \<noteq> [] then [] else networkid);
            key = ''ap-'' @ (if mainid \<noteq> [] then mainid else networkid)
        in andThen (gp_Do key (andThen (inWorld (att_Create c instanceid portID networkID))
               (\<lambda>(p, e). ret (FAttachResult p e, None))))
           (\<lambda>(v, _). andThen (lift (asCreateResult v)) (\<lambda>(p, e).
             andThen (notify call postfn p) (\<lambda>_. ret (Some p, e)))))"

definition detachPort :: "'w cloud \<Rightarrow> string \<Rightarrow> string \<Rightarrow> (('w, 'cb, 'z) os_state_scheme, err) go" where
  "detachPort c instanceid mainid = andThen (gp_Do (''dp-'' @ instanceid @ mainid)
       (andThen (inWorld (att_Delete c instanceid mainid)) (\<lambda>e. ret (FNil, e))))
     (\<lambda>(_, e). ret e)"

text \<open>The set of addresses that \<open>assignPort\<close> and \<open>ussignPort\<close> build is only logged.\<close>

definition assignPort ::
  "('cb \<Rightarrow> Interface \<Rightarrow> (('w, 'cb, 'z) os_state_scheme, unit) go) \<Rightarrow> 'w cloud \<Rightarrow> string \<Rightarrow> AddressPair list \<Rightarrow>
   'cb option \<Rightarrow> (('w, 'cb, 'z) os_state_scheme, Port \<times> err) go" where
  "assignPort call c mainid pair postfn = andThen (gp_Do (''asp-'' @ mainid)
       (andThen (inWorld (pairs_Add c mainid pair)) (\<lambda>(p, e). ret (FPort p, e))))
     (\<lambda>(v, e). andThen (lift (asPort v)) (\<lambda>p.
       andThen (notify call postfn p) (\<lambda>_. ret (p, e))))"

definition ussignPort :: "'w cloud \<Rightarrow> string \<Rightarrow> AddressPair list \<Rightarrow> (('w, 'cb, 'z) os_state_scheme, err) go" where
  "ussignPort c mainid pair = andThen (gp_Do (''usp-'' @ mainid)
       (andThen (inWorld (pairs_Remove c mainid pair)) (\<lambda>e. ret (FNil, e))))
     (\<lambda>(_, e). ret e)"

section \<open>Tasks\<close>

text \<open>An action on the wait group of a frame.\<close>

definition onWg :: "nat \<Rightarrow> (StoppableWaitGroup, 'a) go \<Rightarrow> (('w, 'cb, 'z) os_state_scheme, 'a) go" where
  "onWg f m = (\<lambda>s. case m (fr_wg (frames s ! f)) of
     (r, g) \<Rightarrow> (r, s\<lparr>frames := (frames s)[f := (frames s ! f)\<lparr>fr_wg := g\<rparr>]\<rparr>))"

definition setFrame :: "nat \<Rightarrow> (callFrame \<Rightarrow> callFrame) \<Rightarrow> (('w, 'cb, 'z) os_state_scheme, unit) go" where
  "setFrame f g = modify (\<lambda>s. s\<lparr>frames := (frames s)[f := g (frames s ! f)]\<rparr>)"

definition taskBody ::
  "('cb \<Rightarrow> Interface \<Rightarrow> (('w, 'cb, 'z) os_state_scheme, unit) go) \<Rightarrow> 'w cloud \<Rightarrow> 'cb task \<Rightarrow>
   (('w, 'cb, 'z) os_state_scheme, unit) go" where
  "taskBody call c t = (case t of
      CreatePort o1 f \<Rightarrow> andThen (gets (\<lambda>s. fr_i (frames s ! f))) (\<lambda>i.
        andThen (createPort c o1 i) (\<lambda>_. ret ()))
    | CreateWait o1 f postfn \<Rightarrow> andThen (onWg f swg_Done) (\<lambda>_.
        andThen (gets (\<lambda>s. fr_i (frames s ! f))) (\<lambda>i.
        andThen (createPort c o1 i) (\<lambda>(p, e).
        if e \<noteq> None then setFrame f (\<lambda>fr. fr\<lparr>fr_err := errors_Join (fr_err fr) e\<rparr>)
        else notify call postfn p)))
    | DeletePort pid \<Rightarrow> andThen (deletePort c pid) (\<lambda>_. ret ())
    | AttachPort inst pid postfn \<Rightarrow> andThen (attachPort call c inst pid [] postfn) (\<lambda>_. ret ())
    | DetachPort inst pid \<Rightarrow> andThen (detachPort c inst pid) (\<lambda>_. ret ())
    | AssignPort mid pair postfn \<Rightarrow> andThen (assignPort call c mid pair postfn) (\<lambda>_. ret ())
    | UnassignPort mid pair \<Rightarrow> andThen (ussignPort c mid pair) (\<lambda>_. ret ()))"

text \<open>A worker recovers from the panic of its task.\<close>

definition recover :: "('s, unit) go \<Rightarrow> ('s, unit) go" where
  "recover m = (\<lambda>s. case m s of (Panic p, s') \<Rightarrow> (Done (), s') | r \<Rightarrow> r)"

definition runTask ::
  "('cb \<Rightarrow> Interface \<Rightarrow> (('w, 'cb, 'z) os_state_scheme, unit) go) \<Rightarrow> 'w cloud \<Rightarrow> 'cb task \<Rightarrow>
   (('w, 'cb, 'z) os_state_scheme, unit) go" where
  "runTask call c t = recover (taskBody call c t)"

section \<open>Updating operations\<close>

definition waitLoop :: "nat \<Rightarrow> Opt \<Rightarrow> 'cb option \<Rightarrow> int list \<Rightarrow> (('w, 'cb, 'z) os_state_scheme, unit) go" where
  "waitLoop f o1 postfn is = forEach (\<lambda>i. andThen (setFrame f (\<lambda>fr. fr\<lparr>fr_i := i\<rparr>)) (\<lambda>_.
     andThen (onWg f swg_Add) (\<lambda>_. submitCreate (CreateWait o1 f postfn)))) is"

definition asyncLoop :: "nat \<Rightarrow> Opt \<Rightarrow> int list \<Rightarrow> (('w, 'cb, 'z) os_state_scheme, unit) go" where
  "asyncLoop f o1 is = forEach (\<lambda>i. andThen (setFrame f (\<lambda>fr. fr\<lparr>fr_i := i\<rparr>)) (\<lambda>_.
     submitCreate (CreatePort o1 f))) is"

definition newFrame :: "(('w, 'cb, 'z) os_state_scheme, nat) go" where
  "newFrame = andThen (gets (\<lambda>s. length (frames s))) (\<lambda>f.
     andThen (modify (\<lambda>s. s\<lparr>frames := frames s @ [\<lparr>fr_wg = zeroStoppableWaitGroup, fr_err = None, fr_i = 0\<rparr>]\<rparr>))
       (\<lambda>_. ret f))"

text \<open>The values of \<open>i\<close> in \<open>for i := 0; i < number; i++\<close>; after the loop \<open>i\<close> is \<open>max 0 number\<close>.\<close>

definition os_UpdatePort ::
  "'w cloud \<Rightarrow> Opt \<Rightarrow> int \<Rightarrow> Event \<Rightarrow> bool \<Rightarrow> 'cb option \<Rightarrow> (('w, 'cb, 'z) os_state_scheme, err) go" where
  "os_UpdatePort c o1 number ev wait postfn = (case ev of
      DeleteE \<Rightarrow>
        if wait then deletePort c (o_Port o1)
        else andThen (submitCreate (DeletePort (o_Port o1))) (\<lambda>_. ret None)
    | _ \<Rightarrow>
        if o_Vpc o1 = [] \<or> o_Subnet o1 = [] then ret (Some (Errorf ''must set vpc and subnet id'' []))
        else if o_Instance o1 = [] \<and> o_Port o1 = []
        then ret (Some (Errorf ''must set one of instance or port id'' []))
        else andThen newFrame (\<lambda>f.
          if wait then
            andThen (waitLoop f o1 postfn (map int [0..<nat number])) (\<lambda>_.
            andThen (setFrame f (\<lambda>fr. fr\<lparr>fr_i := max 0 number\<rparr>)) (\<lambda>_.
            andThen (onWg f swg_Wait) (\<lambda>_. gets (\<lambda>s. fr_err (frames s ! f)))))
          else
            andThen (asyncLoop f o1 (map int [0..<nat number])) (\<lambda>_.
            andThen (setFrame f (\<lambda>fr. fr\<lparr>fr_i := max 0 number\<rparr>)) (\<lambda>_. ret None))))"

definition os_UpdateInstancePort ::
  "('cb \<Rightarrow> Interface \<Rightarrow> (('w, 'cb, 'z) os_state_scheme, unit) go) \<Rightarrow> 'w cloud \<Rightarrow> Opt \<Rightarrow> Event \<Rightarrow> bool \<Rightarrow>
   'cb option \<Rightarrow> (('w, 'cb, 'z) os_state_scheme, err) go" where
  "os_UpdateInstancePort call c o1 ev wait fn =
     (if o_Instance o1 = [] \<or> o_Port o1 = []
      then ret (Some (Errorf ''update instance port must set instance and port'' []))
      else case ev of
        DeleteE \<Rightarrow>
          if wait then detachPort c (o_Instance o1) (o_Port o1)
          else andThen (submitAtt (DetachPort (o_Instance o1) (o_Port o1))) (\<lambda>_. ret None)
      | _ \<Rightarrow>
          if wait then andThen (attachPort call c (o_Instance o1) (o_Port o1) [] fn) (\<lambda>(_, e). ret e)
          else andThen (submitAtt (AttachPort (o_Instance o1) (o_Port o1) fn)) (\<lambda>_. ret None))"

definition os_UpdateInterfacePort ::
  "('cb \<Rightarrow> Interface \<Rightarrow> (('w, 'cb, 'z) os_state_scheme, unit) go) \<Rightarrow> 'w cloud \<Rightarrow> string \<Rightarrow>
   AddressPair list option \<Rightarrow> Event \<Rightarrow> bool \<Rightarrow> 'cb option \<Rightarrow> (('w, 'cb, 'z) os_state_scheme, err) go" where
  "os_UpdateInterfacePort call c mid pair ev wait postfn =
     (case (mid, pair) of
        (_ # _, Some portsp) \<Rightarrow> (case ev of
            DeleteE \<Rightarrow>
              if wait then ussignPort c mid portsp
              else andThen (submitAtt (UnassignPort mid portsp)) (\<lambda>_. ret None)
          | _ \<Rightarrow>
              if wait then andThen (assignPort call c mid portsp postfn) (\<lambda>(_, e). ret e)
              else andThen (submitAtt (AssignPort mid portsp postfn)) (\<lambda>_. ret None))
      | _ \<Rightarrow> ret (Some (Errorf ''update interface port must set id and pair'' [])))"

definition openstack_client ::
  "('cb \<Rightarrow> Interface \<Rightarrow> (('w, 'cb, 'z) os_state_scheme, unit) go) \<Rightarrow> 'w cloud \<Rightarrow>
   (('w, 'cb, 'z) os_state_scheme, 'cb) infra_client" where
  "openstack_client call c = \<lparr>ic_GetInterface = os_GetInterface c, ic_GetInstance = os_GetInstance c,
     ic_GetSubnat = os_GetSubnat c, ic_UpdatePort = os_UpdatePort c, ic_EachInterface = os_EachInterface c,
     ic_UpdateInstancePort = os_UpdateInstancePort call c, ic_UpdateInterfacePort = os_UpdateInterfacePort call c\<rparr>"

section \<open>A small cloud\<close>

text \<open>
  A cloud for the examples: its world counts the requests it has received. The listing of ports
  has two pages; the first one has two ports with one address.
\<close>

definition demoPort :: "string \<Rightarrow> string \<Rightarrow> Port" where
  "demoPort pid ip = \<lparr>po_ID = pid, po_Name = PodInterfaceName @ ''m'', po_MAC = ''mac'',
     po_FixedIPs = [\<lparr>fx_SubnetID = ''sn'', fx_IPAddress = ip\<rparr>]\<rparr>"

definition demoCloud :: "nat cloud" where
  "demoCloud = \<lparr>ports_Create = (\<lambda>_ w. ((demoPort ''new'' ''10.0.0.9'', None), w + 1)), ports_Delete = (\<lambda>_ w. (None, w + 1)),
     ports_Get = (\<lambda>i w. ((demoPort i ''10.0.0.8'', None), w + 1)),
     ports_List = (\<lambda>_ w. ([Page [demoPort ''a'' ''10.0.0.1'', demoPort ''b'' ''10.0.0.2''], Page [demoPort ''c'' ''10.0.0.3'']], w + 1)),
     att_List = (\<lambda>_ w. ([Page [\<lparr>ai_PortID = ''a'', ai_MAC = ''mac'',
        ai_FixedIPs = [\<lparr>fx_SubnetID = ''sn'', fx_IPAddress = ''10.0.0.1''\<rparr>]\<rparr>]], w + 1)),
     att_Create = (\<lambda>_ p _ w. ((demoPort p ''10.0.0.9'', None), w + 1)), att_Delete = (\<lambda>_ _ w. (None, w + 1)),
     pairs_Add = (\<lambda>i _ w. ((demoPort i ''10.0.0.7'', None), w + 1)), pairs_Remove = (\<lambda>_ _ w. (None, w + 1)),
     subnets_Get = (\<lambda>_ w. ((None, Some (InfraError ''no'')), w + 1)), az_List = (\<lambda>w. (Inr [''internal'', ''nova''], w + 1))\<rparr>"

definition demoOs :: "(nat, unit) os_state" where
  "demoOs = \<lparr>world = 0, tape = [], create_tasks = [], att_tasks = [], flights = [], frames = []\<rparr>"

definition demoOpt :: Opt where
  "demoOpt = emptyOpt\<lparr>o_Vpc := ''v'', o_Subnet := ''sn'', o_Instance := ''i'', o_Port := ''p''\<rparr>"

definition countVisit :: "Interface option \<Rightarrow> ((nat, unit) os_state, bool \<times> err) go" where
  "countVisit i = andThen (modify (\<lambda>s. s\<lparr>world := world s + 1\<rparr>)) (\<lambda>_. ret (True, None))"

definition countCall :: "unit \<Rightarrow> Interface \<Rightarrow> ((nat, unit) os_state, unit) go" where
  "countCall _ i = modify (\<lambda>s. s\<lparr>world := world s + 100\<rparr>)"

lemmas demo_os = demoCloud_def demoOs_def demoOpt_def demoPort_def emptyOpt_def

section \<open>Listing\<close>

text \<open>
  The reference for a listing: of every page the first port with exactly one address; the
  callback sees these ports until it stops the walk or fails.
\<close>

definition firstSingle :: "Port list \<Rightarrow> Interface option" where
  "firstSingle ps = (case List.find (\<lambda>p. length (po_FixedIPs p) = 1) ps of
      None \<Rightarrow> None
    | Some p \<Rightarrow> (case fromPorts p of Done i \<Rightarrow> Some i | _ \<Rightarrow> None))"

fun eachUntil :: "(Interface option \<Rightarrow> ('s, bool \<times> err) go) \<Rightarrow> Interface list \<Rightarrow> ('s, err) go" where
  "eachUntil fn [] = ret None"
| "eachUntil fn (i # is) = andThen (fn (Some i)) (\<lambda>(more, e).
     if e \<noteq> None then ret e else if \<not> more then ret None else eachUntil fn is)"

lemma pageLoop_firstSingle:
  "pageLoop fn ps = (case firstSingle ps of None \<Rightarrow> ret (True, None) | Some i \<Rightarrow> fn (Some i))"
proof (induction ps)
  case (Cons p ps)
  show ?case
  proof (cases "length (po_FixedIPs p) = 1")
    case True
    then obtain f where "po_FixedIPs p = [f]" by (cases "po_FixedIPs p") auto
    then show ?thesis by (simp add: firstSingle_def fromPorts_def)
  next
    case False
    then have "firstSingle (p # ps) = firstSingle ps" by (simp add: firstSingle_def)
    moreover from False have "pageLoop fn (p # ps) = pageLoop fn ps"
      by (auto split: list.splits)
    ultimately show ?thesis using Cons by simp
  qed
qed (simp add: firstSingle_def)

lemma eachPage_eachUntil:
  "[] \<notin> set pss \<Longrightarrow> eachPage (pageLoop fn) (map Page pss) = eachUntil fn (List.map_filter firstSingle pss)"
proof (induction pss)
  case (Cons ps pss)
  then have ps: "ps \<noteq> []" and IH: "eachPage (pageLoop fn) (map Page pss) = eachUntil fn (List.map_filter firstSingle pss)"
    by auto
  show ?case
    using ps IH by (cases "firstSingle ps") (simp_all add: pageLoop_firstSingle [of fn ps] List.map_filter_simps cong: if_cong)
qed (simp add: List.map_filter_simps)

text \<open>
  \<open>EachInterface\<close> (C37): when the service lists non-empty pages, the callback is called with the first
  port of each page that has exactly one address, and with no other port, until it asks to
  stop or fails; the other ports of a page are never visited.
\<close>

theorem os_EachInterface_visits:
  fixes s :: "('w, 'z) base_scheme"
  assumes "o_Subnet o1 \<noteq> []" and "ports_List c (listOpts o1) (world s) = (map Page pss, w)" and "[] \<notin> set pss"
  shows "os_EachInterface c o1 fn s = eachUntil fn (List.map_filter firstSingle pss) (s\<lparr>world := w\<rparr>)"
  using assms by (simp add: os_EachInterface_def eachPage_eachUntil)

theorem os_EachInterface_visits_witness:
  "os_EachInterface demoCloud demoOpt countVisit demoOs = (Done None, demoOs\<lparr>world := 3\<rparr>)"
  using os_EachInterface_visits [of demoOpt demoCloud demoOs
      "[[demoPort ''a'' ''10.0.0.1'', demoPort ''b'' ''10.0.0.2''], [demoPort ''c'' ''10.0.0.3'']]" 1 countVisit]
  by (simp add: demo_os countVisit_def firstSingle_def fromPorts_def List.map_filter_simps)

section \<open>Instances\<close>

text \<open>An attached interface that \<open>GetInstance\<close> tries to record.\<close>

definition recorded :: "string \<Rightarrow> AttachedIf \<Rightarrow> bool" where
  "recorded ip m \<longleftrightarrow> (case ai_FixedIPs m of [] \<Rightarrow> False | f # _ \<Rightarrow> fx_IPAddress f \<noteq> ip)"

lemma collectIfs_nil:
  "is_Interface inst = None \<Longrightarrow> collectIfs inst ms =
    (if \<exists>m\<in>set ms. recorded (is_DefaultIp inst) m then Panic NilMapWrite else Done inst)"
  by (induction inst ms rule: collectIfs.induct)
    (auto simp: recorded_def mapAssign_def split: list.splits)

lemma instPages_nil:
  assumes "is_Interface inst = None" and "[] \<notin> set mss"
  shows "instPages inst (map Page mss) =
    (if \<exists>ms\<in>set mss. \<exists>m\<in>set ms. recorded (is_DefaultIp inst) m then Panic NilMapWrite else Done (inst, None))"
  using assms by (induction mss) (auto simp: collectIfs_nil)

text \<open>
  \<open>GetInstance\<close>, when the service lists non-empty pages: it panics on the write to the nil map
  \<open>inst.Interface\<close> as soon as one attached interface has a first address other than the default
  one; otherwise it returns the instance without any interface. It never returns an instance
  with a recorded interface.
\<close>

theorem os_GetInstance_outcome:
  fixes s :: "('w, 'z) base_scheme"
  assumes "o_Instance o1 \<noteq> [] \<or> o_Ip o1 \<noteq> []"
    and "att_List c (o_Instance o1) (world s) = (map Page mss, w)" and "[] \<notin> set mss"
  shows "os_GetInstance c o1 s =
    (if \<exists>ms\<in>set mss. \<exists>m\<in>set ms. recorded (o_Ip o1) m then Panic NilMapWrite
     else Done (Some \<lparr>is_Id = o_Instance o1, is_DefaultIp = o_Ip o1, is_NodeName = o_InstanceName o1,
       is_Interface = None\<rparr>), s\<lparr>world := w\<rparr>)"
  using assms by (auto simp: os_GetInstance_def instPages_nil go_simps)

theorem os_GetInstance_outcome_witness:
  "os_GetInstance demoCloud demoOpt demoOs = (Panic NilMapWrite, demoOs\<lparr>world := 1\<rparr>)"
  using os_GetInstance_outcome [of demoOpt demoCloud demoOs "[[\<lparr>ai_PortID = ''a'', ai_MAC = ''mac'',
        ai_FixedIPs = [\<lparr>fx_SubnetID = ''sn'', fx_IPAddress = ''10.0.0.1''\<rparr>]\<rparr>]]" 1]
  by (simp add: demo_os recorded_def)

section \<open>Creating ports\<close>

lemma newFrame_apply: "newFrame s = (Done (length (frames s)),
    s\<lparr>frames := frames s @ [\<lparr>fr_wg = zeroStoppableWaitGroup, fr_err = None, fr_i = 0\<rparr>]\<rparr>)"
  by (simp add: newFrame_def)

lemma setFrame_apply: "setFrame f g s = (Done (), s\<lparr>frames := (frames s)[f := g (frames s ! f)]\<rparr>)"
  by (simp add: setFrame_def)

lemma submitCreate_apply: "submitCreate t s = (Done (),
    s\<lparr>create_tasks := create_tasks s @ replicate (min 1 (pool_cap - length (create_tasks s))) t\<rparr>)"
  by (auto simp: submitCreate_def)

lemma asyncLoop_apply:
  assumes "f < length (frames s)"
  shows "\<exists>i. asyncLoop f o1 is s = (Done (), s\<lparr>frames := (frames s)[f := (frames s ! f)\<lparr>fr_i := i\<rparr>],
      create_tasks := create_tasks s @
        replicate (min (length is) (pool_cap - length (create_tasks s))) (CreatePort o1 f)\<rparr>)"
  using assms
proof (induction "is" arbitrary: s)
  case Nil
  have "s\<lparr>frames := (frames s)[f := (frames s ! f)\<lparr>fr_i := fr_i (frames s ! f)\<rparr>], create_tasks := create_tasks s\<rparr> = s"
    by simp
  then show ?case by (auto simp: asyncLoop_def intro!: exI [of _ "fr_i (frames s ! f)"])
next
  case (Cons i "is")
  let ?t = "CreatePort o1 f" and ?n = "length (create_tasks s)"
  let ?s = "s\<lparr>frames := (frames s)[f := (frames s ! f)\<lparr>fr_i := i\<rparr>],
    create_tasks := create_tasks s @ replicate (min 1 (pool_cap - ?n)) ?t\<rparr>"
  have step: "asyncLoop f o1 (i # is) s = asyncLoop f o1 is ?s"
    by (simp add: asyncLoop_def setFrame_apply submitCreate_apply go_simps)
  obtain j where j: "asyncLoop f o1 is ?s = (Done (), ?s\<lparr>frames := (frames ?s)[f := (frames ?s ! f)\<lparr>fr_i := j\<rparr>],
      create_tasks := create_tasks ?s @
        replicate (min (length is) (pool_cap - length (create_tasks ?s))) ?t\<rparr>)"
    using Cons.IH [of ?s] Cons.prems by auto
  have "min 1 (pool_cap - ?n) + min (length is) (pool_cap - (?n + min 1 (pool_cap - ?n))) =
      min (length (i # is)) (pool_cap - ?n)" by (simp add: min_def) linarith
  then have "create_tasks ?s @ replicate (min (length is) (pool_cap - length (create_tasks ?s))) ?t =
      create_tasks s @ replicate (min (length (i # is)) (pool_cap - ?n)) ?t"
    by (simp add: replicate_add [symmetric] del: replicate_Suc)
  with j step Cons.prems show ?case by (intro exI [of _ j]) simp
qed

lemma async_UpdatePort:
  assumes "ev \<noteq> DeleteE" and "o_Vpc o1 \<noteq> []" "o_Subnet o1 \<noteq> []" and "o_Instance o1 \<noteq> [] \<or> o_Port o1 \<noteq> []"
  shows "os_UpdatePort c o1 number ev False postfn s = (Done None,
      s\<lparr>frames := frames s @ [\<lparr>fr_wg = zeroStoppableWaitGroup, fr_err = None, fr_i = max 0 number\<rparr>],
        create_tasks := create_tasks s @
          replicate (min (nat number) (pool_cap - length (create_tasks s))) (CreatePort o1 (length (frames s)))\<rparr>)"
proof -
  let ?s = "s\<lparr>frames := frames s @ [\<lparr>fr_wg = zeroStoppableWaitGroup, fr_err = None, fr_i = 0\<rparr>]\<rparr>"
  obtain i where "asyncLoop (length (frames s)) o1 (map int [0..<nat number]) ?s = (Done (), ?s\<lparr>
      frames := (frames ?s)[length (frames s) := (frames ?s ! length (frames s))\<lparr>fr_i := i\<rparr>],
      create_tasks := create_tasks ?s @
      replicate (min (length (map int [0..<nat number])) (pool_cap - length (create_tasks ?s))) (CreatePort o1 (length (frames s)))\<rparr>)"
    using asyncLoop_apply [of "length (frames s)" ?s o1 "map int [0..<nat number]"] by auto
  then show ?thesis using assms
    by (cases ev) (simp_all add: os_UpdatePort_def newFrame_apply setFrame_apply)
qed

lemma wait_UpdatePort:
  assumes "ev \<noteq> DeleteE" and "o_Vpc o1 \<noteq> []" "o_Subnet o1 \<noteq> []" and "o_Instance o1 \<noteq> [] \<or> o_Port o1 \<noteq> []"
  shows "os_UpdatePort c o1 number ev True postfn s = (if number > 0 then Panic NilDeref else Blocked,
      s\<lparr>frames := frames s @ [\<lparr>fr_wg = zeroStoppableWaitGroup, fr_err = None, fr_i = 0\<rparr>]\<rparr>)"
proof (cases "number > 0")
  case True
  then have "map int [0..<nat number] = 0 # map int [1..<nat number]"
    by (simp add: upt_rec)
  with True assms show ?thesis
    by (cases ev) (simp_all add: os_UpdatePort_def newFrame_apply setFrame_apply waitLoop_def onWg_def
      swg_Add_def addCounter_def zeroStoppableWaitGroup_def)
next
  case False
  with assms show ?thesis
    by (cases ev) (simp_all add: os_UpdatePort_def newFrame_apply setFrame_apply waitLoop_def onWg_def
      swg_Wait_def zeroStoppableWaitGroup_def max_def)
qed

text \<open>
  \<open>UpdatePort\<close> (C30) asked to create ports. With \<open>wait\<close> it never returns: its wait group is a zero
  value, so the first \<open>Add\<close> panics, and without ports to create the wait blocks; nothing is
  submitted and no request is sent. Without \<open>wait\<close> it returns nil, the callback is dropped, and
  of the requested ports only as many tasks are accepted as the pool has free workers.
\<close>

theorem os_UpdatePort_create:
  assumes "ev \<noteq> DeleteE" and "o_Vpc o1 \<noteq> []" "o_Subnet o1 \<noteq> []" and "o_Instance o1 \<noteq> [] \<or> o_Port o1 \<noteq> []"
  shows "(\<exists>s'. os_UpdatePort c o1 number ev True postfn s = (if number > 0 then Panic NilDeref else Blocked, s') \<and>
      create_tasks s' = create_tasks s \<and> world s' = world s) \<and>
    (\<exists>s'. os_UpdatePort c o1 number ev False postfn s = (Done None, s') \<and>
      create_tasks s' = create_tasks s @
        replicate (min (nat number) (pool_cap - length (create_tasks s))) (CreatePort o1 (length (frames s))) \<and>
      world s' = world s)"
  unfolding wait_UpdatePort [OF assms] async_UpdatePort [OF assms] by simp

theorem os_UpdatePort_create_witness:
  "(\<exists>s'. os_UpdatePort demoCloud demoOpt 2 CreateE True None demoOs = (Panic NilDeref, s') \<and> create_tasks s' = []) \<and>
   (\<exists>s'. os_UpdatePort demoCloud demoOpt 2 CreateE False None demoOs = (Done None, s') \<and>
      create_tasks s' = [CreatePort demoOpt 0, CreatePort demoOpt 0])"
proof -
  have ts: "create_tasks demoOs @ replicate (min (nat 2) (pool_cap - length (create_tasks demoOs)))
      (CreatePort demoOpt (length (frames demoOs))) = [CreatePort demoOpt 0, CreatePort demoOpt 0]"
    by (simp add: demoOs_def pool_cap_def numeral_2_eq_2)
  have "create_tasks demoOs = []" by (simp add: demoOs_def)
  moreover have "o_Vpc demoOpt \<noteq> []" "o_Subnet demoOpt \<noteq> []" "o_Instance demoOpt \<noteq> [] \<or> o_Port demoOpt \<noteq> []"
    by (simp_all add: demo_os)
  ultimately show ?thesis
    using os_UpdatePort_create [of CreateE demoOpt demoCloud 2 None demoOs] unfolding ts by auto
qed

text \<open>The tasks of one request all read the loop variable after the loop has ended.\<close>

lemma recover_Done [simp]: "m s = (Done (), s') \<Longrightarrow> recover m s = (Done (), s')"
  by (simp add: recover_def)

lemma recover_Panic [simp]: "m s = (Panic p, s') \<Longrightarrow> recover m s = (Done (), s')"
  by (simp add: recover_def)

lemma createPort_fresh:
  assumes "lookup (flights s) (createKey o1 n) = None"
  shows "createPort c o1 n s = (Done (fst (ports_Create c (createOpts o1) (world s))),
    s\<lparr>world := snd (ports_Create c (createOpts o1) (world s))\<rparr>)"
  using assms by (simp add: createPort_def gp_Do_def inWorld_apply go_simps case_prod_beta)

lemma createPort_joined:
  assumes "lookup (flights s) (createKey o1 n) = Some (FCreateResult p e, e')"
  shows "createPort c o1 n s = (Done (p, e), s)"
  using assms by (simp add: createPort_def gp_Do_def)

lemma runTask_create_fresh:
  assumes "lookup (flights s) (createKey o1 (fr_i (frames s ! f))) = None"
  shows "runTask call c (CreatePort o1 f) s = (Done (), s\<lparr>world := snd (ports_Create c (createOpts o1) (world s))\<rparr>)"
  using createPort_fresh [OF assms] by (simp add: runTask_def taskBody_def)

lemma batch_fresh:
  assumes "lookup (flights s) (createKey o1 (fr_i (frames s ! f))) = None"
  shows "forEach (runTask call c) (replicate k (CreatePort o1 f)) s =
    (Done (), s\<lparr>world := ((\<lambda>w. snd (ports_Create c (createOpts o1) w)) ^^ k) (world s)\<rparr>)"
  using assms
proof (induction k arbitrary: s)
  case (Suc k)
  let ?s = "s\<lparr>world := snd (ports_Create c (createOpts o1) (world s))\<rparr>"
  have "forEach (runTask call c) (replicate k (CreatePort o1 f)) ?s =
      (Done (), ?s\<lparr>world := ((\<lambda>w. snd (ports_Create c (createOpts o1) w)) ^^ k) (world ?s)\<rparr>)"
    using Suc by simp
  then show ?case
    using funpow_swap1 [of "\<lambda>w. snd (ports_Create c (createOpts o1) w)" k "world s"]
    by (simp add: runTask_create_fresh [OF Suc.prems])
qed simp

lemma batch_joined:
  assumes "lookup (flights s) (createKey o1 (fr_i (frames s ! f))) = Some (FCreateResult p e, e')"
  shows "forEach (runTask call c) (replicate k (CreatePort o1 f)) s = (Done (), s)"
proof (induction k)
  case (Suc k)
  have "runTask call c (CreatePort o1 f) s = (Done (), s)"
    using createPort_joined [OF assms] by (simp add: runTask_def taskBody_def)
  with Suc show ?case by simp
qed simp

text \<open>
  The values in flight have the types their keys stand for: each key is used by one of the
  request functions only, apart from \<open>dp-\<close>, which \<open>deletePort\<close> and \<open>detachPort\<close> share.
\<close>

definition flightTyped :: "string \<Rightarrow> flightVal \<Rightarrow> bool" where
  "flightTyped k v \<longleftrightarrow>
     (if HasPrefix k ''dp-'' \<or> HasPrefix k ''usp-'' then v = FNil
      else if HasPrefix k ''ap-'' then (\<exists>p e. v = FAttachResult p e)
      else if HasPrefix k ''asp-'' then (\<exists>p. v = FPort p)
      else (\<exists>p e. v = FCreateResult p e))"

definition flights_typed :: "('w, 'cb, 'z) os_state_scheme \<Rightarrow> bool" where
  "flights_typed s \<longleftrightarrow> (\<forall>k v e. lookup (flights s) k = Some (v, e) \<longrightarrow> flightTyped k v)"

lemma createKey_kind: "flightTyped (createKey o1 n) v \<longleftrightarrow> (\<exists>p e. v = FCreateResult p e)"
  by (simp add: flightTyped_def createKey_def createOpts_def GetInstancePortName_def GetInterfacePortName_def
    VMInterfaceName_def PodInterfaceName_def HasPrefix_def)

text \<open>
  A batch of ports. After \<open>UpdatePort\<close> without \<open>wait\<close> has returned, all its tasks read the same
  value of the captured loop variable and hence use the same key. Run one after the other
  they send one creation request each; but when a creation under that key is in flight, the
  whole batch joins it and creates nothing.
\<close>

theorem os_batch_shares_key:
  assumes "ev \<noteq> DeleteE" and "o_Vpc o1 \<noteq> []" "o_Subnet o1 \<noteq> []" and "o_Instance o1 \<noteq> [] \<or> o_Port o1 \<noteq> []"
    and "0 \<le> number" and "create_tasks s = []" and "flights_typed s"
    and up: "os_UpdatePort c o1 number ev False postfn s = (r, s')"
  shows "forEach (runTask call c) (create_tasks s') s' = (Done (),
    if lookup (flights s) (createKey o1 number) = None
    then s'\<lparr>world := ((\<lambda>w. snd (ports_Create c (createOpts o1) w)) ^^ min (nat number) pool_cap) (world s)\<rparr>
    else s')"
proof -
  let ?f = "length (frames s)"
  from up have s': "s' = s\<lparr>frames := frames s @ [\<lparr>fr_wg = zeroStoppableWaitGroup, fr_err = None, fr_i = max 0 number\<rparr>],
      create_tasks := replicate (min (nat number) pool_cap) (CreatePort o1 ?f)\<rparr>"
    using async_UpdatePort [OF assms(1-4), of c number postfn s] assms(6) by simp
  then have i: "fr_i (frames s' ! ?f) = number" and fl: "flights s' = flights s" and w: "world s' = world s"
    and ts: "create_tasks s' = replicate (min (nat number) pool_cap) (CreatePort o1 ?f)"
    using assms(5) by simp_all
  show ?thesis
  proof (cases "lookup (flights s) (createKey o1 number)")
    case None
    then show ?thesis using batch_fresh [of s' o1 ?f call c] by (simp add: i fl w ts)
  next
    case (Some r)
    obtain v e where r: "r = (v, e)" by (cases r)
    with Some assms(7) have "flightTyped (createKey o1 number) v" by (auto simp: flights_typed_def)
    then obtain p e1 where "v = FCreateResult p e1" by (auto simp: createKey_kind)
    with Some r show ?thesis using batch_joined [of s' o1 ?f p e1 e call c] by (simp add: i fl ts)
  qed
qed

theorem os_batch_shares_key_witness:
  "\<exists>s'. os_UpdatePort demoCloud demoOpt 3 CreateE False None demoOs = (Done None, s') \<and>
     forEach (runTask countCall demoCloud) (create_tasks s') s' = (Done (), s'\<lparr>world := 3\<rparr>)"
proof -
  obtain s' where s': "os_UpdatePort demoCloud demoOpt 3 CreateE False None demoOs = (Done None, s')"
    using async_UpdatePort [of CreateE demoOpt demoCloud 3 None demoOs] by (simp add: demo_os)
  have "((\<lambda>w. snd (ports_Create demoCloud (createOpts demoOpt) w)) ^^ min (nat 3) pool_cap) (world demoOs) = 3"
    by (simp add: demo_os pool_cap_def eval_nat_numeral)
  moreover have "flights_typed demoOs" "flights demoOs = []" "create_tasks demoOs = []"
    by (simp_all add: flights_typed_def demoOs_def)
  moreover have "o_Vpc demoOpt \<noteq> []" "o_Subnet demoOpt \<noteq> []" "o_Instance demoOpt \<noteq> [] \<or> o_Port demoOpt \<noteq> []"
    by (simp_all add: demo_os)
  ultimately have "forEach (runTask countCall demoCloud) (create_tasks s') s' = (Done (), s'\<lparr>world := 3\<rparr>)"
    using os_batch_shares_key [OF _ _ _ _ _ _ _ s', of countCall] by simp
  with s' show ?thesis by blast
qed

text \<open>
  Creation keys of one device are distinct for distinct numbers, but the name and the number
  are joined without a separator: two devices can share a key.
\<close>

theorem createKey_injective:
  "(createKey o1 m = createKey o1 n \<longleftrightarrow> m = n) \<and>
   createKey (emptyOpt\<lparr>o_InstanceName := ''node'', o_Instance := ''a''\<rparr>) 11 =
   createKey (emptyOpt\<lparr>o_InstanceName := ''node1'', o_Instance := ''b''\<rparr>) 1"
proof -
  have "dec 11 = ''11''" "dec 1 = ''1''" by code_simp+
  then show ?thesis using Itoa_inject [of m n]
    by (auto simp: createKey_def createOpts_def GetInstancePortName_def emptyOpt_def Itoa_def)
qed

section \<open>Attaching, detaching and assigning\<close>

lemma attachPort_panics:
  assumes "flights_typed s" and "pid \<noteq> []"
  shows "\<exists>w. attachPort call c inst pid [] fn s = (Panic BadAssertion, s\<lparr>world := w\<rparr>) \<and>
    w = (if lookup (flights s) (''ap-'' @ pid) = None then snd (att_Create c inst pid [] (world s)) else world s)"
proof (cases "lookup (flights s) (''ap-'' @ pid)")
  case None
  then show ?thesis using assms(2)
    by (simp add: attachPort_def gp_Do_def inWorld_apply go_simps case_prod_beta)
next
  case (Some r)
  obtain v e where r: "r = (v, e)" by (cases r)
  with Some assms(1) have "flightTyped (''ap-'' @ pid) v" by (auto simp: flights_typed_def)
  then obtain p e1 where "v = FAttachResult p e1"
    by (auto simp: flightTyped_def HasPrefix_def)
  with Some r assms(2) show ?thesis by (simp add: attachPort_def gp_Do_def)
qed

text \<open>
  \<open>UpdateInstancePort\<close> asked to attach a port sends the request (unless the same one is in
  flight) and then always panics, because the result is asserted to have another type. With
  \<open>wait\<close> the panic reaches the caller; otherwise the worker recovers. In both cases the
  callback is never called: the state changes by the request only.
\<close>

theorem os_attach_never_calls_back:
  assumes "flights_typed s" and "o_Instance o1 \<noteq> []" and "o_Port o1 \<noteq> []" and "ev \<noteq> DeleteE"
    and w: "w = (if lookup (flights s) (''ap-'' @ o_Port o1) = None
                 then snd (att_Create c (o_Instance o1) (o_Port o1) [] (world s)) else world s)"
  shows "os_UpdateInstancePort call c o1 ev True fn s = (Panic BadAssertion, s\<lparr>world := w\<rparr>) \<and>
    os_UpdateInstancePort call c o1 ev False fn s = (Done None,
      (if length (att_tasks s) < pool_cap
       then s\<lparr>att_tasks := att_tasks s @ [AttachPort (o_Instance o1) (o_Port o1) fn]\<rparr> else s)) \<and>
    runTask call c (AttachPort (o_Instance o1) (o_Port o1) fn) s = (Done (), s\<lparr>world := w\<rparr>)"
proof -
  have "attachPort call c (o_Instance o1) (o_Port o1) [] fn s = (Panic BadAssertion, s\<lparr>world := w\<rparr>)"
    using attachPort_panics [OF assms(1,3)] w by blast
  with assms(2-4) show ?thesis
    by (cases ev) (simp_all add: os_UpdateInstancePort_def submitAtt_def runTask_def taskBody_def)
qed

theorem os_attach_never_calls_back_witness:
  "os_UpdateInstancePort countCall demoCloud demoOpt CreateE True (Some ()) demoOs =
     (Panic BadAssertion, demoOs\<lparr>world := 1\<rparr>) \<and>
   runTask countCall demoCloud (AttachPort ''i'' ''p'' (Some ())) demoOs = (Done (), demoOs\<lparr>world := 1\<rparr>)"
proof -
  have "flights_typed demoOs" by (simp add: flights_typed_def demoOs_def)
  moreover have "o_Instance demoOpt = ''i''" "o_Port demoOpt = ''p''" "lookup (flights demoOs) k = None"
      "snd (att_Create demoCloud ''i'' ''p'' [] (world demoOs)) = 1" for k by (simp_all add: demo_os)
  ultimately show ?thesis
    using os_attach_never_calls_back [of demoOs demoOpt CreateE 1 demoCloud countCall "Some ()"] by simp
qed

text \<open>
  Assigning addresses : the task of \<open>UpdateInterfacePort\<close> sends the pairs once and calls the
  callback with the description of the answered port; when the answer carries no address, as
  every failed one does, the callback is not called.
\<close>

theorem os_assign_calls_back:
  assumes "lookup (flights s) (''asp-'' @ mid) = None"
    and "pairs_Add c mid pair (world s) = ((p, e), w)"
  shows "runTask call c (AssignPort mid pair (Some cb)) s =
    (case fromPorts p of
       Done i \<Rightarrow> recover (call cb i) (s\<lparr>world := w\<rparr>)
     | _ \<Rightarrow> (Done (), s\<lparr>world := w\<rparr>))"
  using assms
  by (cases "fromPorts p")
    (auto simp: runTask_def taskBody_def assignPort_def gp_Do_def notify_def recover_def go_simps
      fromPorts_def split: prod.splits outcome.splits list.splits)

theorem os_assign_calls_back_witness:
  "runTask countCall demoCloud (AssignPort ''m'' [] (Some ())) demoOs = (Done (), demoOs\<lparr>world := 101\<rparr>)"
  using os_assign_calls_back [of demoOs "''m''" demoCloud "[]" "demoPort ''m'' ''10.0.0.7''" None 1 countCall "()"]
  by (simp add: demo_os fromPorts_def countCall_def)

end
