(* ===== verification/Infraops.thy ===== *)
theory Infraops
  imports Openstack Vpc_Manager
begin

text \<open>
  \<open>src/pkg/vpc/infraops.go\<close>: turns the event of a subnet into requests to the infrastructure. The
  variables that callbacks capture, the \<open>sync.WaitGroup\<close> and the map of address pairs of one call
  of \<open>processSubnatWork\<close>, live in a store of frames; a callback is the index of the frame whose wait
  group it decrements. The state extends that of the OpenStack client, which holds the tasks
  the requests are handed to. Clearing the slice \<open>ps\<close> in a callback has no effect, as nothing reads
  it afterwards.
\<close>

section \<open>State\<close>

record opsFrame =
  of_wg :: int
  of_pairs :: "AddressPair list gomap"

text \<open>A callback of this component: \<open>wg.Done()\<close> on the group of a frame.\<close>

datatype ops_cb = WgDone nat

record 'w ops_state = "('w, ops_cb) os_state" +
  ops_frames :: "opsFrame list"
  snevch :: "subnatEvent option list"

definition snevch_cap :: nat where
  "snevch_cap = 128"

definition HandleSubnatEvent :: "subnatEvent option \<Rightarrow> (('w, 'z) ops_state_scheme, unit) go" where
  "HandleSubnatEvent ev = modify (\<lambda>s. if length (snevch s) < snevch_cap then s\<lparr>snevch := snevch s @ [ev]\<rparr> else s)"

section \<open>Frames\<close>

definition onFrame :: "nat \<Rightarrow> (opsFrame \<Rightarrow> opsFrame) \<Rightarrow> (('w, 'z) ops_state_scheme, unit) go" where
  "onFrame f g = modify (\<lambda>s. s\<lparr>ops_frames := (ops_frames s)[f := g (ops_frames s ! f)]\<rparr>)"

text \<open>\<open>wg.Add(n)\<close>, with the panic of \<open>sync\<close> when the counter becomes negative.\<close>

definition wg_Add :: "nat \<Rightarrow> int \<Rightarrow> (('w, 'z) ops_state_scheme, unit) go" where
  "wg_Add f n = andThen (onFrame f (\<lambda>fr. fr\<lparr>of_wg := of_wg fr + n\<rparr>)) (\<lambda>_.
     andThen (gets (\<lambda>s. of_wg (ops_frames s ! f))) (\<lambda>k. if k < 0 then raise NegativeCounter else ret ()))"

definition wg_Wait :: "nat \<Rightarrow> (('w, 'z) ops_state_scheme, unit) go" where
  "wg_Wait f = andThen (gets (\<lambda>s. of_wg (ops_frames s ! f))) (\<lambda>k. if k = 0 then ret () else block)"

fun ops_call :: "ops_cb \<Rightarrow> Interface \<Rightarrow> (('w, 'z) ops_state_scheme, unit) go" where
  "ops_call (WgDone f) i = wg_Add f (-1)"

definition addPair :: "nat \<Rightarrow> string \<Rightarrow> AddressPair \<Rightarrow> (('w, 'z) ops_state_scheme, unit) go" where
  "addPair f k pa = onFrame f (\<lambda>fr. fr\<lparr>of_pairs := AList.update k
     ((case lookup (of_pairs fr) k of Some ps \<Rightarrow> ps | None \<Rightarrow> []) @ [pa]) (of_pairs fr)\<rparr>)"

fun asPair :: "goval \<Rightarrow> AddressPair outcome" where
  "asPair (GPair i m) = Done \<lparr>ap_Ip = i, ap_Mac = m\<rparr>"
| "asPair _ = Panic BadAssertion"

section \<open>Processing the event of a subnet\<close>

text \<open>Asking for new ports; what \<open>UpdatePort\<close> returns is ignored.\<close>

definition requestPorts ::
  "(('w, 'z) ops_state_scheme, ops_cb) infra_client \<Rightarrow> nat \<Rightarrow> Opt \<Rightarrow> int \<Rightarrow> (('w, 'z) ops_state_scheme, unit) go" where
  "requestPorts api f o1 n =
     (if n \<noteq> 0
      then andThen (wg_Add f 1) (\<lambda>_. andThen (ic_UpdatePort api o1 n CreateE False (Some (WgDone f))) (\<lambda>_. ret ()))
      else ret ())"

definition nodeOpt :: "subnatEvent \<Rightarrow> nodeEvent \<Rightarrow> Opt" where
  "nodeOpt ev no = emptyOpt\<lparr>o_Instance := ne_nodeId no, o_InstanceName := ne_nodeName no, o_Subnet := se_subnatId ev,
     o_Project := se_projectId ev, o_Vpc := se_vpcId ev\<rparr>"

definition poolOpt :: "subnatEvent \<Rightarrow> poolEvent \<Rightarrow> Opt" where
  "poolOpt ev po = emptyOpt\<lparr>o_Port := pe_mainId po, o_Subnet := se_subnatId ev, o_Project := se_projectId ev, o_Vpc := se_vpcId ev\<rparr>"

definition createStage ::
  "(('w, 'z) ops_state_scheme, ops_cb) infra_client \<Rightarrow> nat \<Rightarrow> subnatEvent \<Rightarrow> (('w, 'z) ops_state_scheme, unit) go" where
  "createStage api f ev = forEach (\<lambda>no. andThen (requestPorts api f (nodeOpt ev no) (ne_add no)) (\<lambda>_.
     forEach (\<lambda>po. requestPorts api f (poolOpt ev po) (pe_add po)) (ne_pools no))) (se_nodes ev)"

text \<open>The local maps \<open>nodes\<close> and \<open>ifs\<close>; they are complete before they are read.\<close>

definition instances :: "subnatEvent \<Rightarrow> Instance gomap" where
  "instances ev = foldl (\<lambda>m no. AList.update (ne_nodeName no)
     \<lparr>is_Id = ne_nodeId no, is_DefaultIp = ne_defaultIp no, is_NodeName = ne_nodeName no, is_Interface = Some []\<rparr> m)
     [] (se_nodes ev)"

definition interfaces :: "subnatEvent \<Rightarrow> Interface gomap" where
  "interfaces ev = foldl (\<lambda>m (no, po). AList.update (pe_mainId po)
     (Interface [] (pe_mainId po) (ne_defaultIp no) (se_subnatId ev) [] (Some [])) m)
     [] (concat (map (\<lambda>no. map (Pair no) (ne_pools no)) (se_nodes ev)))"

text \<open>The callback handed to \<open>EachInterface\<close>.\<close>

definition visitInterface ::
  "(('w, 'z) ops_state_scheme, ops_cb) infra_client \<Rightarrow> nat \<Rightarrow> Instance gomap \<Rightarrow> Interface gomap \<Rightarrow>
   Interface option \<Rightarrow> (('w, 'z) ops_state_scheme, bool \<times> err) go" where
  "visitInterface api f nos ifs ifinfo = (case ifinfo of
      None \<Rightarrow> ret (True, None)
    | Some i \<Rightarrow>
        (let podPart =
           (if HasPrefix (if_Name i) PodInterfaceName then
              (let mainid = TrimPrefix (if_Name i) PodInterfaceName in
               if lookup ifs mainid = None then ret (True, None)
               else andThen (addPair f mainid \<lparr>ap_Ip = if_Ip i, ap_Mac = if_Mac i\<rparr>) (\<lambda>_. ret (True, None)))
            else ret (True, None))
         in if if_Ip i = [] then ret (True, None)
         else if HasPrefix (if_Name i) VMInterfaceName then
           (case lookup nos (TrimPrefix (if_Name i) VMInterfaceName) of
              None \<Rightarrow> ret (True, None)
            | Some no \<Rightarrow>
                if lookup (mapEntries (is_Interface no)) (if_Id i) \<noteq> None then ret (True, None)
                else andThen (wg_Add f 1) (\<lambda>_.
                  andThen (ic_UpdateInstancePort api (emptyOpt\<lparr>o_Instance := is_Id no, o_Port := if_Id i\<rparr>)
                    CreateE False (Some (WgDone f))) (\<lambda>_. podPart)))
         else podPart))"

text \<open>\<open>for id, ps := range pairs\<close> with one request per entry.\<close>

definition sendPairs ::
  "(('w, 'z) ops_state_scheme, ops_cb) infra_client \<Rightarrow> nat \<Rightarrow> Event \<Rightarrow> (('w, 'z) ops_state_scheme, unit) go" where
  "sendPairs api f ev = andThen (gets (\<lambda>s. of_pairs (ops_frames s ! f))) (\<lambda>m. andThen (rangeOrder m) (\<lambda>kvs.
     forEach (\<lambda>(k, ps). andThen (wg_Add f 1) (\<lambda>_.
       andThen (ic_UpdateInterfacePort api k (Some ps) ev False (Some (WgDone f))) (\<lambda>_. ret ()))) kvs))"

definition removeStage ::
  "(('w, 'z) ops_state_scheme, ops_cb) infra_client \<Rightarrow> nat \<Rightarrow> subnatEvent \<Rightarrow> (('w, 'z) ops_state_scheme, unit) go" where
  "removeStage api f ev = forEach (\<lambda>no.
     andThen (set_Values (ne_remove no)) (\<lambda>mids.
     andThen (forEach (\<lambda>mid. andThen (lift (asString mid)) (\<lambda>pid.
       andThen (wg_Add f 1) (\<lambda>_.
       andThen (ic_UpdateInstancePort api (emptyOpt\<lparr>o_Instance := ne_nodeId no, o_Port := pid\<rparr>) DeleteE False
         (Some (WgDone f))) (\<lambda>_. ret ())))) mids) (\<lambda>_.
     forEach (\<lambda>po. andThen (set_Values (pe_remove po)) (\<lambda>ims.
       forEach (\<lambda>im. andThen (lift (asPair im)) (\<lambda>pa.
         andThen (wg_Add f 1) (\<lambda>_. addPair f (ne_nodeId no) pa))) ims)) (ne_pools no)))) (se_nodes ev)"

definition newOpsFrame :: "(('w, 'z) ops_state_scheme, nat) go" where
  "newOpsFrame = andThen (gets (\<lambda>s. length (ops_frames s))) (\<lambda>f.
     andThen (modify (\<lambda>s. s\<lparr>ops_frames := ops_frames s @ [\<lparr>of_wg = 0, of_pairs = []\<rparr>]\<rparr>)) (\<lambda>_. ret f))"

definition processSubnatWork ::
  "(('w, 'z) ops_state_scheme, ops_cb) infra_client \<Rightarrow> subnatEvent option \<Rightarrow> (('w, 'z) ops_state_scheme, unit) go" where
  "processSubnatWork api ev1 = (case ev1 of
      None \<Rightarrow> ret ()
    | Some ev \<Rightarrow> andThen newOpsFrame (\<lambda>f.
        andThen (createStage api f ev) (\<lambda>_.
        andThen (wg_Wait f) (\<lambda>_.
        andThen (ic_EachInterface api
            (emptyOpt\<lparr>o_Project := se_projectId ev, o_Vpc := se_vpcId ev, o_Subnet := se_subnatId ev\<rparr>)
            (visitInterface api f (instances ev) (interfaces ev))) (\<lambda>err.
        if err \<noteq> None then ret ()
        else
          andThen (sendPairs api f CreateE) (\<lambda>_.
          andThen (onFrame f (\<lambda>fr. fr\<lparr>of_pairs := []\<rparr>)) (\<lambda>_.
          andThen (removeStage api f ev) (\<lambda>_.
          andThen (sendPairs api f DeleteE) (\<lambda>_.
          wg_Wait f)))))))))"

text \<open>One turn of \<open>run\<close>: an event from the channel, or nothing to do yet.\<close>

definition ops_run ::
  "(('w, 'z) ops_state_scheme, ops_cb) infra_client \<Rightarrow> (('w, 'z) ops_state_scheme, unit) go" where
  "ops_run api = andThen (gets snevch) (\<lambda>ch. case ch of
      [] \<Rightarrow> block
    | v # rest \<Rightarrow> andThen (modify (\<lambda>s. s\<lparr>snevch := rest\<rparr>)) (\<lambda>_. processSubnatWork api v))"

lemma HandleSubnatEvent_bounded:
  "length (snevch s) \<le> snevch_cap \<Longrightarrow> length (snevch (snd (HandleSubnatEvent ev s))) \<le> snevch_cap"
  by (simp add: HandleSubnatEvent_def)

section \<open>Requesting ports\<close>

definition requests :: "subnatEvent \<Rightarrow> int list" where
  "requests ev = filter (\<lambda>n. n \<noteq> 0) (concat (map (\<lambda>no. ne_add no # map pe_add (ne_pools no)) (se_nodes ev)))"

text \<open>
  What the creation stage leaves alone: all but the accepted creation tasks, the frames of the
  client and the wait group, and no accepted task carries a callback.
\<close>

definition plain :: "'cb task \<Rightarrow> bool" where
  "plain t = (case t of CreatePort _ _ \<Rightarrow> True | _ \<Rightarrow> False)"

definition quiet :: "nat \<Rightarrow> int \<Rightarrow> ('w, 'z) ops_state_scheme \<Rightarrow> ('w, 'z) ops_state_scheme \<Rightarrow> bool" where
  "quiet f n s s' \<longleftrightarrow> world s' = world s \<and> tape s' = tape s \<and> att_tasks s' = att_tasks s \<and> flights s' = flights s \<and>
     (\<exists>ts. create_tasks s' = create_tasks s @ ts \<and> (\<forall>t\<in>set ts. plain t)) \<and>
     ops_frames s' = (ops_frames s)[f := (ops_frames s ! f)\<lparr>of_wg := of_wg (ops_frames s ! f) + n\<rparr>]"

lemma quiet_refl [simp]: "quiet f 0 s s"
  by (simp add: quiet_def list_update_id)

lemma quiet_trans:
  assumes "quiet f m s s1" and "quiet f n s1 s2" and "f < length (ops_frames s)"
  shows "quiet f (m + n) s s2"
proof -
  obtain ts1 ts2 where "create_tasks s1 = create_tasks s @ ts1" "\<forall>t\<in>set ts1. plain t"
      "create_tasks s2 = create_tasks s1 @ ts2" "\<forall>t\<in>set ts2. plain t"
    using assms(1,2) unfolding quiet_def by blast
  then have "\<exists>ts. create_tasks s2 = create_tasks s @ ts \<and> (\<forall>t\<in>set ts. plain t)"
    by (intro exI [of _ "ts1 @ ts2"]) auto
  then show ?thesis using assms by (simp add: quiet_def ac_simps)
qed

lemma quiet_length: "quiet f n s s' \<Longrightarrow> length (ops_frames s') = length (ops_frames s)"
  by (auto simp: quiet_def)

lemma os_UpdatePort_quiet:
  fixes s :: "('w, 'z) ops_state_scheme"
  obtains e s' where "os_UpdatePort c o1 n CreateE False postfn s = (Done e, s')" and "quiet f 0 s s'"
proof (cases "o_Vpc o1 \<noteq> [] \<and> o_Subnet o1 \<noteq> [] \<and> (o_Instance o1 \<noteq> [] \<or> o_Port o1 \<noteq> [])")
  case True
  then have run: "os_UpdatePort c o1 n CreateE False postfn s = (Done None,
      s\<lparr>frames := frames s @ [\<lparr>fr_wg = zeroStoppableWaitGroup, fr_err = None, fr_i = max 0 n\<rparr>],
        create_tasks := create_tasks s @
          replicate (min (nat n) (pool_cap - length (create_tasks s))) (CreatePort o1 (length (frames s)))\<rparr>)"
    by (intro async_UpdatePort) simp_all
  show thesis by (rule that [OF run]) (simp add: quiet_def plain_def)
next
  case False
  then have "\<exists>e. os_UpdatePort c o1 n CreateE False postfn s = (Done e, s)" by (auto simp: os_UpdatePort_def)
  then show thesis using that [of _ s] by auto
qed

definition count0 :: "int list \<Rightarrow> int" where
  "count0 ns = int (length (filter (\<lambda>n. n \<noteq> 0) ns))"

lemma count0_simps [simp]: "count0 [] = 0" "count0 (n # ns) = (if n \<noteq> 0 then 1 else 0) + count0 ns"
  "count0 (ms @ ns) = count0 ms + count0 ns"
  by (simp_all add: count0_def)

lemma count0_nonneg [simp]: "0 \<le> count0 ns"
  by (simp add: count0_def)

text \<open>A loop whose iterations are quiet is quiet.\<close>

lemma forEach_quiet:
  fixes s :: "('w, 'z) ops_state_scheme"
  assumes step: "\<And>x s. f < length (ops_frames s) \<Longrightarrow> of_wg (ops_frames s ! f) \<ge> 0 \<Longrightarrow>
      \<exists>s'. body x (s :: ('w, 'z) ops_state_scheme) = (Done (), s') \<and> quiet f (count0 (ns x)) s s'"
    and "f < length (ops_frames s)" and "of_wg (ops_frames s ! f) \<ge> 0"
  shows "\<exists>s'. forEach body xs s = (Done (), s') \<and> quiet f (count0 (concat (map ns xs))) s s'"
  using assms(2,3)
proof (induction xs arbitrary: s)
  case Nil
  show ?case by simp
next
  case (Cons x xs)
  obtain s1 where s1: "body x s = (Done (), s1)" "quiet f (count0 (ns x)) s s1" using step Cons.prems by blast
  have l: "f < length (ops_frames s1)" using quiet_length [OF s1(2)] Cons.prems(1) by simp
  have "of_wg (ops_frames s1 ! f) = of_wg (ops_frames s ! f) + count0 (ns x)"
    using s1(2) Cons.prems(1) by (auto simp: quiet_def)
  with Cons.prems(2) have "of_wg (ops_frames s1 ! f) \<ge> 0" by simp
  from Cons.IH [OF l this] obtain s2 where s2: "forEach body xs s1 = (Done (), s2)"
    "quiet f (count0 (concat (map ns xs))) s1 s2" by blast
  from quiet_trans [OF s1(2) s2(2) Cons.prems(1)] s1(1) s2(1) show ?case by auto
qed

lemma newOpsFrame_apply: "newOpsFrame s = (Done (length (ops_frames s)),
    s\<lparr>ops_frames := ops_frames s @ [\<lparr>of_wg = 0, of_pairs = []\<rparr>]\<rparr>)"
  by (simp add: newOpsFrame_def)

text \<open>
  The contract \<open>processSubnatWork\<close> meets: a client whose asynchronous creation returns at once and
  forgets the callback.
\<close>

locale deferring_client =
  fixes api :: "(('w, 'z) ops_state_scheme, ops_cb) infra_client"
  assumes update_quiet: "\<exists>e s'. ic_UpdatePort api o1 n CreateE False cb s = (Done e, s') \<and> quiet f 0 s s'"
begin

lemma requestPorts_quiet:
  assumes "f < length (ops_frames s)" and "of_wg (ops_frames s ! f) \<ge> 0"
  obtains s' where "requestPorts api f o1 n s = (Done (), s')"
    and "quiet f (if n \<noteq> 0 then 1 else 0) s s'"
proof (cases "n = 0")
  case True
  then show thesis using that [of s] by (simp add: requestPorts_def)
next
  case False
  let ?s = "s\<lparr>ops_frames := (ops_frames s)[f := (ops_frames s ! f)\<lparr>of_wg := of_wg (ops_frames s ! f) + 1\<rparr>]\<rparr>"
  obtain e s' where s': "ic_UpdatePort api o1 n CreateE False (Some (WgDone f)) ?s = (Done e, s')" "quiet f 0 ?s s'"
    using update_quiet by blast
  have "quiet f 1 s ?s" by (simp add: quiet_def)
  from quiet_trans [OF this s'(2)] assms(1) have "quiet f 1 s s'" by simp
  moreover have "wg_Add f 1 s = (Done (), ?s)" using assms by (simp add: wg_Add_def onFrame_def)
  ultimately show thesis using False s'(1) that [of s'] by (simp add: requestPorts_def)
qed

lemma createStage_quiet:
  assumes "f < length (ops_frames s)" and "of_wg (ops_frames s ! f) \<ge> 0"
  shows "\<exists>s'. createStage api f ev s = (Done (), s') \<and>
    quiet f (int (length (requests ev))) s s'"
proof -
  have req: "\<exists>s'. requestPorts api f o1 n s = (Done (), s') \<and> quiet f (count0 [n]) s s'"
    if "f < length (ops_frames s)" "of_wg (ops_frames s ! f) \<ge> 0" for o1 n and s :: "('w, 'z) ops_state_scheme"
    by (rule requestPorts_quiet [OF that, of o1 n]) auto
  have pools: "\<exists>s'. forEach (\<lambda>po. requestPorts api f (poolOpt ev po) (pe_add po)) pos s = (Done (), s') \<and>
      quiet f (count0 (concat (map (\<lambda>po. [pe_add po]) pos))) s s'"
    if "f < length (ops_frames s)" "of_wg (ops_frames s ! f) \<ge> 0" for pos and s :: "('w, 'z) ops_state_scheme"
    by (rule forEach_quiet [OF req that])
  have node: "\<exists>s'. andThen (requestPorts api f (nodeOpt ev no) (ne_add no)) (\<lambda>_.
        forEach (\<lambda>po. requestPorts api f (poolOpt ev po) (pe_add po)) (ne_pools no)) s = (Done (), s') \<and>
      quiet f (count0 (ne_add no # map pe_add (ne_pools no))) s s'"
    if pre: "f < length (ops_frames s)" "of_wg (ops_frames s ! f) \<ge> 0" for no and s :: "('w, 'z) ops_state_scheme"
  proof -
    obtain s1 where s1: "requestPorts api f (nodeOpt ev no) (ne_add no) s = (Done (), s1)" "quiet f (count0 [ne_add no]) s s1"
      using req [OF pre] by blast
    have "of_wg (ops_frames s1 ! f) = of_wg (ops_frames s ! f) + count0 [ne_add no]"
      using s1(2) pre(1) by (auto simp: quiet_def)
    then obtain s2 where s2: "forEach (\<lambda>po. requestPorts api f (poolOpt ev po) (pe_add po)) (ne_pools no) s1 = (Done (), s2)"
        "quiet f (count0 (concat (map (\<lambda>po. [pe_add po]) (ne_pools no)))) s1 s2"
      using pools [of s1 "ne_pools no"] quiet_length [OF s1(2)] pre by (auto simp del: count0_simps)
    have "concat (map (\<lambda>po. [pe_add po]) (ne_pools no)) = map pe_add (ne_pools no)" by (induction "ne_pools no") auto
    with quiet_trans [OF s1(2) s2(2) pre(1)] s1(1) s2(1) show ?thesis by auto
  qed
  have "\<exists>s'. createStage api f ev s = (Done (), s') \<and>
      quiet f (count0 (concat (map (\<lambda>no. ne_add no # map pe_add (ne_pools no)) (se_nodes ev)))) s s'"
    unfolding createStage_def by (rule forEach_quiet [OF node assms])
  then show ?thesis by (simp add: requests_def count0_def)
qed

lemma process_blocks:
  assumes "requests ev \<noteq> []"
  shows "\<exists>s'. processSubnatWork api (Some ev) s = (Blocked, s') \<and>
    quiet (length (ops_frames s)) (int (length (requests ev)))
      (s\<lparr>ops_frames := ops_frames s @ [\<lparr>of_wg = 0, of_pairs = []\<rparr>]\<rparr>) s'"
proof -
  let ?f = "length (ops_frames s)" and ?s = "s\<lparr>ops_frames := ops_frames s @ [\<lparr>of_wg = 0, of_pairs = []\<rparr>]\<rparr>"
  obtain s' where s': "createStage api ?f ev ?s = (Done (), s')" "quiet ?f (int (length (requests ev))) ?s s'"
    using createStage_quiet [of ?f ?s ev] by auto
  then have "of_wg (ops_frames s' ! ?f) = int (length (requests ev))" by (auto simp: quiet_def)
  with s'(1) assms have "processSubnatWork api (Some ev) s = (Blocked, s')"
    by (simp add: processSubnatWork_def newOpsFrame_apply wg_Wait_def)
  with s'(2) show ?thesis by blast
qed

end

interpretation osc: deferring_client "openstack_client ops_call c" for c :: "'w cloud"
proof
  fix o1 n cb f and s :: "('w, 'z) ops_state_scheme"
  obtain e s' where "os_UpdatePort c o1 n CreateE False cb s = (Done e, s')" "quiet f 0 s s'"
    by (rule os_UpdatePort_quiet)
  then show "\<exists>e s'. ic_UpdatePort (openstack_client ops_call c) o1 n CreateE False cb s = (Done e, s') \<and> quiet f 0 s s'"
    by (simp add: openstack_client_def)
qed

lemma keeps_runTask_plain:
  fixes c :: "'w cloud"
  assumes "plain t"
  shows "keeps ops_frames (runTask call c t :: (('w, 'z) ops_state_scheme, unit) go)"
proof -
  obtain o1 g where t: "t = CreatePort o1 g" using assms by (auto simp: plain_def split: task.splits)
  have "keeps ops_frames (taskBody call c t :: (('w, 'z) ops_state_scheme, unit) go)"
    unfolding t taskBody_def task.case createPort_def gp_Do_def
    by (intro keeps_intro) simp_all
  then show ?thesis by (auto simp: keeps_def runTask_def recover_def split: prod.splits outcome.splits)
      (metis snd_conv)+
qed

text \<open>
  \<open>processSubnatWork\<close> (C28) with the OpenStack client, on an event that asks for a new port anywhere,
  never gets past its first wait: the wait group counts one for each request, while the requests
  drop the callbacks that should count it down. Running all the accepted tasks does not release it.
\<close>

theorem processSubnatWork_stuck:
  fixes s :: "('w, 'z) ops_state_scheme"
  assumes "requests ev \<noteq> []"
  shows "\<exists>s' ts. processSubnatWork (openstack_client ops_call c) (Some ev) s = (Blocked, s') \<and>
    world s' = world s \<and> att_tasks s' = att_tasks s \<and> create_tasks s' = create_tasks s @ ts \<and>
    of_wg (ops_frames s' ! length (ops_frames s)) = int (length (requests ev)) \<and>
    ops_frames (snd (forEach (runTask ops_call c) ts s')) = ops_frames s'"
proof -
  let ?f = "length (ops_frames s)" and ?s = "s\<lparr>ops_frames := ops_frames s @ [\<lparr>of_wg = 0, of_pairs = []\<rparr>]\<rparr>"
  obtain s' where s': "processSubnatWork (openstack_client ops_call c) (Some ev) s = (Blocked, s')"
      "quiet ?f (int (length (requests ev))) ?s s'"
    using osc.process_blocks [OF assms, of c s] by blast
  then obtain ts where ts: "create_tasks s' = create_tasks s @ ts" "\<forall>t\<in>set ts. plain t"
      and w: "world s' = world s" "att_tasks s' = att_tasks s"
      and n: "of_wg (ops_frames s' ! ?f) = int (length (requests ev))"
    by (auto simp: quiet_def)
  have "keeps ops_frames (forEach (runTask ops_call c) ts :: (('w, 'z) ops_state_scheme, unit) go)"
    using ts(2)
  proof (induction ts)
    case (Cons t ts)
    then show ?case by (auto intro!: keeps_andThen keeps_runTask_plain)
  qed simp
  then have "ops_frames (snd (forEach (runTask ops_call c) ts s')) = ops_frames s'" by (rule keeps_snd)
  with s'(1) ts(1) w n show ?thesis by blast
qed

section \<open>Events without requests\<close>

lemma createStage_none:
  assumes "requests ev = []"
  shows "createStage api f ev s = (Done (), s)"
proof -
  have zero: "ne_add no = 0 \<and> (\<forall>po\<in>set (ne_pools no). pe_add po = 0)" if "no \<in> set (se_nodes ev)" for no
    using assms that unfolding requests_def filter_empty_conv by auto
  have "forEach (\<lambda>po. requestPorts api f (poolOpt ev po) (pe_add po)) pos s = (Done (), s)"
    if "\<forall>po\<in>set pos. pe_add po = 0" for pos
    using that by (induction pos) (simp_all add: requestPorts_def)
  then have node: "andThen (requestPorts api f (nodeOpt ev no) (ne_add no)) (\<lambda>_.
      forEach (\<lambda>po. requestPorts api f (poolOpt ev po) (pe_add po)) (ne_pools no)) s = (Done (), s)"
    if "no \<in> set (se_nodes ev)" for no using zero [OF that] by (simp add: requestPorts_def)
  have "forEach (\<lambda>no. andThen (requestPorts api f (nodeOpt ev no) (ne_add no)) (\<lambda>_.
      forEach (\<lambda>po. requestPorts api f (poolOpt ev po) (pe_add po)) (ne_pools no))) nos s = (Done (), s)"
    if "set nos \<subseteq> set (se_nodes ev)" for nos
    using that by (induction nos) (simp_all add: node)
  then show ?thesis by (simp add: createStage_def)
qed

lemma visit_nothing: "visitInterface api f [] [] i = ret (True, None)"
  by (auto simp: visitInterface_def Let_def split: option.splits)

lemma eachPage_idle:
  assumes "\<And>i. fn i = ret (True, None)"
  shows "\<exists>e. eachPage (pageLoop fn) pages s = (Done e, s)"
proof -
  have "pageLoop fn ps = ret (True, None)" for ps
    by (induction ps) (simp_all add: assms split: list.splits)
  then have "eachPage (pageLoop fn) (Page ps # pages) =
      (if ps = [] then ret None else eachPage (pageLoop fn) pages)" for ps pages by simp
  then show ?thesis
  proof (induction pages)
    case (Cons p pages)
    then show ?case by (cases p) (simp_all del: eachPage.simps(3))
  qed simp
qed

lemma set_Values_Some_Nil: "\<exists>t. set_Values (Some []) s = (Done [], s\<lparr>tape := t\<rparr>)"
  by (rule rangeOrder_Done [of "[]" s]) (auto simp: set_Values_def)

lemma sendPairs_none:
  assumes "of_pairs (ops_frames s ! f) = []"
  shows "\<exists>t. sendPairs api f ev s = (Done (), s\<lparr>tape := t\<rparr>)"
  by (rule rangeOrder_Done [of "[] :: (string \<times> AddressPair list) list" s]) (auto simp: sendPairs_def assms)

text \<open>The part of \<open>processSubnatWork\<close> before the removals, on an event without requests and an empty listing.\<close>

lemma process_to_removal:
  fixes s :: "('w, 'z) ops_state_scheme"
  assumes "requests ev = []" and "se_subnatId ev \<noteq> []"
    and "ports_List c (listOpts (emptyOpt\<lparr>o_Project := se_projectId ev, o_Vpc := se_vpcId ev, o_Subnet := se_subnatId ev\<rparr>))
      (world s) = (pages, w)"
    and idle: "\<And>f i. visitInterface (openstack_client ops_call c) f (instances ev) (interfaces ev) i =
      (ret (True, None) :: (('w, 'z) ops_state_scheme, bool \<times> err) go) \<or> pages = []"
  shows "\<exists>(e :: err) s1. s1 = s\<lparr>ops_frames := ops_frames s @ [\<lparr>of_wg = 0, of_pairs = []\<rparr>], world := w\<rparr> \<and>
    (\<exists>t. processSubnatWork (openstack_client ops_call c) (Some ev) s =
      (if e \<noteq> None then (Done (), s1)
       else andThen (removeStage (openstack_client ops_call c) (length (ops_frames s)) ev) (\<lambda>_.
         andThen (sendPairs (openstack_client ops_call c) (length (ops_frames s)) DeleteE) (\<lambda>_.
         wg_Wait (length (ops_frames s)))) (s1\<lparr>tape := t\<rparr>))) \<and> (pages = [] \<longrightarrow> e = None)"
proof -
  let ?api = "openstack_client ops_call c" and ?f = "length (ops_frames s)"
  let ?o = "emptyOpt\<lparr>o_Project := se_projectId ev, o_Vpc := se_vpcId ev, o_Subnet := se_subnatId ev\<rparr>"
  let ?s0 = "s\<lparr>ops_frames := ops_frames s @ [\<lparr>of_wg = 0, of_pairs = []\<rparr>]\<rparr>"
  let ?s1 = "?s0\<lparr>world := w\<rparr>"
  have "\<exists>e. eachPage (pageLoop (visitInterface ?api ?f (instances ev) (interfaces ev))) pages ?s1 = (Done e, ?s1) \<and>
      (pages = [] \<longrightarrow> e = None)"
  proof (cases "pages = []")
    case False
    with idle have "visitInterface ?api ?f (instances ev) (interfaces ev) i =
        (ret (True, None) :: (('w, 'z) ops_state_scheme, bool \<times> err) go)" for i by blast
    from eachPage_idle [where fn = "visitInterface ?api ?f (instances ev) (interfaces ev)" and pages = pages and s = ?s1, OF this]
      False show ?thesis by blast
  qed simp
  then obtain e where e: "eachPage (pageLoop (visitInterface ?api ?f (instances ev) (interfaces ev))) pages ?s1 = (Done e, ?s1)"
    "pages = [] \<longrightarrow> e = None" by blast
  have list: "os_EachInterface c ?o (visitInterface ?api ?f (instances ev) (interfaces ev)) ?s0 = (Done e, ?s1)"
    using assms(2,3) e(1) by (simp add: os_EachInterface_def)
  obtain t where t: "sendPairs ?api ?f CreateE ?s1 = (Done (), ?s1\<lparr>tape := t\<rparr>)"
    using sendPairs_none [of ?s1 ?f ?api CreateE] by auto
  have clr: "onFrame ?f (\<lambda>fr. fr\<lparr>of_pairs := []\<rparr>) (?s1\<lparr>tape := t\<rparr>) = (Done (), ?s1\<lparr>tape := t\<rparr>)"
    by (cases s) (simp add: onFrame_def)
  have each: "ic_EachInterface ?api = os_EachInterface c" by (simp add: openstack_client_def)
  have "processSubnatWork ?api (Some ev) s = (if e \<noteq> None then (Done (), ?s1)
       else andThen (removeStage ?api ?f ev) (\<lambda>_. andThen (sendPairs ?api ?f DeleteE) (\<lambda>_. wg_Wait ?f)) (?s1\<lparr>tape := t\<rparr>))"
    using list t clr createStage_none [OF assms(1), of ?api ?f ?s0]
    by (simp add: processSubnatWork_def newOpsFrame_apply wg_Wait_def each)
  with e(2) show ?thesis by (intro exI [of _ e] exI [of _ ?s1] conjI exI [of _ t]) simp_all
qed

text \<open>
  An event without nodes, the only kind \<open>getSubnatEvent\<close> returns, makes \<open>processSubnatWork\<close> list the
  ports of the subnet and do nothing else: it always returns, and no task is submitted.
\<close>

lemma process_no_nodes:
  fixes s :: "('w, 'z) ops_state_scheme"
  assumes "se_nodes ev = []" and "se_subnatId ev \<noteq> []"
    and "ports_List c (listOpts (emptyOpt\<lparr>o_Project := se_projectId ev, o_Vpc := se_vpcId ev, o_Subnet := se_subnatId ev\<rparr>))
      (world s) = (pages, w)"
  shows "\<exists>t. processSubnatWork (openstack_client ops_call c) (Some ev) s =
    (Done (), s\<lparr>ops_frames := ops_frames s @ [\<lparr>of_wg = 0, of_pairs = []\<rparr>], world := w, tape := t\<rparr>)"
proof -
  let ?api = "openstack_client ops_call c" and ?f = "length (ops_frames s)"
  have maps: "requests ev = []" "instances ev = []" "interfaces ev = []"
    using assms(1) by (simp_all add: requests_def instances_def interfaces_def)
  have idle: "visitInterface ?api f (instances ev) (interfaces ev) i =
      (ret (True, None) :: (('w, 'z) ops_state_scheme, bool \<times> err) go) \<or> pages = []" for f i
    unfolding maps(2,3) by (simp add: visit_nothing)
  obtain s1 t and e :: err where s1: "s1 = s\<lparr>ops_frames := ops_frames s @ [\<lparr>of_wg = 0, of_pairs = []\<rparr>], world := w\<rparr>"
    and run: "processSubnatWork ?api (Some ev) s = (if e \<noteq> None then (Done (), s1)
       else andThen (removeStage ?api ?f ev) (\<lambda>_. andThen (sendPairs ?api ?f DeleteE) (\<lambda>_. wg_Wait ?f)) (s1\<lparr>tape := t\<rparr>))"
    using process_to_removal [OF maps(1) assms(2,3) idle] by (elim exE conjE) (rule that)
  show ?thesis
  proof (cases "e = None")
    case False
    then have "processSubnatWork ?api (Some ev) s = (Done (), s1\<lparr>tape := tape s1\<rparr>)" using run by simp
    then show ?thesis using s1 by (intro exI [of _ "tape s"]) simp
  next
    case True
    obtain t' where t': "sendPairs ?api ?f DeleteE (s1\<lparr>tape := t\<rparr>) = (Done (), s1\<lparr>tape := t'\<rparr>)"
      using sendPairs_none [of "s1\<lparr>tape := t\<rparr>" ?f ?api DeleteE] s1 by auto
    have "removeStage ?api ?f ev (s1\<lparr>tape := t\<rparr>) = (Done (), s1\<lparr>tape := t\<rparr>)" using assms(1) by (simp add: removeStage_def)
    with run True t' s1 have "processSubnatWork ?api (Some ev) s = (Done (), s1\<lparr>tape := t'\<rparr>)" by (simp add: wg_Wait_def)
    with s1 show ?thesis by (intro exI [of _ t']) simp
  qed
qed

text \<open>
  An event for a pool whose removals were never initialised, as every event of a pool starts
  out, makes the removal stage dereference nil, even if there is nothing to create or to remove.
\<close>

theorem processSubnatWork_nil_removals:
  fixes s :: "('w, 'z) ops_state_scheme"
  assumes "requests ev = []" and "se_subnatId ev \<noteq> []"
    and "se_nodes ev = no # nos" "ne_remove no = Some []" "ne_pools no = po # pos" "pe_remove po = None"
    and "ports_List c (listOpts (emptyOpt\<lparr>o_Project := se_projectId ev, o_Vpc := se_vpcId ev, o_Subnet := se_subnatId ev\<rparr>))
      (world s) = ([], w)"
  shows "\<exists>s'. processSubnatWork (openstack_client ops_call c) (Some ev) s = (Panic NilDeref, s')"
proof -
  let ?api = "openstack_client ops_call c" and ?f = "length (ops_frames s)"
  obtain s1 t where run: "processSubnatWork ?api (Some ev) s =
      andThen (removeStage ?api ?f ev) (\<lambda>_. andThen (sendPairs ?api ?f DeleteE) (\<lambda>_. wg_Wait ?f)) (s1\<lparr>tape := t\<rparr>)"
    using process_to_removal [OF assms(1,2,7)] by (auto split: if_splits)
  obtain t' where "set_Values (Some []) (s1\<lparr>tape := t\<rparr>) = (Done [], s1\<lparr>tape := t'\<rparr>)"
    using set_Values_Some_Nil [of "s1\<lparr>tape := t\<rparr>"] by auto
  moreover have "set_Values None s = (Panic NilDeref, s)" for s :: "('w, 'z) ops_state_scheme" by (simp add: set_Values_def)
  ultimately have "removeStage ?api ?f ev (s1\<lparr>tape := t\<rparr>) = (Panic NilDeref, s1\<lparr>tape := t'\<rparr>)"
    using assms(3-6) by (simp add: removeStage_def)
  with run show ?thesis by simp
qed

section \<open>Examples\<close>

definition ex_ops :: "nat ops_state" where
  "ex_ops = \<lparr>world = 0, tape = [], create_tasks = [], att_tasks = [], flights = [], frames = [], ops_frames = [], snevch = []\<rparr>"

definition ex_event :: "nodeEvent list \<Rightarrow> subnatEvent" where
  "ex_event nos = \<lparr>se_vpcId = ''v'', se_projectId = ''p'', se_subnatId = ''s'', se_subnatName = [], se_nodes = nos\<rparr>"

definition ex_nodeEvent :: "int \<Rightarrow> poolEvent list \<Rightarrow> nodeEvent" where
  "ex_nodeEvent n ps = \<lparr>ne_nodeName = ''n1'', ne_nodeId = ''i1'', ne_defaultIp = ''10.0.0.1'', ne_add = n, ne_remove = Some [], ne_pools = ps\<rparr>"

theorem processSubnatWork_stuck_witness:
  "\<exists>s'. processSubnatWork (openstack_client ops_call demoCloud) (Some (ex_event [ex_nodeEvent 1 []])) ex_ops = (Blocked, s') \<and>
     of_wg (ops_frames s' ! 0) = 1 \<and> world s' = 0"
proof -
  have "requests (ex_event [ex_nodeEvent 1 []]) = [1]" by (simp add: requests_def ex_event_def ex_nodeEvent_def)
  with processSubnatWork_stuck [of "ex_event [ex_nodeEvent 1 []]" demoCloud ex_ops] show ?thesis
    by (auto simp: ex_ops_def)
qed

theorem processSubnatWork_nil_removals_witness:
  "\<exists>s'. processSubnatWork (openstack_client ops_call (demoCloud\<lparr>ports_List := (\<lambda>_ w. ([], w))\<rparr>))
     (Some (ex_event [ex_nodeEvent 0 [\<lparr>pe_mainId = ''m'', pe_add = 0, pe_remove = None\<rparr>]])) ex_ops = (Panic NilDeref, s')"
  using processSubnatWork_nil_removals [of "ex_event [ex_nodeEvent 0 [\<lparr>pe_mainId = ''m'', pe_add = 0, pe_remove = None\<rparr>]]"
      "ex_nodeEvent 0 [\<lparr>pe_mainId = ''m'', pe_add = 0, pe_remove = None\<rparr>]" "[]"
      "\<lparr>pe_mainId = ''m'', pe_add = 0, pe_remove = None\<rparr>" "[]" "demoCloud\<lparr>ports_List := (\<lambda>_ w. ([], w))\<rparr>" ex_ops 0]
  by (simp add: requests_def ex_event_def ex_nodeEvent_def ex_ops_def)

end
