(* ===== verification/Ops_Workers.thy ===== *)
theory Ops_Workers
  imports Infraops
begin

text \<open>
  The goroutines that \<open>NewInfra\<close> of \<open>src/pkg/vpc/infraops.go\<close> starts, with the bounded channel of events:
  \<open>HandleSubnatEvent\<close>, the loop \<open>run\<close>, and the end of the context, interleaved in any order.
  Of \<open>processSubnatWork\<close> only counts here whether it returns.
\<close>

section \<open>States and actions\<close>

datatype worker = AtSelect | Working "subnatEvent option" | Stuck | Exited

text \<open>The last field records the events the workers have received.\<close>

record ops_sys =
  os_queue :: "subnatEvent option list"
  os_workers :: "worker list"
  os_done :: bool
  os_taken :: "subnatEvent option list"

definition NewInfra :: "int \<Rightarrow> ops_sys" where
  "NewInfra number = \<lparr>os_queue = [], os_workers = replicate (nat number) AtSelect, os_done = False, os_taken = []\<rparr>"

definition worker_to :: "nat \<Rightarrow> worker \<Rightarrow> ops_sys \<Rightarrow> ops_sys" where
  "worker_to i w s = s\<lparr>os_workers := (os_workers s)[i := w]\<rparr>"

inductive ops_act :: "(subnatEvent option \<Rightarrow> bool) \<Rightarrow> ops_sys \<Rightarrow> ops_sys \<Rightarrow> bool" for returns where
  handle: "ops_act returns s (if length (os_queue s) < snevch_cap then s\<lparr>os_queue := os_queue s @ [ev]\<rparr> else s)"
| receive: "i < length (os_workers s) \<Longrightarrow> os_workers s ! i = AtSelect \<Longrightarrow> os_queue s = ev # q \<Longrightarrow>
     ops_act returns s (worker_to i (Working ev) (s\<lparr>os_queue := q, os_taken := os_taken s @ [ev]\<rparr>))"
| process: "i < length (os_workers s) \<Longrightarrow> os_workers s ! i = Working ev \<Longrightarrow>
     ops_act returns s (worker_to i (if returns ev then AtSelect else Stuck) s)"
| exit: "i < length (os_workers s) \<Longrightarrow> os_workers s ! i = AtSelect \<Longrightarrow> os_done s \<Longrightarrow> ops_act returns s (worker_to i Exited s)"
| cancel: "ops_act returns s (s\<lparr>os_done := True\<rparr>)"

inductive ops_evolves :: "(subnatEvent option \<Rightarrow> bool) \<Rightarrow> ops_sys \<Rightarrow> ops_sys \<Rightarrow> bool" for returns where
  here: "ops_evolves returns s s"
| act: "ops_evolves returns s s' \<Longrightarrow> ops_act returns s' s'' \<Longrightarrow> ops_evolves returns s s''"

section \<open>Workers that are lost\<close>

text \<open>A worker that will not come back: it stands in an event that does not return, or will.\<close>

fun lost :: "(subnatEvent option \<Rightarrow> bool) \<Rightarrow> worker \<Rightarrow> bool" where
  "lost returns (Working ev) = (\<not> returns ev)"
| "lost returns Stuck = True"
| "lost returns _ = False"

definition losses :: "(subnatEvent option \<Rightarrow> bool) \<Rightarrow> ops_sys \<Rightarrow> nat" where
  "losses returns s = length (filter (lost returns) (os_workers s))"

lemma filter_update:
  "i < length ws \<Longrightarrow> length (filter P (ws[i := w])) + (if P (ws ! i) then 1 else 0) = length (filter P ws) + (if P w then 1 else 0)"
proof (induction ws arbitrary: i)
  case (Cons x ws)
  then show ?case by (cases i) auto
qed simp

definition ops_inv :: "(subnatEvent option \<Rightarrow> bool) \<Rightarrow> nat \<Rightarrow> ops_sys \<Rightarrow> bool" where
  "ops_inv returns n s \<longleftrightarrow> length (os_workers s) = n \<and> length (os_queue s) \<le> snevch_cap \<and>
     length (filter (\<lambda>ev. \<not> returns ev) (os_taken s)) = losses returns s"

lemma ops_inv_init: "ops_inv returns (nat number) (NewInfra number)"
  by (simp add: ops_inv_def NewInfra_def losses_def)

lemma ops_act_inv:
  assumes "ops_act returns s s'" and "ops_inv returns n s"
  shows "ops_inv returns n s'"
  using assms(1)
proof (cases rule: ops_act.cases)
  case (receive i ev q)
  then show ?thesis using assms(2) filter_update [of i "os_workers s" "lost returns" "Working ev"]
    by (auto simp: ops_inv_def losses_def worker_to_def)
next
  case (process i ev)
  then show ?thesis using assms(2) filter_update [of i "os_workers s" "lost returns" "if returns ev then AtSelect else Stuck"]
    by (auto simp: ops_inv_def losses_def worker_to_def)
next
  case (exit i)
  then show ?thesis using assms(2) filter_update [of i "os_workers s" "lost returns" Exited]
    by (auto simp: ops_inv_def losses_def worker_to_def)
qed (use assms(2) in \<open>auto simp: ops_inv_def losses_def\<close>)

lemma ops_evolves_inv: "ops_evolves returns s s' \<Longrightarrow> ops_inv returns n s \<Longrightarrow> ops_inv returns n s'"
  by (induction rule: ops_evolves.induct) (auto dest: ops_act_inv)

lemma all_lost: "losses returns s = length (os_workers s) \<Longrightarrow> i < length (os_workers s) \<Longrightarrow> lost returns (os_workers s ! i)"
  unfolding losses_def by (metis filter_id_conv length_filter_less linorder_neq_iff nth_mem)

lemma all_lost_act:
  assumes "ops_act returns s s'" and "losses returns s = length (os_workers s)"
  shows "os_taken s' = os_taken s"
  using assms(1)
proof (cases rule: ops_act.cases)
  case (receive i ev q)
  then show ?thesis using all_lost [OF assms(2), of i] by simp
qed (auto simp: worker_to_def)

lemma all_lost_forever:
  assumes "ops_evolves returns s s'" and "ops_inv returns n s" and "losses returns s = n"
  shows "os_taken s' = os_taken s"
  using assms
proof (induction rule: ops_evolves.induct)
  case (act s s' s'')
  then have "ops_inv returns n s'" "os_taken s' = os_taken s" using ops_evolves_inv by auto
  with act.prems act.hyps(2) all_lost_act [of returns s' s''] show ?case by (auto simp: ops_inv_def)
qed simp

definition asks :: "subnatEvent option \<Rightarrow> bool" where
  "asks ev = (case ev of None \<Rightarrow> False | Some e \<Rightarrow> requests e \<noteq> [])"

text \<open>
  (C29) The workers run out. Over the OpenStack client, of the events that ask for a port at most as many are
  ever received as there are workers, as each holds its worker for ever; once as many have been
  received, no event of any kind is received again. The channel never holds more than 128 events;
  what comes on top is dropped.
\<close>

theorem workers_run_out:
  fixes c :: "'w cloud"
  assumes "ops_evolves returns (NewInfra number) s" and "ops_evolves returns s s'"
    and "\<forall>ev. returns ev \<longrightarrow> (\<exists>st :: ('w, 'z) ops_state_scheme. isDone (processSubnatWork (openstack_client ops_call c) ev st))"
  shows "length (filter asks (os_taken s)) \<le> nat number \<and> length (os_queue s) \<le> 128 \<and>
    (length (filter asks (os_taken s)) = nat number \<longrightarrow> os_taken s' = os_taken s)"
proof -
  have inv: "ops_inv returns (nat number) s" using ops_evolves_inv [OF assms(1) ops_inv_init] .
  have "\<not> returns ev" if "asks ev" for ev
  proof -
    obtain e where e: "ev = Some e" "requests e \<noteq> []" using \<open>asks ev\<close> by (auto simp: asks_def split: option.splits)
    have "\<not> isDone (processSubnatWork (openstack_client ops_call c) ev st)" for st :: "('w, 'z) ops_state_scheme"
      using osc.process_blocks [OF e(2), of c st] e(1) by (auto simp: isDone_def)
    then show ?thesis using assms(3) by blast
  qed
  then have "length (filter asks xs) \<le> length (filter (\<lambda>ev. \<not> returns ev) xs)" for xs by (induction xs) auto
  then have "length (filter asks (os_taken s)) \<le> losses returns s" using inv unfolding ops_inv_def by metis
  moreover have n: "losses returns s \<le> nat number" using inv length_filter_le [of "lost returns" "os_workers s"] by (simp add: ops_inv_def losses_def)
  ultimately have "length (filter asks (os_taken s)) = nat number \<longrightarrow> losses returns s = nat number" by simp
  with all_lost_forever [OF assms(2) inv] show ?thesis
    using inv n \<open>length (filter asks (os_taken s)) \<le> losses returns s\<close> by (auto simp: ops_inv_def snevch_cap_def)
qed

text \<open>One worker, one event that asks for a port, and one more event that nobody receives.\<close>

theorem workers_run_out_witness:
  "\<exists>s s' ev. ops_evolves (\<lambda>ev. ev = None) (NewInfra 1) s \<and> ops_evolves (\<lambda>ev. ev = None) s s' \<and> asks ev \<and>
     os_taken s = [ev] \<and> os_queue s' = [None] \<and> os_taken s' = [ev]"
proof -
  let ?no = "\<lparr>ne_nodeName = ''n'', ne_nodeId = ''i'', ne_defaultIp = [], ne_add = 1, ne_remove = None, ne_pools = []\<rparr>"
  let ?ev = "Some \<lparr>se_vpcId = ''v'', se_projectId = ''p'', se_subnatId = ''s'', se_subnatName = ''sub'', se_nodes = [?no]\<rparr>"
  let ?r = "\<lambda>ev. ev = (None :: subnatEvent option)"
  let ?st = "\<lambda>q w ts. \<lparr>os_queue = q, os_workers = [w], os_done = False, os_taken = ts\<rparr>"
  have "ops_evolves ?r (NewInfra 1) (?st [?ev] AtSelect [])"
    using ops_evolves.act [OF ops_evolves.here ops_act.handle [of ?r "NewInfra 1" ?ev]] by (simp add: NewInfra_def snevch_cap_def)
  then have 1: "ops_evolves ?r (NewInfra 1) (?st [] (Working ?ev) [?ev])"
    using ops_evolves.act [OF _ ops_act.receive [of 0 "?st [?ev] AtSelect []" ?ev "[]" ?r]] by (simp add: worker_to_def)
  have 2: "ops_evolves ?r (?st [] (Working ?ev) [?ev]) (?st [None] (Working ?ev) [?ev])"
    using ops_evolves.act [OF ops_evolves.here ops_act.handle [of ?r "?st [] (Working ?ev) [?ev]" None]] by (simp add: snevch_cap_def)
  have ret: "\<forall>ev. ev = (None :: subnatEvent option) \<longrightarrow> (\<exists>st :: nat ops_state. isDone (processSubnatWork (openstack_client ops_call demoCloud) ev st))"
    by (simp add: processSubnatWork_def)
  have "os_taken (?st [None] (Working ?ev) [?ev]) = [?ev]"
    using workers_run_out [OF 1 2 ret] by (simp add: asks_def requests_def)
  moreover have "asks ?ev" by (simp add: asks_def requests_def)
  ultimately show ?thesis using 1 2
    by (intro exI [of _ "?st [] (Working ?ev) [?ev]"] exI [of _ "?st [None] (Working ?ev) [?ev]"] exI [of _ ?ev]) simp
qed

end
