(* ===== verification/Openstack_Pool.thy ===== *)
theory Openstack_Pool
  imports Openstack
begin

text \<open>
  The loop of \<open>UpdatePort\<close> that creates ports without waiting, with the workers of its pool beside it. The
  loop and the tasks take turns in any order; a task reads the loop variable when it runs, joins the
  creation that is in flight under its key or starts one, and gives its worker back at the end. No other
  call uses the pool or the keys meanwhile.
\<close>

section \<open>The loop and its tasks\<close>

text \<open>
  A task has been submitted, leads a flight before or after its request, waits for the flight of another task, is
  back from \<open>createPort\<close>, or has given its worker back.
\<close>

datatype create_task = New | Lead string | Made string | Join nat | Back | Freed

record 'w create_sys =
  cs_i :: nat
  cs_sent :: bool
  cs_tasks :: "create_task list"
  cs_world :: 'w

fun flying :: "create_task \<Rightarrow> string option" where
  "flying (Lead k) = Some k"
| "flying (Made k) = Some k"
| "flying _ = None"

text \<open>The task that flies under a key: \<open>singleflight.Group\<close> keeps one at most.\<close>

definition flight_of :: "string \<Rightarrow> create_task list \<Rightarrow> nat option" where
  "flight_of k ts = find (\<lambda>j. flying (ts ! j) = Some k) [0..<length ts]"

definition busy :: "create_task list \<Rightarrow> nat" where
  "busy ts = length (filter (\<lambda>t. t \<noteq> Freed) ts)"

text \<open>One turn of the loop: \<open>Submit\<close>, which drops the task when all workers are busy, or \<open>i++\<close>.\<close>

definition loop_act :: "nat \<Rightarrow> 'w create_sys \<Rightarrow> 'w create_sys option" where
  "loop_act number s =
     (if number \<le> cs_i s then None
      else if cs_sent s then Some (s\<lparr>cs_i := cs_i s + 1, cs_sent := False\<rparr>)
      else Some (s\<lparr>cs_sent := True, cs_tasks := cs_tasks s @ (if busy (cs_tasks s) < pool_cap then [New] else [])\<rparr>))"

definition task_act :: "'w cloud \<Rightarrow> Opt \<Rightarrow> nat \<Rightarrow> 'w create_sys \<Rightarrow> 'w create_sys option" where
  "task_act c o1 j s =
     (if length (cs_tasks s) \<le> j then None
      else case cs_tasks s ! j of
        New \<Rightarrow> let k = createKey o1 (int (cs_i s)) in
          Some (s\<lparr>cs_tasks := (cs_tasks s)[j := (case flight_of k (cs_tasks s) of None \<Rightarrow> Lead k | Some l \<Rightarrow> Join l)]\<rparr>)
      | Lead k \<Rightarrow> Some (s\<lparr>cs_tasks := (cs_tasks s)[j := Made k], cs_world := snd (ports_Create c (createOpts o1) (cs_world s))\<rparr>)
      | Made k \<Rightarrow> Some (s\<lparr>cs_tasks := (cs_tasks s)[j := Back]\<rparr>)
      | Join l \<Rightarrow> if flying (cs_tasks s ! l) \<noteq> None then None else Some (s\<lparr>cs_tasks := (cs_tasks s)[j := Back]\<rparr>)
      | Back \<Rightarrow> Some (s\<lparr>cs_tasks := (cs_tasks s)[j := Freed]\<rparr>)
      | Freed \<Rightarrow> None)"

datatype turn = Loop | Task nat

fun create_act :: "'w cloud \<Rightarrow> Opt \<Rightarrow> nat \<Rightarrow> turn \<Rightarrow> 'w create_sys \<Rightarrow> 'w create_sys option" where
  "create_act c o1 number Loop s = loop_act number s"
| "create_act c o1 number (Task j) s = task_act c o1 j s"

fun create_run :: "'w cloud \<Rightarrow> Opt \<Rightarrow> nat \<Rightarrow> turn list \<Rightarrow> 'w create_sys \<Rightarrow> 'w create_sys option" where
  "create_run c o1 number [] s = Some s"
| "create_run c o1 number (t # ts) s = (case create_act c o1 number t s of None \<Rightarrow> None | Some s' \<Rightarrow> create_run c o1 number ts s')"

definition create_start :: "'w \<Rightarrow> 'w create_sys" where
  "create_start w = \<lparr>cs_i = 0, cs_sent = False, cs_tasks = [], cs_world = w\<rparr>"

definition all_done :: "nat \<Rightarrow> 'w create_sys \<Rightarrow> bool" where
  "all_done number s \<longleftrightarrow> number \<le> cs_i s \<and> list_all (\<lambda>t. t = Freed) (cs_tasks s)"

section \<open>At most as many ports as asked for, and at least one\<close>

definition unmade :: "create_task \<Rightarrow> bool" where
  "unmade t \<longleftrightarrow> t = New \<or> (\<exists>k. t = Lead k)"

lemma busy_Nil: "busy [] < pool_cap"
  by (simp add: busy_def pool_cap_def)

lemma flight_of_Some: "flight_of k ts = Some l \<Longrightarrow> l < length ts \<and> flying (ts ! l) = Some k"
  by (auto simp: flight_of_def find_Some_iff)

lemma flying_cases: "flying t \<noteq> None \<longleftrightarrow> (\<exists>k. t = Lead k \<or> t = Made k)"
  by (cases t) auto

lemma find_None_length: "flight_of k ts = None \<Longrightarrow> l < length ts \<Longrightarrow> flying (ts ! l) \<noteq> Some k"
  by (auto simp: flight_of_def find_None_iff)

text \<open>
  The invariant after \<open>m\<close> requests: one task at most for each turn of the loop and one request at most for each task; once the loop
  has begun there is a task, and once a task is past its start there is a request or one about to be made; who
  waits, waits for a task that has started a flight.
\<close>

definition create_inv :: "'w cloud \<Rightarrow> Opt \<Rightarrow> nat \<Rightarrow> 'w \<Rightarrow> nat \<Rightarrow> 'w create_sys \<Rightarrow> bool" where
  "create_inv c o1 number w m s \<longleftrightarrow>
     cs_world s = ((\<lambda>w. snd (ports_Create c (createOpts o1) w)) ^^ m) w \<and>
     m + length (filter unmade (cs_tasks s)) \<le> length (cs_tasks s) \<and>
     length (cs_tasks s) \<le> cs_i s + (if cs_sent s then 1 else 0) \<and> cs_i s \<le> number \<and> (cs_sent s \<longrightarrow> cs_i s < number) \<and>
     (cs_sent s \<or> 0 < cs_i s \<longrightarrow> cs_tasks s \<noteq> []) \<and>
     (\<forall>t\<in>set (cs_tasks s). t \<noteq> New \<longrightarrow> 0 < m \<or> (\<exists>k. Lead k \<in> set (cs_tasks s))) \<and>
     (\<forall>l. Join l \<in> set (cs_tasks s) \<longrightarrow> l < length (cs_tasks s) \<and> cs_tasks s ! l \<noteq> New \<and> (\<forall>l'. cs_tasks s ! l \<noteq> Join l'))"

lemma create_inv_start: "create_inv c o1 number w 0 (create_start w)"
  by (simp add: create_inv_def create_start_def)

lemma create_inv_loop:
  assumes "create_inv c o1 number w m s" and "loop_act number s = Some s'"
  shows "create_inv c o1 number w m s'"
proof -
  let ?ts = "cs_tasks s"
  note inv = assms(1) [unfolded create_inv_def]
  have i: "cs_i s < number" using assms(2) by (auto simp: loop_act_def split: if_splits)
  consider (inc) "cs_sent s" "s' = s\<lparr>cs_i := cs_i s + 1, cs_sent := False\<rparr>"
    | (drop) "\<not> cs_sent s" "s' = s\<lparr>cs_sent := True\<rparr>" "?ts \<noteq> []"
    | (submit) "\<not> cs_sent s" "s' = s\<lparr>cs_sent := True, cs_tasks := ?ts @ [New]\<rparr>"
    using assms(2) i by (cases "?ts = []") (auto simp: loop_act_def busy_Nil split: if_splits)
  then show ?thesis
  proof cases
    case inc
    then show ?thesis using inv i by (simp add: create_inv_def)
  next
    case drop
    then show ?thesis using inv i by (simp add: create_inv_def)
  next
    case submit
    have "\<forall>l. Join l \<in> set (?ts @ [New]) \<longrightarrow>
        l < length (?ts @ [New]) \<and> (?ts @ [New]) ! l \<noteq> New \<and> (\<forall>l'. (?ts @ [New]) ! l \<noteq> Join l')"
      using inv by (simp add: nth_append less_SucI)
    moreover have "\<forall>t\<in>set (?ts @ [New]). t \<noteq> New \<longrightarrow> 0 < m \<or> (\<exists>k. Lead k \<in> set (?ts @ [New]))" using inv by auto
    ultimately show ?thesis unfolding create_inv_def using inv i submit by (simp add: unmade_def)
  qed
qed

text \<open>A task moves on: \<open>t'\<close> is past the start, and no flight that others wait for disappears without a trace.\<close>

lemma create_inv_task:
  assumes inv: "create_inv c o1 number w m s" and j: "j < length (cs_tasks s)"
    and m': "m' + (if unmade t' then 1 else 0) \<le> m + (if unmade (cs_tasks s ! j) then 1 else 0)"
    and w': "cs_world s' = ((\<lambda>w. snd (ports_Create c (createOpts o1) w)) ^^ m') w"
    and s': "cs_tasks s' = (cs_tasks s)[j := t']" "cs_i s' = cs_i s" "cs_sent s' = cs_sent s"
    and t': "t' \<noteq> New" "0 < m' \<or> (\<exists>k. t' = Lead k) \<or> (\<exists>k. Lead k \<in> set ((cs_tasks s)[j := t']))"
    and wait: "\<And>l. t' = Join l \<Longrightarrow> cs_tasks s ! j = New \<and> l < length (cs_tasks s) \<and> flying (cs_tasks s ! l) \<noteq> None"
  shows "create_inv c o1 number w m' s'"
proof -
  let ?ts = "cs_tasks s"
  have waits: "l < length ?ts \<and> ?ts ! l \<noteq> New \<and> (\<forall>l'. ?ts ! l \<noteq> Join l')" if "Join l \<in> set ?ts" for l
    using inv that by (auto simp: create_inv_def)
  have "m' + length (filter unmade (?ts[j := t'])) \<le> length ?ts"
    using inv m' count_update [OF j, of unmade t'] by (auto simp: create_inv_def split: if_splits)
  moreover have "0 < m' \<or> (\<exists>k. Lead k \<in> set (?ts[j := t']))"
    using t'(2) set_update_memI [OF j, of t'] by auto
  moreover have "l < length ?ts \<and> ?ts[j := t'] ! l \<noteq> New \<and> (\<forall>l'. ?ts[j := t'] ! l \<noteq> Join l')" if "Join l \<in> set (?ts[j := t'])" for l
  proof (cases "t' = Join l")
    case True
    then have "?ts ! j = New" "l < length ?ts" "flying (?ts ! l) \<noteq> None" using wait by auto
    then show ?thesis by (cases "l = j") (auto simp: flying_cases)
  next
    case False
    then have "Join l \<in> set ?ts" using that set_update_subset_insert [of ?ts j t'] by auto
    then show ?thesis using waits [of l] wait t'(1) by (cases "l = j") auto
  qed
  ultimately show ?thesis using inv j w' by (auto simp: create_inv_def s')
qed

lemma create_inv_task_act:
  assumes "create_inv c o1 number w m s" and "task_act c o1 j s = Some s'"
  shows "\<exists>m'. create_inv c o1 number w m' s'"
proof -
  let ?ts = "cs_tasks s"
  have j: "j < length ?ts" using assms(2) by (auto simp: task_act_def split: if_splits)
  then have mem: "?ts ! j \<in> set ?ts" by simp
  note inv = assms(1) [unfolded create_inv_def]
  have cw: "cs_world s = ((\<lambda>w. snd (ports_Create c (createOpts o1) w)) ^^ m) w" using inv by blast
  have past: "0 < m \<or> (\<exists>k. Lead k \<in> set (?ts[j := t']))" if "?ts ! j \<noteq> New" "\<And>k. ?ts ! j \<noteq> Lead k" for t'
  proof -
    have "0 < m \<or> (\<exists>k. Lead k \<in> set ?ts)" using inv mem that(1) by auto
    moreover have "Lead k \<in> set (?ts[j := t'])" if "Lead k \<in> set ?ts" for k
      using that \<open>\<And>k. ?ts ! j \<noteq> Lead k\<close> by (metis in_set_conv_nth length_list_update nth_list_update_neq)
    ultimately show ?thesis by blast
  qed
  show ?thesis
  proof (cases "?ts ! j")
    case New
    let ?k = "createKey o1 (int (cs_i s))"
    show ?thesis
    proof (cases "flight_of ?k ?ts")
      case None
      then show ?thesis using assms(2) j New cw
        by (intro exI [of _ m] create_inv_task [OF assms(1) j, where t' = "Lead ?k"]) (auto simp: task_act_def unmade_def)
    next
      case (Some l)
      then have l: "l < length ?ts" "flying (?ts ! l) = Some ?k" using flight_of_Some by auto
      then have "l \<noteq> j" using New by auto
      then have "0 < m \<or> (\<exists>k. Lead k \<in> set (?ts[j := Join l]))"
        using inv l New by (metis (no_types, lifting) create_task.distinct(1) flying.simps(3) in_set_conv_nth length_list_update nth_list_update_neq option.distinct(1) nth_mem)
      then show ?thesis using assms(2) j New cw Some l
        by (intro exI [of _ m] create_inv_task [OF assms(1) j, where t' = "Join l"]) (auto simp: task_act_def unmade_def)
    qed
  next
    case (Lead k)
    then show ?thesis using assms(2) j cw
      by (intro exI [of _ "Suc m"] create_inv_task [OF assms(1) j, where t' = "Made k"]) (auto simp: task_act_def unmade_def)
  next
    case (Made k)
    then show ?thesis using assms(2) j cw past [of Back]
      by (intro exI [of _ m] create_inv_task [OF assms(1) j, where t' = Back]) (auto simp: task_act_def unmade_def)
  next
    case (Join l)
    then show ?thesis using assms(2) j cw past [of Back]
      by (intro exI [of _ m] create_inv_task [OF assms(1) j, where t' = Back]) (auto simp: task_act_def unmade_def split: if_splits)
  next
    case Back
    then show ?thesis using assms(2) j cw past [of Freed]
      by (intro exI [of _ m] create_inv_task [OF assms(1) j, where t' = Freed]) (auto simp: task_act_def unmade_def)
  next
    case Freed
    then show ?thesis using assms j by (auto simp: task_act_def)
  qed
qed

lemma create_inv_run:
  "create_run c o1 number ts s = Some s' \<Longrightarrow> create_inv c o1 number w m s \<Longrightarrow> \<exists>m'. create_inv c o1 number w m' s'"
proof (induction ts arbitrary: s m)
  case (Cons t ts)
  then obtain s1 where s1: "create_act c o1 number t s = Some s1" "create_run c o1 number ts s1 = Some s'"
    by (auto split: option.splits)
  then have "\<exists>m. create_inv c o1 number w m s1"
    using Cons.prems(2) create_inv_loop create_inv_task_act by (cases t) fastforce+
  with Cons.IH [OF s1(2)] show ?case by blast
qed auto

section \<open>Every run ends\<close>

fun task_left :: "create_task \<Rightarrow> nat" where
  "task_left New = 4"
| "task_left (Lead _) = 3"
| "task_left (Made _) = 2"
| "task_left (Join _) = 2"
| "task_left Back = 1"
| "task_left Freed = 0"

definition turns_left :: "nat \<Rightarrow> 'w create_sys \<Rightarrow> nat" where
  "turns_left number s = 6 * (number - cs_i s) - (if cs_sent s then 5 else 0) + sum_list (map task_left (cs_tasks s))"

lemma create_act_turns:
  assumes "create_act c o1 number t s = Some s'"
  shows "turns_left number s' < turns_left number s"
proof (cases t)
  case Loop
  then show ?thesis using assms by (auto simp: loop_act_def turns_left_def split: if_splits)
next
  case (Task j)
  then obtain t' where t': "j < length (cs_tasks s)" "cs_tasks s' = (cs_tasks s)[j := t']" "cs_i s' = cs_i s" "cs_sent s' = cs_sent s"
    "task_left t' < task_left (cs_tasks s ! j)"
    using assms by (cases "cs_tasks s ! j") (auto simp: task_act_def Let_def split: if_splits option.splits)
  then show ?thesis using sum_list_update_less [of j "cs_tasks s" task_left t'] by (simp add: turns_left_def)
qed

lemma create_run_turns: "create_run c o1 number ts s = Some s' \<Longrightarrow> length ts + turns_left number s' \<le> turns_left number s"
proof (induction ts arbitrary: s)
  case (Cons t ts)
  then obtain s1 where s1: "create_act c o1 number t s = Some s1" "create_run c o1 number ts s1 = Some s'"
    by (auto split: option.splits)
  show ?case using Cons.IH [OF s1(2)] create_act_turns [OF s1(1)] by simp
qed simp

lemma create_progress:
  assumes "create_inv c o1 number w m s" and "\<not> all_done number s"
  shows "\<exists>t. create_act c o1 number t s \<noteq> None"
proof (cases "cs_i s < number")
  case True
  then show ?thesis by (intro exI [of _ Loop]) (simp add: loop_act_def)
next
  case False
  then obtain j where j: "j < length (cs_tasks s)" "cs_tasks s ! j \<noteq> Freed"
    using assms(2) by (auto simp: all_done_def list_all_length)
  show ?thesis
  proof (cases "\<exists>l. cs_tasks s ! j = Join l \<and> flying (cs_tasks s ! l) \<noteq> None")
    case True
    then obtain l where l: "cs_tasks s ! j = Join l" "flying (cs_tasks s ! l) \<noteq> None" by blast
    then have "Join l \<in> set (cs_tasks s)" using j(1) by (metis nth_mem)
    then have "l < length (cs_tasks s)" using assms(1) by (simp add: create_inv_def)
    then show ?thesis using l(2) by (intro exI [of _ "Task l"]) (cases "cs_tasks s ! l", simp_all add: task_act_def)
  next
    case False
    then show ?thesis using j by (intro exI [of _ "Task j"]) (cases "cs_tasks s ! j", simp_all add: task_act_def Let_def)
  qed
qed

section \<open>Every number can come about\<close>

definition reaches :: "'w cloud \<Rightarrow> Opt \<Rightarrow> nat \<Rightarrow> 'w create_sys \<Rightarrow> 'w create_sys \<Rightarrow> bool" where
  "reaches c o1 number s s' \<longleftrightarrow> (\<exists>ts. create_run c o1 number ts s = Some s')"

abbreviation at_loop :: "nat \<Rightarrow> create_task list \<Rightarrow> 'w \<Rightarrow> 'w create_sys" where
  "at_loop i ts w \<equiv> \<lparr>cs_i = i, cs_sent = False, cs_tasks = ts, cs_world = w\<rparr>"

lemma create_run_append:
  "create_run c o1 number (xs @ ys) s = (case create_run c o1 number xs s of None \<Rightarrow> None | Some s' \<Rightarrow> create_run c o1 number ys s')"
  by (induction xs arbitrary: s) (auto split: option.splits)

lemma reaches_refl: "reaches c o1 number s s"
  unfolding reaches_def by (rule exI [of _ "[]"]) simp

lemma reaches_trans: "reaches c o1 number s s1 \<Longrightarrow> reaches c o1 number s1 s2 \<Longrightarrow> reaches c o1 number s s2"
  unfolding reaches_def by (metis (no_types, lifting) create_run_append option.simps(5))

lemma reaches_by: "create_run c o1 number ts s = Some s' \<Longrightarrow> reaches c o1 number s s'"
  unfolding reaches_def by blast

lemma flight_of_first:
  assumes "list_all (\<lambda>t. flying t = None) F"
  shows "flight_of k (F @ Lead k # G) = Some (length F)"
  unfolding flight_of_def find_Some_iff
  by (rule exI [of _ "length F"]) (use assms in \<open>simp add: nth_append list_all_length\<close>)

lemma flight_of_none: "list_all (\<lambda>t. flying t = None) ts \<Longrightarrow> flight_of k ts = None"
  by (auto simp: flight_of_def find_None_iff list_all_length)

lemma busy_Freed: "busy (replicate n Freed) < pool_cap"
  by (simp add: busy_def pool_cap_def)

lemma one_round:
  assumes "i < number" and "list_all (\<lambda>t. t = Freed) ts"
  shows "reaches c o1 number (at_loop i ts w) (at_loop (Suc i) (ts @ [Freed]) (snd (ports_Create c (createOpts o1) w)))"
proof (rule reaches_by)
  have "filter (\<lambda>t. t \<noteq> Freed) ts = []" using assms(2) by (simp add: list_all_iff)
  moreover have "flight_of k (ts @ [New]) = None" for k
    using assms(2) by (intro flight_of_none) (auto simp: list_all_iff)
  ultimately show "create_run c o1 number [Loop, Task (length ts), Task (length ts), Task (length ts), Task (length ts), Loop] (at_loop i ts w) =
      Some (at_loop (Suc i) (ts @ [Freed]) (snd (ports_Create c (createOpts o1) w)))"
    using assms(1) by (simp add: loop_act_def task_act_def busy_def pool_cap_def Let_def)
qed

lemma rounds:
  "i \<le> number \<Longrightarrow> reaches c o1 number (create_start w) (at_loop i (replicate i Freed) (((\<lambda>w. snd (ports_Create c (createOpts o1) w)) ^^ i) w))"
proof (induction i)
  case 0
  then show ?case by (simp add: create_start_def reaches_refl)
next
  case (Suc i)
  then show ?case using reaches_trans [OF Suc.IH one_round [of i number "replicate i Freed" c o1]]
    by (simp add: list_all_iff replicate_append_same)
qed

lemma rest_submitted:
  "i \<le> number \<Longrightarrow> \<exists>r. q \<le> r \<and> reaches c o1 number (at_loop i (ts @ replicate q New) w) (at_loop number (ts @ replicate r New) w)"
proof (induction "number - i" arbitrary: i q)
  case 0
  then show ?case using reaches_refl by (intro exI [of _ q]) simp
next
  case (Suc d)
  define q' where "q' = q + (if busy (ts @ replicate q New) < pool_cap then 1 else 0)"
  have "create_run c o1 number [Loop, Loop] (at_loop i (ts @ replicate q New) w) = Some (at_loop (Suc i) (ts @ replicate q' New) w)"
    using Suc.hyps(2) by (simp add: loop_act_def q'_def replicate_append_same)
  then have "reaches c o1 number (at_loop i (ts @ replicate q New) w) (at_loop (Suc i) (ts @ replicate q' New) w)" by (rule reaches_by)
  moreover obtain r where "q' \<le> r" "reaches c o1 number (at_loop (Suc i) (ts @ replicate q' New) w) (at_loop number (ts @ replicate r New) w)"
  proof -
    have "d = number - Suc i" "Suc i \<le> number" using Suc.hyps(2) by simp_all
    then show thesis using Suc.hyps(1) [of "Suc i" q'] that by blast
  qed
  moreover have "q \<le> q'" by (simp add: q'_def)
  ultimately show ?case using reaches_trans by (meson le_trans)
qed

lemma rest_joins:
  assumes "list_all (\<lambda>t. flying t = None) F" and "k = createKey o1 (int i)"
  shows "reaches c o1 number (at_loop i (F @ Lead k # replicate a (Join (length F)) @ replicate b New) w)
    (at_loop i (F @ Lead k # replicate (a + b) (Join (length F))) w)"
proof (induction b arbitrary: a)
  case 0
  then show ?case by (simp add: reaches_refl)
next
  case (Suc b)
  let ?P = "F @ Lead k # replicate a (Join (length F))"
  have "flight_of k (?P @ New # replicate b New) = Some (length F)" using flight_of_first [OF assms(1)] by simp
  then have "create_run c o1 number [Task (length ?P)] (at_loop i (?P @ New # replicate b New) w) =
      Some (at_loop i (?P @ Join (length F) # replicate b New) w)"
    using assms(2) by (simp add: task_act_def Let_def nth_append list_update_append)
  then have "reaches c o1 number (at_loop i (F @ Lead k # replicate a (Join (length F)) @ replicate (Suc b) New) w)
      (at_loop i (F @ Lead k # replicate (Suc a) (Join (length F)) @ replicate b New) w)"
    using reaches_by by (fastforce simp: replicate_app_Cons_same)
  then show ?case using reaches_trans Suc.IH [of "Suc a"] by fastforce
qed

lemma rest_freed:
  "list_all (\<lambda>t. t = Freed) F \<Longrightarrow> l < length F \<Longrightarrow>
   \<exists>G. list_all (\<lambda>t. t = Freed) G \<and> reaches c o1 number (at_loop i (F @ replicate a (Join l)) w) (at_loop i G w)"
proof (induction a arbitrary: F)
  case 0
  then show ?case using reaches_refl by (intro exI [of _ F]) simp
next
  case (Suc a)
  have "create_run c o1 number [Task (length F), Task (length F)] (at_loop i (F @ Join l # replicate a (Join l)) w) =
      Some (at_loop i (F @ Freed # replicate a (Join l)) w)"
    using Suc.prems by (simp add: task_act_def nth_append list_all_length)
  then have "reaches c o1 number (at_loop i (F @ Join l # replicate a (Join l)) w) (at_loop i ((F @ [Freed]) @ replicate a (Join l)) w)"
    unfolding append_assoc append_Cons append_Nil by (rule reaches_by)
  moreover obtain G where "list_all (\<lambda>t. t = Freed) G" "reaches c o1 number (at_loop i ((F @ [Freed]) @ replicate a (Join l)) w) (at_loop i G w)"
    using Suc.IH [of "F @ [Freed]"] Suc.prems by auto
  ultimately show ?case using reaches_trans unfolding replicate_Suc by blast
qed

text \<open>The last tasks all run after the loop and share one flight.\<close>

lemma shared_flight:
  assumes "list_all (\<lambda>t. t = Freed) F" and "0 < r"
  shows "\<exists>G. list_all (\<lambda>t. t = Freed) G \<and>
    reaches c o1 number (at_loop i (F @ replicate r New) w) (at_loop i G (snd (ports_Create c (createOpts o1) w)))"
proof -
  let ?k = "createKey o1 (int i)" and ?l = "length F"
  let ?J = "replicate (r - 1) (Join ?l)" and ?w = "snd (ports_Create c (createOpts o1) w)"
  have quiet: "list_all (\<lambda>t. flying t = None) F" using assms(1) by (auto simp: list_all_iff)
  have r: "replicate r New = New # replicate (r - 1) New" using assms(2) by (cases r) auto
  have "flight_of ?k (F @ replicate r New) = None" using quiet by (intro flight_of_none) (auto simp: list_all_iff)
  then have lead: "create_run c o1 number [Task ?l] (at_loop i (F @ replicate r New) w) = Some (at_loop i (F @ Lead ?k # replicate (r - 1) New) w)"
    by (simp add: task_act_def Let_def r)
  have join: "reaches c o1 number (at_loop i (F @ Lead ?k # replicate (r - 1) New) w) (at_loop i (F @ Lead ?k # ?J) w)"
    using rest_joins [OF quiet refl, of c o1 number i 0 "r - 1" w] by simp
  have "create_run c o1 number [Task ?l, Task ?l, Task ?l] (at_loop i (F @ Lead ?k # ?J) w) = Some (at_loop i ((F @ [Freed]) @ ?J) ?w)"
    by (simp add: task_act_def)
  then have "reaches c o1 number (at_loop i (F @ replicate r New) w) (at_loop i ((F @ [Freed]) @ ?J) ?w)"
    by (rule reaches_trans [OF reaches_trans [OF reaches_by [OF lead] join] reaches_by])
  moreover obtain G where "list_all (\<lambda>t. t = Freed) G" "reaches c o1 number (at_loop i ((F @ [Freed]) @ ?J) ?w) (at_loop i G ?w)"
    using rest_freed [of "F @ [Freed]" ?l c o1 number i "r - 1" ?w] assms(1) by auto
  ultimately show ?thesis using reaches_trans by blast
qed

lemma some_outcome:
  assumes "1 \<le> k" and "k \<le> number"
  shows "\<exists>G. list_all (\<lambda>t. t = Freed) G \<and>
    reaches c o1 number (create_start w) (at_loop number G (((\<lambda>w. snd (ports_Create c (createOpts o1) w)) ^^ k) w))"
proof -
  let ?F = "replicate (k - 1) Freed" and ?w = "((\<lambda>w. snd (ports_Create c (createOpts o1) w)) ^^ (k - 1)) w"
  have "create_run c o1 number [Loop, Loop] (at_loop (k - 1) ?F ?w) = Some (at_loop k (?F @ replicate 1 New) ?w)"
    using assms by (simp add: loop_act_def busy_Freed)
  then have "reaches c o1 number (at_loop (k - 1) ?F ?w) (at_loop k (?F @ replicate 1 New) ?w)" by (rule reaches_by)
  moreover obtain r where r: "1 \<le> r" "reaches c o1 number (at_loop k (?F @ replicate 1 New) ?w) (at_loop number (?F @ replicate r New) ?w)"
    using rest_submitted [OF assms(2), of 1 c o1 ?F ?w] by blast
  moreover have "reaches c o1 number (create_start w) (at_loop (k - 1) ?F ?w)" using assms by (intro rounds) simp
  ultimately have "reaches c o1 number (create_start w) (at_loop number (?F @ replicate r New) ?w)" using reaches_trans by blast
  moreover obtain G where "list_all (\<lambda>t. t = Freed) G"
    "reaches c o1 number (at_loop number (?F @ replicate r New) ?w) (at_loop number G (snd (ports_Create c (createOpts o1) ?w)))"
    using shared_flight [of ?F r c o1 number number ?w] r(1) by (auto simp: list_all_iff)
  moreover have "snd (ports_Create c (createOpts o1) ?w) = ((\<lambda>w. snd (ports_Create c (createOpts o1) w)) ^^ k) w"
    using assms(1) by (cases k) simp_all
  ultimately show ?thesis using reaches_trans by metis
qed

text \<open>
  (C31) Asking for several ports without waiting. Every run of the loop of \<open>UpdatePort\<close> with its tasks has at most six
  turns for each port asked for and goes on until all tasks are done. When they are, between one and
  \<open>number\<close> creation requests have been sent, and each of these numbers comes about in some run: tasks
  that run after the loop has moved on read the same number and share one flight, and tasks that find
  all workers busy are dropped.
\<close>

theorem async_create_outcomes:
  assumes "0 < number"
  shows "{cs_world s |ts s. create_run c o1 number ts (create_start w) = Some s \<and> all_done number s} =
      (\<lambda>k. ((\<lambda>w. snd (ports_Create c (createOpts o1) w)) ^^ k) w) ` {1..number} \<and>
    (\<forall>ts s. create_run c o1 number ts (create_start w) = Some s \<longrightarrow>
      length ts \<le> 6 * number \<and> (all_done number s \<or> (\<exists>t. create_act c o1 number t s \<noteq> None)))"
    (is "?worlds = ?powers \<and> ?ends")
proof (intro conjI equalityI subsetI allI impI)
  fix x
  assume "x \<in> ?worlds"
  then obtain ts s where s: "create_run c o1 number ts (create_start w) = Some s" "all_done number s" "x = cs_world s" by blast
  obtain m where m: "create_inv c o1 number w m s" using create_inv_run [OF s(1) create_inv_start] by blast
  have "cs_tasks s \<noteq> []" using m s(2) assms by (auto simp: create_inv_def all_done_def)
  then have "Freed \<in> set (cs_tasks s)" "\<forall>k. Lead k \<notin> set (cs_tasks s)"
    using s(2) by (cases "cs_tasks s"; auto simp: all_done_def list_all_iff)+
  then have "0 < m" using m by (auto simp: create_inv_def)
  moreover have "m \<le> number" using m s(2) by (auto simp: create_inv_def all_done_def)
  ultimately show "x \<in> ?powers" using m s(3) by (auto simp: create_inv_def)
next
  fix x
  assume "x \<in> ?powers"
  then obtain k where "1 \<le> k" "k \<le> number" "x = ((\<lambda>w. snd (ports_Create c (createOpts o1) w)) ^^ k) w" by auto
  moreover from this obtain G where "list_all (\<lambda>t. t = Freed) G" "reaches c o1 number (create_start w) (at_loop number G x)"
    using some_outcome [of k number c o1 w] by blast
  ultimately obtain ts where "create_run c o1 number ts (create_start w) = Some (at_loop number G x)" "all_done number (at_loop number G x)"
    by (auto simp: reaches_def all_done_def)
  then show "x \<in> ?worlds" by force
next
  fix ts s
  assume run: "create_run c o1 number ts (create_start w) = Some s"
  show "length ts \<le> 6 * number" using create_run_turns [OF run] by (simp add: turns_left_def create_start_def)
  show "all_done number s \<or> (\<exists>t. create_act c o1 number t s \<noteq> None)"
    using create_inv_run [OF run create_inv_start] create_progress [of c o1 number w _ s] by blast
qed

theorem async_create_outcomes_witness:
  "{cs_world s |ts s. create_run demoCloud demoOpt 3 ts (create_start 0) = Some s \<and> all_done 3 s} = {1, 2, 3}"
proof -
  have "((\<lambda>w. snd (ports_Create demoCloud (createOpts demoOpt) w)) ^^ k) 0 = k" for k
    by (induction k) (simp_all add: demoCloud_def)
  then have "(\<lambda>k. ((\<lambda>w. snd (ports_Create demoCloud (createOpts demoOpt) w)) ^^ k) 0) ` {1..3} = {1, 2, 3}" by auto
  then show ?thesis using async_create_outcomes [of 3 demoCloud demoOpt 0] by simp
qed

end
