(* ===== verification/Json.thy ===== *)
theory Json
  imports Prelude
begin

text \<open>
  \<open>encoding/json\<close> of Go's standard library as far as the sources use it: the scanner that reads a text byte by
  byte, the decoding of quoted strings, and the comparison of names without regard to case. A
  string is the list of its bytes.
\<close>

datatype json = JNull | JBool bool | JNum string | JStr string | JArr "json list" | JObj "(string \<times> json) list"

section \<open>UTF-8\<close>

abbreviation byte :: "char \<Rightarrow> nat" where
  "byte c \<equiv> of_char c"

definition cont :: "char \<Rightarrow> bool" where
  "cont c \<longleftrightarrow> 128 \<le> byte c \<and> byte c < 192"

text \<open>The length of the encoded character at the front, for characters of more than one byte.\<close>

fun twoBytes :: "string \<Rightarrow> bool" where
  "twoBytes (a # b # _) = (194 \<le> byte a \<and> byte a < 224 \<and> cont b)"
| "twoBytes _ = False"

fun threeBytes :: "string \<Rightarrow> bool" where
  "threeBytes (a # b # c # _) = (224 \<le> byte a \<and> byte a < 240 \<and> cont b \<and> cont c \<and>
     (byte a = 224 \<longrightarrow> 160 \<le> byte b) \<and> (byte a = 237 \<longrightarrow> byte b < 160))"
| "threeBytes _ = False"

fun fourBytes :: "string \<Rightarrow> bool" where
  "fourBytes (a # b # c # d # _) = (240 \<le> byte a \<and> byte a < 245 \<and> cont b \<and> cont c \<and> cont d \<and>
     (byte a = 240 \<longrightarrow> 144 \<le> byte b) \<and> (byte a = 244 \<longrightarrow> byte b < 144))"
| "fourBytes _ = False"

definition utf8Len :: "string \<Rightarrow> nat option" where
  "utf8Len s = (if twoBytes s then Some 2 else if threeBytes s then Some 3 else if fourBytes s then Some 4 else None)"

fun utf8Valid :: "string \<Rightarrow> bool" where
  "utf8Valid [] = True"
| "utf8Valid (c # cs) = (if byte c < 128 then utf8Valid cs
     else case utf8Len (c # cs) of None \<Rightarrow> False | Some n \<Rightarrow> utf8Valid (drop (n - 1) cs))"

definition RuneError :: string where
  "RuneError = [char_of (239::nat), char_of (191::nat), char_of (189::nat)]"

definition AppendRune :: "nat \<Rightarrow> string" where
  "AppendRune r =
     (if r < 128 then [char_of r]
      else if r < 2048 then [char_of (192 + r div 64), char_of (128 + r mod 64)]
      else if 55296 \<le> r \<and> r < 57344 \<or> 1114111 < r then RuneError
      else if r < 65536 then [char_of (224 + r div 4096), char_of (128 + r div 64 mod 64), char_of (128 + r mod 64)]
      else [char_of (240 + r div 262144), char_of (128 + r div 4096 mod 64), char_of (128 + r div 64 mod 64), char_of (128 + r mod 64)])"

section \<open>Quoted strings\<close>

definition hexVal :: "char \<Rightarrow> nat option" where
  "hexVal c = (if 48 \<le> byte c \<and> byte c \<le> 57 then Some (byte c - 48)
     else if 97 \<le> byte c \<and> byte c \<le> 102 then Some (byte c - 87)
     else if 65 \<le> byte c \<and> byte c \<le> 70 then Some (byte c - 55) else None)"

text \<open>\<open>getu4\<close> behind the letter \<open>u\<close>: four hexadecimal digits.\<close>

fun hex4 :: "string \<Rightarrow> nat option" where
  "hex4 (a # b # c # d # _) = (case (hexVal a, hexVal b, hexVal c, hexVal d) of
      (Some w, Some x, Some y, Some z) \<Rightarrow> Some (4096 * w + 256 * x + 16 * y + z)
    | _ \<Rightarrow> None)"
| "hex4 _ = None"

text \<open>The second half of a surrogate pair.\<close>

definition lowHalf :: "string \<Rightarrow> nat option" where
  "lowHalf s = (if take 2 s = [CHR 0x5C, CHR ''u'']
     then (case hex4 (drop 2 s) of Some y \<Rightarrow> if 56320 \<le> y \<and> y < 57344 then Some y else None | None \<Rightarrow> None) else None)"

definition escapeOf :: "char \<Rightarrow> char" where
  "escapeOf c = (if c = CHR ''b'' then char_of (8::nat) else if c = CHR ''f'' then char_of (12::nat)
     else if c = CHR ''n'' then char_of (10::nat) else if c = CHR ''r'' then char_of (13::nat)
     else if c = CHR ''t'' then char_of (9::nat) else c)"

text \<open>\<open>unquoteBytes\<close> on what the scanner has accepted between the quotes.\<close>

fun unquote :: "string \<Rightarrow> string" where
  "unquote [] = []"
| "unquote (c # cs) =
     (if c = CHR 0x5C then
        (case cs of
           [] \<Rightarrow> []
         | e # r \<Rightarrow>
             if e \<noteq> CHR ''u'' then escapeOf e # unquote r
             else (case hex4 r of
                 None \<Rightarrow> []
               | Some x \<Rightarrow>
                   if 55296 \<le> x \<and> x < 57344
                   then (case if x < 56320 then lowHalf (drop 4 r) else None of
                       Some y \<Rightarrow> AppendRune (65536 + 1024 * (x - 55296) + (y - 56320)) @ unquote (drop 10 r)
                     | None \<Rightarrow> RuneError @ unquote (drop 4 r))
                   else AppendRune x @ unquote (drop 4 r)))
      else if byte c < 128 then c # unquote cs
      else case utf8Len (c # cs) of
          Some n \<Rightarrow> c # take (n - 1) cs @ unquote (drop (n - 1) cs)
        | None \<Rightarrow> RuneError @ unquote cs)"

section \<open>The scanner\<close>

definition isBlank :: "char \<Rightarrow> bool" where
  "isBlank c \<longleftrightarrow> byte c \<in> {9, 10, 13, 32}"

definition isDigit :: "char \<Rightarrow> bool" where
  "isDigit c \<longleftrightarrow> 48 \<le> byte c \<and> byte c \<le> 57"

datatype num_state = Neg | Zero | Digits | Dot | Fraction | Exp | ExpSign | ExpDigits

fun num_step :: "num_state \<Rightarrow> char \<Rightarrow> num_state option" where
  "num_step Neg c = (if c = CHR ''0'' then Some Zero else if isDigit c then Some Digits else None)"
| "num_step Zero c = (if c = CHR ''.'' then Some Dot else if c = CHR ''e'' \<or> c = CHR ''E'' then Some Exp else None)"
| "num_step Digits c = (if isDigit c then Some Digits else if c = CHR ''.'' then Some Dot
     else if c = CHR ''e'' \<or> c = CHR ''E'' then Some Exp else None)"
| "num_step Dot c = (if isDigit c then Some Fraction else None)"
| "num_step Fraction c = (if isDigit c then Some Fraction else if c = CHR ''e'' \<or> c = CHR ''E'' then Some Exp else None)"
| "num_step Exp c = (if c = CHR ''+'' \<or> c = CHR ''-'' then Some ExpSign else if isDigit c then Some ExpDigits else None)"
| "num_step ExpSign c = (if isDigit c then Some ExpDigits else None)"
| "num_step ExpDigits c = (if isDigit c then Some ExpDigits else None)"

definition num_end :: "num_state \<Rightarrow> bool" where
  "num_end n \<longleftrightarrow> n = Zero \<or> n = Digits \<or> n = Fraction \<or> n = ExpDigits"

definition num_first :: "char \<Rightarrow> num_state option" where
  "num_first c = (if c = CHR ''-'' then Some Neg else if c = CHR ''0'' then Some Zero else if isDigit c then Some Digits else None)"

text \<open>
  What is open around the current place: arrays with the elements read so far and objects with the members read so far and the
  name of the member being read, both the last first.
\<close>

datatype frame = InArr "json list" | InObj "(string \<times> json) list" string

type_synonym json_members = "(string \<times> json) list"

text \<open>A string that is read is a value, or the name of the next member (\<open>Some\<close>). \<open>Hex n\<close>: \<open>n\<close> hexadecimal digits are missing.\<close>

datatype scan_mode =
    Value | FirstElem | FirstKey | NextKey json_members | Colon json_members string
  | Str "json_members option" string | Esc "json_members option" string | Hex nat "json_members option" string
  | Num num_state string | Lit string json | After json

definition maxNestingDepth :: nat where
  "maxNestingDepth = 10000"

type_synonym scan = "scan_mode \<times> frame list"

definition begin_value :: "frame list \<Rightarrow> char \<Rightarrow> scan option" where
  "begin_value K c =
     (if isBlank c then Some (Value, K)
      else if c = CHR ''{'' then (if length K < maxNestingDepth then Some (FirstKey, K) else None)
      else if c = CHR ''['' then (if length K < maxNestingDepth then Some (FirstElem, K) else None)
      else if c = CHR 0x22 then Some (Str None [], K)
      else if c = CHR ''t'' then Some (Lit ''rue'' (JBool True), K)
      else if c = CHR ''f'' then Some (Lit ''alse'' (JBool False), K)
      else if c = CHR ''n'' then Some (Lit ''ull'' JNull, K)
      else map_option (\<lambda>n. (Num n [c], K)) (num_first c))"

fun end_value :: "json \<Rightarrow> frame list \<Rightarrow> char \<Rightarrow> scan option" where
  "end_value v [] c = (if isBlank c then Some (After v, []) else None)"
| "end_value v (InArr es # K) c =
     (if isBlank c then Some (After v, InArr es # K)
      else if c = CHR '','' then Some (Value, InArr (v # es) # K)
      else if c = CHR '']'' then Some (After (JArr (rev (v # es))), K) else None)"
| "end_value v (InObj ms k # K) c =
     (if isBlank c then Some (After v, InObj ms k # K)
      else if c = CHR '','' then Some (NextKey ((k, v) # ms), K)
      else if c = CHR ''}'' then Some (After (JObj (rev ((k, v) # ms))), K) else None)"

definition end_string :: "json_members option \<Rightarrow> string \<Rightarrow> scan_mode" where
  "end_string k raw = (case k of None \<Rightarrow> After (JStr (unquote (rev raw))) | Some ms \<Rightarrow> Colon ms (unquote (rev raw)))"

fun scan_step :: "scan \<Rightarrow> char \<Rightarrow> scan option" where
  "scan_step (Value, K) c = begin_value K c"
| "scan_step (FirstElem, K) c =
     (if isBlank c then Some (FirstElem, K) else if c = CHR '']'' then Some (After (JArr []), K) else begin_value (InArr [] # K) c)"
| "scan_step (FirstKey, K) c =
     (if isBlank c then Some (FirstKey, K) else if c = CHR ''}'' then Some (After (JObj []), K)
      else if c = CHR 0x22 then Some (Str (Some []) [], K) else None)"
| "scan_step (NextKey ms, K) c =
     (if isBlank c then Some (NextKey ms, K) else if c = CHR 0x22 then Some (Str (Some ms) [], K) else None)"
| "scan_step (Colon ms k, K) c =
     (if isBlank c then Some (Colon ms k, K) else if c = CHR '':'' then Some (Value, InObj ms k # K) else None)"
| "scan_step (Str k raw, K) c =
     (if c = CHR 0x22 then Some (end_string k raw, K)
      else if c = CHR 0x5C then Some (Esc k (c # raw), K)
      else if byte c < 32 then None else Some (Str k (c # raw), K))"
| "scan_step (Esc k raw, K) c =
     (if c = CHR ''u'' then Some (Hex 4 k (c # raw), K)
      else if c \<in> set [CHR ''b'', CHR ''f'', CHR ''n'', CHR ''r'', CHR ''t'', CHR 0x5C, CHR ''/'', CHR 0x22] then Some (Str k (c # raw), K)
      else None)"
| "scan_step (Hex n k raw, K) c =
     (if hexVal c = None then None else if n \<le> 1 then Some (Str k (c # raw), K) else Some (Hex (n - 1) k (c # raw), K))"
| "scan_step (Num n raw, K) c = (case num_step n c of
      Some n' \<Rightarrow> Some (Num n' (c # raw), K)
    | None \<Rightarrow> if num_end n then end_value (JNum (rev raw)) K c else None)"
| "scan_step (Lit l v, K) c = (case l of
      [] \<Rightarrow> None
    | x # xs \<Rightarrow> if c \<noteq> x then None else if xs = [] then Some (After v, K) else Some (Lit xs v, K))"
| "scan_step (After v, K) c = end_value v K c"

fun scan_all :: "scan \<Rightarrow> string \<Rightarrow> scan option" where
  "scan_all s [] = Some s"
| "scan_all s (c # cs) = (case scan_step s c of None \<Rightarrow> None | Some s' \<Rightarrow> scan_all s' cs)"

text \<open>At the end of the text the scanner takes one more blank: a number at the top ends there.\<close>

definition parse :: "string \<Rightarrow> json option" where
  "parse text = (case scan_all (Value, []) (text @ '' '') of Some (After v, []) \<Rightarrow> Some v | _ \<Rightarrow> None)"

section \<open>Names without regard to case\<close>

text \<open>
  \<open>foldName\<close>: letters of ASCII in upper case, and the two other characters that fold to one of them, the long s and
  the Kelvin sign.
\<close>

definition upper :: "char \<Rightarrow> char" where
  "upper c = (if 97 \<le> byte c \<and> byte c \<le> 122 then char_of (byte c - 32) else c)"

fun foldName :: "string \<Rightarrow> string" where
  "foldName [] = []"
| "foldName (c # cs) =
     (if byte c = 197 \<and> map byte (take 1 cs) = [191] then CHR ''S'' # foldName (drop 1 cs)
      else if byte c = 226 \<and> map byte (take 2 cs) = [132, 170] then CHR ''K'' # foldName (drop 2 cs)
      else upper c # foldName cs)"

section \<open>Printing\<close>

text \<open>A compact printer, against which the scanner is checked; control characters, quotes and backslashes are escaped.\<close>

definition hexDigit :: "nat \<Rightarrow> char" where
  "hexDigit d = (if d < 10 then char_of (48 + d) else char_of (87 + d))"

definition quoteChar :: "char \<Rightarrow> string" where
  "quoteChar c =
     (if c = CHR 0x22 \<or> c = CHR 0x5C then [CHR 0x5C, c]
      else if byte c < 32 then [CHR 0x5C, CHR ''u'', CHR ''0'', CHR ''0'', hexDigit (byte c div 16), hexDigit (byte c mod 16)]
      else [c])"

definition quote :: "string \<Rightarrow> string" where
  "quote s = concat (map quoteChar s)"

fun commas :: "string list \<Rightarrow> string" where
  "commas [] = []"
| "commas [x] = x"
| "commas (x # y # r) = x @ CHR '','' # commas (y # r)"

fun print :: "json \<Rightarrow> string" where
  "print JNull = ''null''"
| "print (JBool b) = (if b then ''true'' else ''false'')"
| "print (JNum n) = n"
| "print (JStr s) = CHR 0x22 # quote s @ [CHR 0x22]"
| "print (JArr vs) = CHR ''['' # commas (map print vs) @ '']''"
| "print (JObj ms) = CHR ''{'' # commas (map (\<lambda>(k, v). CHR 0x22 # quote k @ CHR 0x22 # CHR '':'' # print v) ms) @ ''}''"

text \<open>A number as it stands in the text.\<close>

fun num_run :: "num_state \<Rightarrow> string \<Rightarrow> num_state option" where
  "num_run n [] = Some n"
| "num_run n (c # cs) = (case num_step n c of None \<Rightarrow> None | Some n' \<Rightarrow> num_run n' cs)"

definition isNumber :: "string \<Rightarrow> bool" where
  "isNumber s = (case s of [] \<Rightarrow> False | c # cs \<Rightarrow> (case num_first c of None \<Rightarrow> False
     | Some n \<Rightarrow> (case num_run n cs of None \<Rightarrow> False | Some n' \<Rightarrow> num_end n')))"

fun printable :: "nat \<Rightarrow> json \<Rightarrow> bool" where
  "printable d JNull = True"
| "printable d (JBool _) = True"
| "printable d (JNum n) = isNumber n"
| "printable d (JStr s) = utf8Valid s"
| "printable d (JArr vs) = (d < maxNestingDepth \<and> list_all (printable (Suc d)) vs)"
| "printable d (JObj ms) = (d < maxNestingDepth \<and> list_all (\<lambda>(k, v). utf8Valid k \<and> printable (Suc d) v) ms)"

section \<open>Strings come back\<close>

fun_cases twoBytes_cases: "twoBytes s"
fun_cases threeBytes_cases: "threeBytes s"
fun_cases fourBytes_cases: "fourBytes s"

lemma utf8Len_bytes:
  assumes "utf8Len s = Some n"
  shows "1 < n \<and> n \<le> length s \<and> list_all (\<lambda>c. 128 \<le> byte c) (take n s) \<and> utf8Len (take n s @ t) = Some n"
proof -
  consider "twoBytes s" "n = 2" | "\<not> twoBytes s" "threeBytes s" "n = 3" | "\<not> twoBytes s" "\<not> threeBytes s" "fourBytes s" "n = 4"
    using assms by (auto simp: utf8Len_def split: if_splits)
  then show ?thesis
  proof cases
    case 1
    then show ?thesis by (elim twoBytes_cases) (simp add: utf8Len_def cont_def)
  next
    case 2
    from 2(2) show ?thesis using 2(1,3) by (elim threeBytes_cases) (simp add: utf8Len_def cont_def)
  next
    case 3
    from 3(3) show ?thesis using 3(1,2,4) by (elim fourBytes_cases) (simp add: utf8Len_def cont_def)
  qed
qed

lemma quote_append [simp]: "quote (xs @ ys) = quote xs @ quote ys"
  by (simp add: quote_def)

lemma quote_Cons [simp]: "quote (c # cs) = quoteChar c @ quote cs"
  by (simp add: quote_def)

lemma quote_Nil [simp]: "quote [] = []"
  by (simp add: quote_def)

lemma quoteChar_high: "128 \<le> byte c \<Longrightarrow> quoteChar c = [c]"
  by (auto simp: quoteChar_def)

lemma quote_high: "list_all (\<lambda>c. 128 \<le> byte c) cs \<Longrightarrow> quote cs = cs"
  by (induction cs) (simp_all add: quoteChar_high)

lemma hexVal_hexDigit: "d < 16 \<Longrightarrow> hexVal (hexDigit d) = Some d"
  by (auto simp: hexVal_def hexDigit_def take_bit_eq_mod)

lemma unquote_quoteChar:
  assumes "byte c < 128"
  shows "unquote (quoteChar c @ r) = c # unquote r"
proof (cases "byte c < 32")
  case True
  have c: "c = char_of (byte c)" by simp
  have "c \<noteq> CHR 0x22" "c \<noteq> CHR 0x5C" using True by auto
  moreover have "hexVal (CHR ''0'') = Some 0" by (simp add: hexVal_def)
  moreover have "hexVal (hexDigit (byte c div 16)) = Some (byte c div 16)" "hexVal (hexDigit (byte c mod 16)) = Some (byte c mod 16)"
    using True by (simp_all add: hexVal_hexDigit)
  ultimately show ?thesis using True c
    by (simp add: quoteChar_def AppendRune_def)
next
  case False
  then show ?thesis using assms by (auto simp: quoteChar_def escapeOf_def)
qed

lemma unquote_quote: "utf8Valid s \<Longrightarrow> unquote (quote s) = s"
proof (induction s rule: utf8Valid.induct)
  case (2 c cs)
  show ?case
  proof (cases "byte c < 128")
    case True
    then show ?thesis using 2 by (simp add: unquote_quoteChar del: unquote.simps)
  next
    case False
    then obtain n where n: "utf8Len (c # cs) = Some n" "utf8Valid (drop (n - 1) cs)" using "2.prems" by (auto split: option.splits)
    have IH: "unquote (quote (drop (n - 1) cs)) = drop (n - 1) cs" using "2.IH"(2) [OF False n] .
    have b: "1 < n" "n \<le> Suc (length cs)" "list_all (\<lambda>c. 128 \<le> byte c) (take n (c # cs))"
      "\<And>t. utf8Len (take n (c # cs) @ t) = Some n" using utf8Len_bytes [OF n(1)] by auto
    obtain m where m: "n = Suc m" using b(1) by (cases n) auto
    have "quote cs = quote (take m cs) @ quote (drop m cs)" by (metis append_take_drop_id quote_append)
    then have "quote (c # cs) = c # take m cs @ quote (drop m cs)"
      using quote_high [of "take n (c # cs)"] b(3) m by (simp add: quoteChar_high)
    moreover have "utf8Len (c # take m cs @ quote (drop m cs)) = Some n" using b(4) [of "quote (drop m cs)"] m by simp
    moreover have "c \<noteq> CHR 0x5C" using False by auto
    ultimately show ?thesis using False IH m b(2) by simp
  qed
qed simp

section \<open>Values come back\<close>

lemma scan_all_append: "scan_all s (xs @ ys) = (case scan_all s xs of None \<Rightarrow> None | Some s' \<Rightarrow> scan_all s' ys)"
  by (induction xs arbitrary: s) (auto split: option.splits)

lemma scan_quoteChar: "scan_all (Str k raw, K) (quoteChar c) = Some (Str k (rev (quoteChar c) @ raw), K)"
proof (cases "byte c < 32 \<and> c \<noteq> CHR 0x22 \<and> c \<noteq> CHR 0x5C")
  case True
  have "byte c div 16 < 16" using True by (intro less_mult_imp_div_less) simp
  moreover have "byte c mod 16 < 16" by simp
  ultimately have "hexVal (hexDigit (byte c div 16)) \<noteq> None" "hexVal (hexDigit (byte c mod 16)) \<noteq> None"
    by (simp_all add: hexVal_hexDigit)
  moreover have "hexVal (CHR ''0'') \<noteq> None" by (simp add: hexVal_def)
  ultimately show ?thesis using True by (simp add: quoteChar_def)
next
  case False
  then show ?thesis by (auto simp: quoteChar_def)
qed

lemma scan_quote: "scan_all (Str k raw, K) (quote s) = Some (Str k (rev (quote s) @ raw), K)"
  by (induction s arbitrary: raw) (simp_all add: scan_all_append scan_quoteChar)

lemma scan_string:
  "utf8Valid s \<Longrightarrow> scan_all (Str k [], K) (quote s @ CHR 0x22 # rest) =
     scan_all ((case k of None \<Rightarrow> After (JStr s) | Some ms \<Rightarrow> Colon ms s), K) rest"
  by (simp add: scan_all_append scan_quote end_string_def unquote_quote split: option.splits)

definition closes :: "char \<Rightarrow> bool" where
  "closes d \<longleftrightarrow> d = CHR '','' \<or> d = CHR '']'' \<or> d = CHR ''}'' \<or> d = CHR '' ''"

lemma num_step_closes: "closes d \<Longrightarrow> num_step n d = None"
  by (cases n) (auto simp: closes_def isDigit_def)

lemma scan_num:
  assumes "num_run n cs = Some n'" and "num_end n'" and "closes d"
  shows "scan_all (Num n raw, K) (cs @ d # rest) = scan_all (After (JNum (rev raw @ cs)), K) (d # rest)"
  using assms by (induction cs arbitrary: n raw) (auto simp: num_step_closes split: option.splits)

lemma isNumber_first: "isNumber s \<Longrightarrow> \<exists>c r n n'. s = c # r \<and> num_first c = Some n \<and> num_run n r = Some n' \<and> num_end n'"
  by (auto simp: isNumber_def split: list.splits option.splits)

lemma num_first_chars: "num_first c = Some n \<Longrightarrow> c = CHR ''-'' \<or> isDigit c"
  by (auto simp: num_first_def isDigit_def split: if_splits)

lemma num_first_begins:
  assumes "num_first c = Some n"
  shows "begin_value K c = Some (Num n [c], K)" and "\<not> isBlank c" and "c \<noteq> CHR '']''"
proof -
  have b: "byte c = 45 \<or> 48 \<le> byte c \<and> byte c \<le> 57" using num_first_chars [OF assms] by (auto simp: isDigit_def)
  then show blank: "\<not> isBlank c" by (auto simp: isBlank_def)
  have "c \<noteq> CHR ''{''" "c \<noteq> CHR ''[''" "c \<noteq> CHR 0x22" "c \<noteq> CHR ''t''" "c \<noteq> CHR ''f''" "c \<noteq> CHR ''n''" using b by auto
  then show "begin_value K c = Some (Num n [c], K)" using blank assms by (simp add: begin_value_def)
  show "c \<noteq> CHR '']''" using b by auto
qed

lemma print_first: "printable d v \<Longrightarrow> \<exists>c r. print v = c # r \<and> \<not> isBlank c \<and> c \<noteq> CHR '']''"
proof (induction v)
  case (JNum n)
  then have "isNumber n" by simp
  then obtain c r m where "n = c # r" "num_first c = Some m" using isNumber_first by blast
  then show ?case using num_first_begins(2,3) [of c m] by simp
qed (simp_all add: isBlank_def)

text \<open>What has to be shown of each value: in any place it is read, followed by a character that may close it.\<close>

definition read_back :: "json \<Rightarrow> bool" where
  "read_back v \<longleftrightarrow> (\<forall>K d rest. printable (length K) v \<longrightarrow> closes d \<longrightarrow>
     scan_all (Value, K) (print v @ d # rest) = scan_all (After v, K) (d # rest))"

lemma read_backD:
  "read_back v \<Longrightarrow> printable (length K) v \<Longrightarrow> closes d \<Longrightarrow> scan_all (Value, K) (print v @ d # rest) = scan_all (After v, K) (d # rest)"
  by (simp add: read_back_def)

lemma read_elems:
  assumes "\<forall>v\<in>set (v # vs). read_back v \<and> printable (Suc (length K)) v"
  shows "scan_all (Value, InArr es # K) (commas (map print (v # vs)) @ CHR '']'' # rest) = scan_all (After (JArr (rev es @ v # vs)), K) rest"
  using assms
proof (induction vs arbitrary: v es)
  case Nil
  then show ?case using read_backD [of v "InArr es # K" "CHR '']''" rest] by (simp add: closes_def isBlank_def)
next
  case (Cons u vs)
  then show ?case
    using read_backD [of v "InArr es # K" "CHR '',''" "commas (map print (u # vs)) @ CHR '']'' # rest"] Cons.IH [of u "v # es"]
    by (simp add: closes_def isBlank_def)
qed

lemma first_elem:
  assumes "s = c # r" and "\<not> isBlank c" and "c \<noteq> CHR '']''"
  shows "scan_all (FirstElem, K) (s @ t) = scan_all (Value, InArr [] # K) (s @ t)"
  using assms by simp

definition print_member :: "string \<times> json \<Rightarrow> string" where
  "print_member = (\<lambda>(k, v). CHR 0x22 # quote k @ CHR 0x22 # CHR '':'' # print v)"

lemma read_member:
  assumes "read_back v" and "utf8Valid k" and "printable (Suc (length K)) v" and "closes d"
  shows "scan_all (NextKey ms, K) (print_member (k, v) @ d # rest) = scan_all (After v, InObj ms k # K) (d # rest)"
  using assms read_backD [of v "InObj ms k # K" d rest] by (simp add: print_member_def scan_string isBlank_def)

lemma read_members:
  assumes "\<forall>(k, v)\<in>set (m # mems). read_back v \<and> utf8Valid k \<and> printable (Suc (length K)) v"
  shows "scan_all (NextKey ms, K) (commas (map print_member (m # mems)) @ CHR ''}'' # rest) = scan_all (After (JObj (rev ms @ m # mems)), K) rest"
  using assms
proof (induction mems arbitrary: m ms)
  case Nil
  obtain k v where m: "m = (k, v)" by (cases m)
  then show ?case using Nil read_member [of v k K "CHR ''}''" ms rest]
    by (simp add: closes_def isBlank_def)
next
  case (Cons u mems)
  obtain k v where m: "m = (k, v)" by (cases m)
  then show ?case
    using Cons read_member [of v k K "CHR '',''" ms "commas (map print_member (u # mems)) @ CHR ''}'' # rest"] Cons.IH [of u "m # ms"]
    by (simp add: closes_def isBlank_def)
qed

lemma first_member:
  "scan_all (FirstKey, K) (commas (map print_member (m # mems)) @ t) = scan_all (NextKey [], K) (commas (map print_member (m # mems)) @ t)"
proof -
  obtain r where "commas (map print_member (m # mems)) = CHR 0x22 # r"
    by (cases mems; cases m) (simp_all add: print_member_def)
  then show ?thesis by (simp add: isBlank_def)
qed

lemma print_reads_back: "read_back v"
proof (induction v)
  case (JNum n)
  show ?case unfolding read_back_def
  proof (intro allI impI)
    fix K :: "frame list" and d rest
    assume "printable (length K) (JNum n)" and d: "closes d"
    then have "isNumber n" by simp
    then obtain c r m m' where "n = c # r" "num_first c = Some m" "num_run m r = Some m'" "num_end m'"
      using isNumber_first by blast
    then show "scan_all (Value, K) (print (JNum n) @ d # rest) = scan_all (After (JNum n), K) (d # rest)"
      using scan_num [of m r m' d "[c]" K rest] d by (simp add: num_first_begins(1))
  qed
next
  case (JArr vs)
  show ?case unfolding read_back_def
  proof (intro allI impI)
    fix K :: "frame list" and d rest
    assume p: "printable (length K) (JArr vs)" and d: "closes d"
    show "scan_all (Value, K) (print (JArr vs) @ d # rest) = scan_all (After (JArr vs), K) (d # rest)"
    proof (cases vs)
      case Nil
      then show ?thesis using p by (simp add: begin_value_def isBlank_def)
    next
      case (Cons u us)
      then obtain c r where "print u = c # r" "\<not> isBlank c" "c \<noteq> CHR '']''" using p print_first [of "Suc (length K)" u] by auto
      then obtain r' where "commas (map print vs) = c # r'" by (cases us) (simp_all add: Cons)
      then have "scan_all (Value, K) (print (JArr vs) @ d # rest) = scan_all (Value, InArr [] # K) (commas (map print vs) @ CHR '']'' # d # rest)"
        using p first_elem [of "commas (map print vs)" c r' K "CHR '']'' # d # rest"] \<open>\<not> isBlank c\<close> \<open>c \<noteq> CHR '']''\<close>
        by (simp add: begin_value_def isBlank_def)
      also have "\<dots> = scan_all (After (JArr vs), K) (d # rest)"
        using read_elems [of u us K "[]" "d # rest"] JArr p Cons by (simp add: list_all_iff)
      finally show ?thesis .
    qed
  qed
next
  case (JObj ms)
  show ?case unfolding read_back_def
  proof (intro allI impI)
    fix K :: "frame list" and d rest
    assume p: "printable (length K) (JObj ms)" and d: "closes d"
    have pm: "map (\<lambda>(k, v). CHR 0x22 # quote k @ CHR 0x22 # CHR '':'' # print v) ms = map print_member ms"
      by (simp add: print_member_def)
    show "scan_all (Value, K) (print (JObj ms) @ d # rest) = scan_all (After (JObj ms), K) (d # rest)"
    proof (cases ms)
      case Nil
      then show ?thesis using p by (simp add: begin_value_def isBlank_def)
    next
      case (Cons u us)
      have "\<forall>(k, v)\<in>set (u # us). read_back v \<and> utf8Valid k \<and> printable (Suc (length K)) v"
        using JObj p Cons by (fastforce simp: list_all_iff)
      then have "scan_all (NextKey [], K) (commas (map print_member ms) @ CHR ''}'' # d # rest) = scan_all (After (JObj ms), K) (d # rest)"
        using read_members [of u us K "[]" "d # rest"] Cons by simp
      then show ?thesis using first_member [of K u us "CHR ''}'' # d # rest"] p Cons
        unfolding print.simps pm by (simp add: begin_value_def isBlank_def)
    qed
  qed
qed (auto simp: read_back_def begin_value_def isBlank_def scan_string)

theorem parse_print: "printable 0 v \<Longrightarrow> parse (print v) = Some v"
  using read_backD [OF print_reads_back, of "[]" v "CHR '' ''" "[]"] by (simp add: parse_def closes_def isBlank_def)

end
