(* ===== verification/Metadata.thy ===== *)
theory Metadata
  imports Json Go_Base "HOL-Library.Multiset"
begin

text \<open>
  \<open>src/pkg/infra/metadata/openstack.go\<close>: the description of the virtual machine, read from the metadata service. The
  transport is a parameter; the decoding of the answer is that of \<open>encoding/json\<close> into a struct of
  strings: members that no field is named after are skipped, of several for one field the last one counts, null leaves a
  field alone, and any other value is an error that is reported at the end.
\<close>

section \<open>Decoding\<close>

record md_NodeInfo =
  md_ID :: string
  md_Hostname :: string
  md_ProjectID :: string
  md_Name :: string
  md_AvailabilityZone :: string

definition md_zero :: md_NodeInfo where
  "md_zero = \<lparr>md_ID = [], md_Hostname = [], md_ProjectID = [], md_Name = [], md_AvailabilityZone = []\<rparr>"

datatype md_field = FID | FHostname | FProjectID | FName | FAvailabilityZone

text \<open>The tags of the struct.\<close>

definition md_tags :: "(string \<times> md_field) list" where
  "md_tags = [(''uuid'', FID), (''hostname'', FHostname), (''project_id'', FProjectID), (''name'', FName),
     (''availability_zone'', FAvailabilityZone)]"

fun md_set :: "md_field \<Rightarrow> string \<Rightarrow> md_NodeInfo \<Rightarrow> md_NodeInfo" where
  "md_set FID s n = n\<lparr>md_ID := s\<rparr>"
| "md_set FHostname s n = n\<lparr>md_Hostname := s\<rparr>"
| "md_set FProjectID s n = n\<lparr>md_ProjectID := s\<rparr>"
| "md_set FName s n = n\<lparr>md_Name := s\<rparr>"
| "md_set FAvailabilityZone s n = n\<lparr>md_AvailabilityZone := s\<rparr>"

fun md_get :: "md_field \<Rightarrow> md_NodeInfo \<Rightarrow> string" where
  "md_get FID n = md_ID n"
| "md_get FHostname n = md_Hostname n"
| "md_get FProjectID n = md_ProjectID n"
| "md_get FName n = md_Name n"
| "md_get FAvailabilityZone n = md_AvailabilityZone n"

text \<open>The field a member is for: by its name, else by its name without regard to case.\<close>

definition fieldOf :: "string \<Rightarrow> md_field option" where
  "fieldOf key = (case map_of md_tags key of
      Some f \<Rightarrow> Some f
    | None \<Rightarrow> map_of (map (\<lambda>(n, f). (foldName n, f)) md_tags) (foldName key))"

definition typeError :: "string \<Rightarrow> go_error" where
  "typeError key = Errorf ''json: cannot unmarshal into Go struct field of type string'' [key]"

text \<open>One member; of several errors the first is kept.\<close>

definition storeMember :: "md_NodeInfo \<times> err \<Rightarrow> string \<times> json \<Rightarrow> md_NodeInfo \<times> err" where
  "storeMember = (\<lambda>(node, e) (key, v). case fieldOf key of
      None \<Rightarrow> (node, e)
    | Some f \<Rightarrow> (case v of
        JStr s \<Rightarrow> (md_set f s node, e)
      | JNull \<Rightarrow> (node, e)
      | _ \<Rightarrow> (node, if e = None then Some (typeError key) else e)))"

definition Unmarshal_NodeInfo :: "string \<Rightarrow> md_NodeInfo \<times> err" where
  "Unmarshal_NodeInfo body = (case parse body of
      None \<Rightarrow> (md_zero, Some (Errorf ''invalid JSON'' []))
    | Some (JObj ms) \<Rightarrow> foldl storeMember (md_zero, None) ms
    | Some JNull \<Rightarrow> (md_zero, None)
    | Some _ \<Rightarrow> (md_zero, Some (Errorf ''json: cannot unmarshal into Go value of type metadata.NodeInfo'' [])))"

section \<open>The request\<close>

definition metadataURL :: string where
  "metadataURL = ''http://169.254.169.254/openstack/latest/meta_data.json''"

text \<open>A response with its status code and its body; reading the body can fail.\<close>

record response =
  StatusCode :: int
  Body :: nat

record 'w http =
  http_Get :: "string \<Rightarrow> 'w \<Rightarrow> (go_error + response) \<times> 'w"
  io_ReadAll :: "nat \<Rightarrow> 'w \<Rightarrow> (go_error + string) \<times> 'w"
  Body_Close :: "nat \<Rightarrow> 'w \<Rightarrow> 'w"

text \<open>The context is a parameter of the function that it does not use.\<close>

definition GetMetadata :: "'w http \<Rightarrow> 'ctx \<Rightarrow> 'w \<Rightarrow> (go_error + md_NodeInfo) \<times> 'w" where
  "GetMetadata h ctx w = (case http_Get h metadataURL w of
      (Inl e, w1) \<Rightarrow> (Inl e, w1)
    | (Inr resp, w1) \<Rightarrow> (case io_ReadAll h (Body resp) w1 of
        (Inl e, w2) \<Rightarrow> (Inl e, Body_Close h (Body resp) w2)
      | (Inr body, w2) \<Rightarrow> (case Unmarshal_NodeInfo body of
          (_, Some e) \<Rightarrow> (Inl e, Body_Close h (Body resp) w2)
        | (node, None) \<Rightarrow> (Inr node, Body_Close h (Body resp) w2))))"

section \<open>What is decoded\<close>

lemma md_get_set: "md_get f (md_set g s n) = (if f = g then s else md_get f n)"
  by (cases f; cases g) simp_all

lemma md_ext:
  assumes "\<And>f. md_get f m = md_get f n"
  shows "m = n"
  using assms [of FID] assms [of FHostname] assms [of FProjectID] assms [of FName] assms [of FAvailabilityZone]
  by (cases m; cases n) simp

definition fits :: "string \<times> json \<Rightarrow> bool" where
  "fits m \<longleftrightarrow> fieldOf (fst m) \<noteq> None \<longrightarrow> snd m = JNull \<or> (\<exists>s. snd m = JStr s)"

text \<open>The texts given for a field, in their order.\<close>

definition given :: "md_field \<Rightarrow> (string \<times> json) list \<Rightarrow> string list" where
  "given f ms = List.map_filter (\<lambda>(k, v). case v of JStr s \<Rightarrow> if fieldOf k = Some f then Some s else None | _ \<Rightarrow> None) ms"

lemma storeMember_error: "snd (storeMember (n, e) m) = None \<longleftrightarrow> e = None \<and> fits m"
  by (cases m) (auto simp: storeMember_def fits_def split: option.splits json.splits)

lemma foldl_storeMember_error: "snd (foldl storeMember (n, e) ms) = None \<longleftrightarrow> e = None \<and> list_all fits ms"
proof (induction ms arbitrary: n e)
  case (Cons m ms)
  then show ?case using storeMember_error [of n e m] by (cases "storeMember (n, e) m") auto
qed simp

lemma storeMember_field: "md_get f (fst (storeMember (n, e) m)) = (case given f [m] of [] \<Rightarrow> md_get f n | s # _ \<Rightarrow> s)"
  by (cases m) (auto simp: storeMember_def given_def List.map_filter_def md_get_set split: option.splits json.splits)

lemma given_Cons: "given f (m # ms) = given f [m] @ given f ms"
  by (simp add: given_def List.map_filter_def)

lemma given_one: "given f [m] = [] \<or> (\<exists>s. given f [m] = [s])"
  by (cases m) (auto simp: given_def List.map_filter_def split: json.splits)

lemma foldl_storeMember_field: "md_get f (fst (foldl storeMember (n, e) ms)) = last (md_get f n # given f ms)"
proof (induction ms arbitrary: n e)
  case (Cons m ms)
  obtain n' e' where n': "storeMember (n, e) m = (n', e')" by (cases "storeMember (n, e) m")
  have "md_get f n' = last (md_get f n # given f [m])" using storeMember_field [of f n e m] given_one [of f m] n' by auto
  then show ?case using Cons.IH [of n' e'] n' given_Cons [of f m ms] given_one [of f m] by auto
qed (simp add: given_def List.map_filter_def)

text \<open>
  \<open>GetMetadata\<close> returns a description exactly when the request succeeds, the body can be read, and it is a JSON object in
  which every member that names a field is a string or null, or the text null; each field is then the last string
  given for it, or empty. The status code of the response plays no part, and the body is closed exactly when there
  is a response.
\<close>

theorem GetMetadata_outcome:
  assumes "http_Get h metadataURL w = (Inr resp, w1)" and "io_ReadAll h (Body resp) w1 = (Inr body, w2)"
  shows "snd (GetMetadata h ctx w) = Body_Close h (Body resp) w2 \<and>
    (\<forall>node. fst (GetMetadata h ctx w) = Inr node \<longleftrightarrow>
      (\<exists>ms. (parse body = Some (JObj ms) \<or> parse body = Some JNull \<and> ms = []) \<and> list_all fits ms \<and>
        (\<forall>f. md_get f node = last ([] # given f ms))))"
proof (intro conjI allI)
  show "snd (GetMetadata h ctx w) = Body_Close h (Body resp) w2"
    using assms by (cases "Unmarshal_NodeInfo body") (simp add: GetMetadata_def split: option.splits)
next
  fix node
  have zero: "md_get f md_zero = []" for f by (cases f) (simp_all add: md_zero_def)
  have "fst (GetMetadata h ctx w) = Inr node \<longleftrightarrow> Unmarshal_NodeInfo body = (node, None)"
    using assms by (cases "Unmarshal_NodeInfo body") (auto simp: GetMetadata_def split: option.splits)
  also have "\<dots> \<longleftrightarrow> (\<exists>ms. (parse body = Some (JObj ms) \<or> parse body = Some JNull \<and> ms = []) \<and> foldl storeMember (md_zero, None) ms = (node, None))"
    by (auto simp: Unmarshal_NodeInfo_def split: option.splits json.splits)
  also have "\<dots> \<longleftrightarrow> (\<exists>ms. (parse body = Some (JObj ms) \<or> parse body = Some JNull \<and> ms = []) \<and> list_all fits ms \<and>
        (\<forall>f. md_get f node = last ([] # given f ms)))"
  proof -
    have "foldl storeMember (md_zero, None) ms = (node, None) \<longleftrightarrow> list_all fits ms \<and> (\<forall>f. md_get f node = last ([] # given f ms))" for ms
    proof -
      let ?r = "foldl storeMember (md_zero, None) ms"
      have "fst ?r = node \<longleftrightarrow> (\<forall>f. md_get f node = md_get f (fst ?r))" using md_ext by metis
      then show ?thesis using foldl_storeMember_error [of md_zero None ms] foldl_storeMember_field [of _ md_zero None ms] zero
        by (metis prod.collapse fst_conv snd_conv)
    qed
    then show ?thesis by blast
  qed
  finally show "fst (GetMetadata h ctx w) = Inr node \<longleftrightarrow> (\<exists>ms. (parse body = Some (JObj ms) \<or> parse body = Some JNull \<and> ms = []) \<and>
      list_all fits ms \<and> (\<forall>f. md_get f node = last ([] # given f ms)))" .
qed

section \<open>A description comes back\<close>

definition members_of :: "md_NodeInfo \<Rightarrow> (string \<times> json) list" where
  "members_of n = [(''uuid'', JStr (md_ID n)), (''hostname'', JStr (md_Hostname n)), (''project_id'', JStr (md_ProjectID n)),
     (''name'', JStr (md_Name n)), (''availability_zone'', JStr (md_AvailabilityZone n))]"

lemma given_members: "given f (members_of n) = [md_get f n]"
  by (cases f) (simp_all add: given_def members_of_def List.map_filter_def fieldOf_def md_tags_def)

lemma given_others: "list_all (\<lambda>m. fieldOf (fst m) = None) ms \<Longrightarrow> given f ms = []"
  by (auto simp: given_def List.map_filter_def filter_empty_conv list_all_iff split: json.splits)

lemma given_append: "given f (xs @ ys) = given f xs @ given f ys"
  by (simp add: given_def List.map_filter_def)

lemma given_mset: "mset xs = mset ys \<Longrightarrow> mset (given f xs) = mset (given f ys)"
  by (simp add: given_def List.map_filter_def)

text \<open>
  (C38) Whatever description the service gives comes back: if the body of the answer prints, in any order, the
  five members of a description and any members that name no field, then \<open>GetMetadata\<close> returns that description. The
  strings may hold any valid UTF-8 and the other members any JSON, up to the depth of nesting the decoder takes.
\<close>

theorem GetMetadata_roundtrip:
  assumes "http_Get h metadataURL w = (Inr resp, w1)" and "io_ReadAll h (Body resp) w1 = (Inr (print (JObj ms)), w2)"
    and "mset ms = mset (members_of node @ others)" and "list_all (\<lambda>m. fieldOf (fst m) = None) others" and "printable 0 (JObj ms)"
  shows "GetMetadata h ctx w = (Inr node, Body_Close h (Body resp) w2)"
proof -
  have "mset (given f ms) = {# md_get f node #}" for f
    using given_mset [OF assms(3), of f] given_others [OF assms(4), of f] by (simp add: given_append given_members)
  then have "\<forall>f. md_get f node = last ([] # given f ms)" by (metis last.simps list.distinct(1) mset_single_iff_right)
  moreover have "list_all fits ms"
  proof -
    have "set ms = set (members_of node @ others)" using assms(3) by (rule mset_eq_setD)
    moreover have "list_all fits (members_of node @ others)" using assms(4) by (auto simp: fits_def members_of_def list_all_iff)
    ultimately show ?thesis by (simp add: list_all_iff)
  qed
  ultimately have "fst (GetMetadata h ctx w) = Inr node"
    using GetMetadata_outcome [OF assms(1,2), of ctx] parse_print [OF assms(5)] by blast
  then show ?thesis using GetMetadata_outcome [OF assms(1,2), of ctx] by (metis prod.collapse)
qed

definition demoNode :: md_NodeInfo where
  "demoNode = \<lparr>md_ID = ''8a1f'', md_Hostname = ''vm-1'', md_ProjectID = ''p1'', md_Name = ''vm'', md_AvailabilityZone = ''nova''\<rparr>"

definition demoMembers :: "(string \<times> json) list" where
  "demoMembers = (''devices'', JArr [JNull, JNum ''0'']) # members_of demoNode"

definition demoHttp :: "nat http" where
  "demoHttp = \<lparr>http_Get = \<lambda>_ w. (Inr \<lparr>StatusCode = 200, Body = 0\<rparr>, w + 1), io_ReadAll = \<lambda>_ w. (Inr (print (JObj demoMembers)), w),
     Body_Close = \<lambda>_ w. w + 10\<rparr>"

theorem GetMetadata_roundtrip_witness: "GetMetadata demoHttp () 0 = (Inr demoNode, 11)"
  using GetMetadata_roundtrip [of demoHttp 0 "\<lparr>StatusCode = 200, Body = 0\<rparr>" 1 demoMembers 1 demoNode "[(''devices'', JArr [JNull, JNum ''0''])]" "()"]
  by (simp add: demoHttp_def demoMembers_def members_of_def demoNode_def fieldOf_def md_tags_def maxNestingDepth_def isNumber_def num_first_def num_end_def
      upper_def)

text \<open>An answer that is no description, such as an error page in JSON, gives the empty description and no error, whatever its status code.\<close>

theorem unrelated_answer_accepted:
  assumes "http_Get h metadataURL w = (Inr resp, w1)" and "io_ReadAll h (Body resp) w1 = (Inr (print (JObj ms)), w2)"
    and "list_all (\<lambda>m. fieldOf (fst m) = None) ms" and "printable 0 (JObj ms)"
  shows "fst (GetMetadata h ctx w) = Inr md_zero"
proof -
  have "\<forall>f. md_get f md_zero = last ([] # given f ms)"
    using given_others [OF assms(3)] by (metis last_ConsL md_field.exhaust md_get.simps md_NodeInfo.select_convs md_zero_def)
  moreover have "list_all fits ms" using assms(3) by (auto simp: fits_def list_all_iff)
  ultimately show ?thesis using GetMetadata_outcome [OF assms(1,2), of ctx] parse_print [OF assms(4)] by blast
qed

end
