(* ===== verification/Time_Backoff.thy ===== *)
theory Time_Backoff
  imports Util Strconv
begin

text \<open>
  \<open>TimeBackoff\<close> of \<open>src/pkg/util/backoff.go\<close> with the exponential policy of \<open>cenkalti/backoff\<close> it configures. The
  clock, in nanoseconds, is part of the state; it moves while the operation runs and while the
  loop sleeps. The randomised wait is a parameter, of which only its documented lower bound is used.
  The loop takes fuel; \<open>TimeBackoff_returns\<close> shows that nine attempts are always enough.
\<close>

record 'w timed = "'w base" +
  clock :: int

text \<open>\<open>Rand\<close> of \<open>src/pkg/util/event.go\<close>: the time in seconds, whatever the argument.\<close>

definition Rand :: "int \<Rightarrow> (('w, 'z) timed_scheme, string) go" where
  "Rand n = gets (\<lambda>s. Itoa (clock s div 1000000000))"

record ExponentialBackOff =
  InitialInterval :: int
  MaxInterval :: int
  MaxElapsedTime :: int
  currentInterval :: int
  startTime :: int

text \<open>The defaults of \<open>NewExponentialBackOff\<close>; the multiplier is \<open>1.5\<close>.\<close>

definition NewExponentialBackOff :: "int \<Rightarrow> ExponentialBackOff" where
  "NewExponentialBackOff now = \<lparr>InitialInterval = 500000000, MaxInterval = 60000000000, MaxElapsedTime = 900000000000,
     currentInterval = 500000000, startTime = now\<rparr>"

definition exp_Reset :: "int \<Rightarrow> ExponentialBackOff \<Rightarrow> ExponentialBackOff" where
  "exp_Reset now b = b\<lparr>currentInterval := InitialInterval b, startTime := now\<rparr>"

definition incrementCurrentInterval :: "ExponentialBackOff \<Rightarrow> ExponentialBackOff" where
  "incrementCurrentInterval b = b\<lparr>currentInterval :=
     (if 3 * currentInterval b \<ge> 2 * MaxInterval b then MaxInterval b else currentInterval b * 3 div 2)\<rparr>"

text \<open>\<open>NextBackOff\<close>: the wait, or nothing when the policy says to stop.\<close>

definition exp_NextBackOff ::
  "(int \<Rightarrow> 'w \<Rightarrow> int \<times> 'w) \<Rightarrow> ExponentialBackOff \<Rightarrow> (('w, 'z) timed_scheme, int option \<times> ExponentialBackOff) go" where
  "exp_NextBackOff random b = andThen (gets (\<lambda>s. clock s - startTime b)) (\<lambda>elapsed.
     andThen (inWorld (random (currentInterval b))) (\<lambda>next.
     ret (if MaxElapsedTime b \<noteq> 0 \<and> elapsed + next > MaxElapsedTime b then None else Some next, incrementCurrentInterval b)))"

text \<open>The loop of \<open>Retry\<close> with this policy; \<open>None\<close> when it would go on beyond the fuel.\<close>

fun expRetry ::
  "nat \<Rightarrow> (int \<Rightarrow> 'w \<Rightarrow> int \<times> 'w) \<Rightarrow> (('w, 'z) timed_scheme, err) go \<Rightarrow> ExponentialBackOff \<Rightarrow> (('w, 'z) timed_scheme, err option) go" where
  "expRetry 0 random op b = ret None"
| "expRetry (Suc n) random op b = andThen op (\<lambda>e. case e of
      None \<Rightarrow> ret (Some None)
    | Some e \<Rightarrow> (case permanent e of
        Some pe \<Rightarrow> ret (Some (Some pe))
      | None \<Rightarrow> andThen (exp_NextBackOff random b) (\<lambda>(next, b'). case next of
          None \<Rightarrow> ret (Some (Some e))
        | Some d \<Rightarrow> andThen (modify (\<lambda>s. s\<lparr>clock := clock s + d\<rparr>)) (\<lambda>_. expRetry n random op b'))))"

definition TimeBackoff ::
  "nat \<Rightarrow> (int \<Rightarrow> 'w \<Rightarrow> int \<times> 'w) \<Rightarrow> (('w, 'z) timed_scheme, err) go \<Rightarrow> (('w, 'z) timed_scheme, err option) go" where
  "TimeBackoff n random rfn = andThen (gets clock) (\<lambda>now.
     (let expbf = (NewExponentialBackOff now)\<lparr>InitialInterval := 1000000000, MaxElapsedTime := 30000000000\<rparr> in
      expRetry n random rfn (exp_Reset now expbf)))"

section \<open>Termination\<close>

text \<open>The policy of \<open>TimeBackoff\<close> with a given interval.\<close>

definition policy :: "int \<Rightarrow> int \<Rightarrow> ExponentialBackOff" where
  "policy t0 c = \<lparr>InitialInterval = 1000000000, MaxInterval = 60000000000, MaxElapsedTime = 30000000000,
     currentInterval = c, startTime = t0\<rparr>"

text \<open>An operation that returns and takes at most \<open>d\<close> nanoseconds.\<close>

definition brisk :: "int \<Rightarrow> (('w, 'z) timed_scheme, err) go \<Rightarrow> bool" where
  "brisk d op \<longleftrightarrow> (\<forall>s. \<exists>e s'. op s = (Done e, s') \<and> clock s \<le> clock s' \<and> clock s' \<le> clock s + d)"

definition fair :: "(int \<Rightarrow> 'w \<Rightarrow> int \<times> 'w) \<Rightarrow> bool" where
  "fair random \<longleftrightarrow> (\<forall>c\<ge>0. \<forall>w. c div 2 \<le> fst (random c w))"

definition finishes :: "int \<Rightarrow> (('w, 'z) timed_scheme, err option) go \<Rightarrow> int \<Rightarrow> int \<Rightarrow> bool" where
  "finishes d f t0 low \<longleftrightarrow> (\<forall>s. t0 + low \<le> clock s \<and> clock s \<le> t0 + 30000000000 \<longrightarrow>
     (\<exists>e s'. f s = (Done (Some e), s') \<and> clock s' \<le> t0 + 30000000000 + d))"

text \<open>
  Before an attempt at least the current interval less a second has passed: the waits so far were
  at least half their intervals, which grow by one half.
\<close>

lemma fair_wait: "fair random \<Longrightarrow> 0 \<le> c \<Longrightarrow> random c w = (d, w') \<Longrightarrow> c div 2 \<le> d"
  unfolding fair_def by (metis fst_conv)

lemma expRetry_last:
  fixes op :: "(('w, 'z) timed_scheme, err) go"
  assumes "brisk d op" and "fair random" and "c - 1000000000 + c div 2 > 30000000000"
  shows "finishes d (expRetry (Suc n) random op (policy t0 c)) t0 (c - 1000000000)"
  unfolding finishes_def
proof (intro allI impI)
  fix s :: "('w, 'z) timed_scheme"
  assume s: "t0 + (c - 1000000000) \<le> clock s \<and> clock s \<le> t0 + 30000000000"
  obtain e s1 where op: "op s = (Done e, s1)" "clock s \<le> clock s1" "clock s1 \<le> clock s + d" using assms(1) unfolding brisk_def by metis
  have "0 \<le> c" using assms(3) by linarith
  obtain wait w where r: "random c (world s1) = (wait, w)" by fastforce
  have "clock s1 - t0 + wait > 30000000000" using fair_wait [OF assms(2) \<open>0 \<le> c\<close> r] s op(2) assms(3) by linarith
  then show "\<exists>e s'. expRetry (Suc n) random op (policy t0 c) s = (Done (Some e), s') \<and> clock s' \<le> t0 + 30000000000 + d"
    using op s r by (cases e) (auto simp: exp_NextBackOff_def policy_def inWorld_def split: option.split)
qed

lemma expRetry_next:
  fixes op :: "(('w, 'z) timed_scheme, err) go"
  assumes "brisk d op" and "fair random" and "0 \<le> c" and "3 * c < 120000000000"
    and more: "finishes d (expRetry n random op (policy t0 (c * 3 div 2))) t0 (c * 3 div 2 - 1000000000)"
  shows "finishes d (expRetry (Suc n) random op (policy t0 c)) t0 (c - 1000000000)"
  unfolding finishes_def
proof (intro allI impI)
  fix s :: "('w, 'z) timed_scheme"
  assume s: "t0 + (c - 1000000000) \<le> clock s \<and> clock s \<le> t0 + 30000000000"
  obtain e s1 where op: "op s = (Done e, s1)" "clock s \<le> clock s1" "clock s1 \<le> clock s + d" using assms(1) unfolding brisk_def by metis
  obtain wait w where r: "random c (world s1) = (wait, w)" by fastforce
  let ?s2 = "s1\<lparr>world := w, clock := clock s1 + wait\<rparr>"
  show "\<exists>e s'. expRetry (Suc n) random op (policy t0 c) s = (Done (Some e), s') \<and> clock s' \<le> t0 + 30000000000 + d"
  proof (cases "clock s1 - t0 + wait > 30000000000")
    case True
    then show ?thesis using op s r by (cases e) (auto simp: exp_NextBackOff_def policy_def inWorld_def split: option.split)
  next
    case False
    have "c * 3 div 2 = c + c div 2" by simp
    then have "t0 + (c * 3 div 2 - 1000000000) \<le> clock ?s2" using fair_wait [OF assms(2,3) r] s op(2) by simp
    then obtain e2 s3 where "expRetry n random op (policy t0 (c * 3 div 2)) ?s2 = (Done (Some e2), s3)" "clock s3 \<le> t0 + 30000000000 + d"
      using more False unfolding finishes_def by fastforce
    with False show ?thesis using op s r assms(4)
      by (cases e) (auto simp: exp_NextBackOff_def policy_def inWorld_def incrementCurrentInterval_def split: option.split)
  qed
qed

text \<open>
  (C40) \<open>TimeBackoff\<close> returns. Whatever the random numbers are, as long as a wait is at least half its interval, an
  operation that returns within \<open>d\<close> nanoseconds is tried at most nine times, and \<open>TimeBackoff\<close> is over
  \<open>d\<close> nanoseconds after the thirty seconds at the latest.
\<close>

theorem TimeBackoff_returns:
  fixes op :: "(('w, 'z) timed_scheme, err) go"
  assumes "brisk d op" and "fair random"
  shows "\<exists>e s'. TimeBackoff (9 + n) random op s = (Done (Some e), s') \<and> clock s' \<le> clock s + 30000000000 + d"
proof -
  let ?f = "\<lambda>k c. finishes d (expRetry k random op (policy (clock s) c)) (clock s) (c - 1000000000)"
  have step: "?f (Suc k) c" if "?f k c'" "c' = c * 3 div 2" "0 \<le> c" "3 * c < 120000000000" for k c c'
    using expRetry_next [OF assms that(3,4)] that(1,2) by blast
  have "?f (Suc n) 25628906250" by (rule expRetry_last [OF assms]) simp
  then have "?f (Suc (Suc n)) 17085937500" by (rule step) simp_all
  then have "?f (Suc (Suc (Suc n))) 11390625000" by (rule step) simp_all
  then have "?f (Suc (Suc (Suc (Suc n)))) 7593750000" by (rule step) simp_all
  then have "?f (Suc (Suc (Suc (Suc (Suc n))))) 5062500000" by (rule step) simp_all
  then have "?f (Suc (Suc (Suc (Suc (Suc (Suc n)))))) 3375000000" by (rule step) simp_all
  then have "?f (Suc (Suc (Suc (Suc (Suc (Suc (Suc n))))))) 2250000000" by (rule step) simp_all
  then have "?f (Suc (Suc (Suc (Suc (Suc (Suc (Suc (Suc n)))))))) 1500000000" by (rule step) simp_all
  then have "?f (Suc (Suc (Suc (Suc (Suc (Suc (Suc (Suc (Suc n))))))))) 1000000000" by (rule step) simp_all
  moreover have "Suc (Suc (Suc (Suc (Suc (Suc (Suc (Suc (Suc n)))))))) = 9 + n" by simp
  ultimately have "?f (9 + n) 1000000000" by metis
  then show ?thesis
    unfolding finishes_def TimeBackoff_def by (simp add: exp_Reset_def NewExponentialBackOff_def policy_def)
qed

definition slow_failure :: "(nat timed, err) go" where
  "slow_failure = andThen (modify (\<lambda>s. s\<lparr>clock := clock s + 5\<rparr>)) (\<lambda>_. ret (Some (InfraError ''down'')))"

theorem TimeBackoff_returns_witness:
  "\<exists>e s'. TimeBackoff 9 (\<lambda>c w. (c, w + 1)) slow_failure \<lparr>world = 0, tape = [], clock = 7\<rparr> = (Done (Some e), s') \<and>
     clock s' \<le> 30000000012"
proof -
  have "brisk 5 slow_failure" by (simp add: brisk_def slow_failure_def)
  moreover have "fair (\<lambda>c (w :: nat). (c, w + 1))" by (simp add: fair_def) presburger
  ultimately show ?thesis
    using TimeBackoff_returns [of 5 slow_failure "\<lambda>c w. (c, w + 1)" 0 "\<lparr>world = 0, tape = [], clock = 7\<rparr>"] by simp
qed

end
