(* ===== verification/Openstack_Auth.thy ===== *)
theory Openstack_Auth
  imports Infra
begin

text \<open>
  The constructors of \<open>src/pkg/infra/openstack.go\<close>: two authenticated providers (one scoped to the
  project, one to the domain), the service clients made from them and the worker pools.
  The SDK \<open>gophercloud\<close> and the pool library are parameters: the record \<open>sdk\<close> of their calls, on the
  outside world where they talk to the services. An authenticated session is opaque (\<open>'p\<close>), so are a
  service client (\<open>'c\<close>) and a pool (\<open>'q\<close>).
\<close>

section \<open>Statements that return a value and an error\<close>

text \<open>\<open>x, err := f(); if err != nil { return nil, err }\<close>\<close>

definition andTry :: "('s, 'e + 'a) go \<Rightarrow> ('a \<Rightarrow> ('s, 'e + 'b) go) \<Rightarrow> ('s, 'e + 'b) go" where
  "andTry m f = andThen m (\<lambda>r. case r of Inl e \<Rightarrow> ret (Inl e) | Inr a \<Rightarrow> f a)"

lemma andTry_Inr_iff:
  "andTry m f s = (Done (Inr b), s'') \<longleftrightarrow> (\<exists>a s'. m s = (Done (Inr a), s') \<and> f a s' = (Done (Inr b), s''))"
  by (auto simp: andTry_def andThen_def split: prod.splits outcome.splits sum.splits)

lemma andTry_Inl_iff:
  "andTry m f s = (Done (Inl e), s'') \<longleftrightarrow>
     m s = (Done (Inl e), s'') \<or> (\<exists>a s'. m s = (Done (Inr a), s') \<and> f a s' = (Done (Inl e), s''))"
  by (auto simp: andTry_def andThen_def split: prod.splits outcome.splits sum.splits)

lemma andTry_Done [simp]: "m s = (Done (Inr a), s') \<Longrightarrow> andTry m f s = f a s'"
  "m s = (Done (Inl e), s') \<Longrightarrow> andTry m f s = (Done (Inl e), s')"
  by (simp_all add: andTry_def)

section \<open>The SDK\<close>

record AuthScope =
  sc_ProjectID :: string
  sc_ProjectName :: string
  sc_DomainID :: string
  sc_DomainName :: string
  sc_System :: bool

text \<open>The fields of \<open>gophercloud.AuthOptions\<close> that the code touches; the credentials are opaque.\<close>

record 'k AuthOptions =
  ao_credentials :: 'k
  ao_TenantName :: string
  ao_Scope :: "AuthScope option"

text \<open>
  A provider: its session, the time-out of its HTTP client in nanoseconds (a \<open>time.Duration\<close>), and the
  options its \<open>ReauthFunc\<close> has captured.
\<close>

record ('p, 'k) provider =
  pr_session :: 'p
  pr_Timeout :: int
  pr_reauth :: "'k AuthOptions"

record ('w, 'p, 'c, 'q, 'k) sdk =
  AuthOptionsFromEnv :: "'w \<Rightarrow> (go_error + 'k AuthOptions) \<times> 'w"
  Getenv :: "string \<Rightarrow> 'w \<Rightarrow> string \<times> 'w"
  AuthenticatedClient :: "'k AuthOptions \<Rightarrow> 'w \<Rightarrow> (go_error + 'p) \<times> 'w"
  CopyTokenFrom :: "'p \<Rightarrow> 'p \<Rightarrow> 'p"
  NewNetworkV2 :: "('p, 'k) provider \<Rightarrow> 'w \<Rightarrow> (go_error + 'c) \<times> 'w"
  NewComputeV2 :: "('p, 'k) provider \<Rightarrow> 'w \<Rightarrow> (go_error + 'c) \<times> 'w"
  NewIdentityV3 :: "('p, 'k) provider \<Rightarrow> 'w \<Rightarrow> (go_error + 'c) \<times> 'w"
  ants_NewPool :: "int \<Rightarrow> 'w \<Rightarrow> (go_error + 'q) \<times> 'w"

section \<open>Constructors\<close>

text \<open>\<open>time.Second * time.Duration(n)\<close>\<close>

definition seconds :: "int \<Rightarrow> int" where
  "seconds n = wrap64 (1000000000 * n)"

definition domainOptions :: "string \<Rightarrow> 'k AuthOptions \<Rightarrow> 'k AuthOptions" where
  "domainOptions name opt = opt\<lparr>ao_TenantName := [],
     ao_Scope := Some \<lparr>sc_ProjectID = [], sc_ProjectName = [], sc_DomainID = [], sc_DomainName = name, sc_System = False\<rparr>\<rparr>"

definition newProviderClientOrDie ::
  "('w, 'p, 'c, 'q, 'k) sdk \<Rightarrow> bool \<Rightarrow> int \<Rightarrow> (('w, 'z) base_scheme, go_error + ('p, 'k) provider) go" where
  "newProviderClientOrDie k domainScope timeout = andTry (inWorld (AuthOptionsFromEnv k)) (\<lambda>opt.
     andThen (if domainScope
              then andThen (inWorld (Getenv k ''OS_DOMAIN_NAME'')) (\<lambda>name. ret (domainOptions name opt))
              else ret opt) (\<lambda>opt.
     andTry (inWorld (AuthenticatedClient k opt)) (\<lambda>p.
     ret (Inr \<lparr>pr_session = p, pr_Timeout = seconds timeout, pr_reauth = opt\<rparr>))))"

text \<open>The closure \<open>ReauthFunc\<close> of a provider, and the provider afterwards.\<close>

definition ReauthFunc ::
  "('w, 'p, 'c, 'q, 'k) sdk \<Rightarrow> ('p, 'k) provider \<Rightarrow> (('w, 'z) base_scheme, err \<times> ('p, 'k) provider) go" where
  "ReauthFunc k p = andThen (inWorld (AuthenticatedClient k (pr_reauth p))) (\<lambda>r. case r of
      Inl e \<Rightarrow> ret (Some e, p)
    | Inr newprov \<Rightarrow> ret (None, p\<lparr>pr_session := CopyTokenFrom k (pr_session p) newprov\<rparr>))"

definition newNetworkV2ClientOrDie ::
  "('w, 'p, 'c, 'q, 'k) sdk \<Rightarrow> ('p, 'k) provider \<Rightarrow> (('w, 'z) base_scheme, go_error + 'c) go" where
  "newNetworkV2ClientOrDie k p = andTry (inWorld (NewNetworkV2 k p)) (\<lambda>client. ret (Inr client))"

definition newComputeV2ClientOrDie ::
  "('w, 'p, 'c, 'q, 'k) sdk \<Rightarrow> ('p, 'k) provider \<Rightarrow> (('w, 'z) base_scheme, go_error + 'c) go" where
  "newComputeV2ClientOrDie k p = andTry (inWorld (NewComputeV2 k p)) (\<lambda>client. ret (Inr client))"

definition newIdentityV3ClientOrDie ::
  "('w, 'p, 'c, 'q, 'k) sdk \<Rightarrow> ('p, 'k) provider \<Rightarrow> (('w, 'z) base_scheme, go_error + 'c) go" where
  "newIdentityV3ClientOrDie k p = andTry (inWorld (NewIdentityV3 k p)) (\<lambda>client. ret (Inr client))"

record ('c, 'q) OpenstackClient =
  neutronV2 :: 'c
  novaV2 :: 'c
  keystoneV3 :: 'c
  oc_cfg :: InfraCfg
  oc_createPool :: 'q
  oc_attPool :: 'q

definition clientTimeout :: "InfraCfg \<Rightarrow> int" where
  "clientTimeout cfg = (let mintimeout = 10 in
     if InfraTimeout cfg < mintimeout then mintimeout else InfraTimeout cfg)"

definition NewOpenstackClient ::
  "('w, 'p, 'c, 'q, 'k) sdk \<Rightarrow> InfraCfg \<Rightarrow> (('w, 'z) base_scheme, go_error + ('c, 'q) OpenstackClient) go" where
  "NewOpenstackClient k cfg =
     andTry (newProviderClientOrDie k False (clientTimeout cfg)) (\<lambda>provider.
     andTry (newProviderClientOrDie k True (clientTimeout cfg)) (\<lambda>domainTokenProvider.
     andTry (newNetworkV2ClientOrDie k provider) (\<lambda>netV2.
     andTry (newComputeV2ClientOrDie k provider) (\<lambda>computeV2.
     andTry (newIdentityV3ClientOrDie k domainTokenProvider) (\<lambda>idenV3.
     andTry (inWorld (ants_NewPool k 50)) (\<lambda>p1.
     andTry (inWorld (ants_NewPool k 50)) (\<lambda>p2.
     ret (Inr \<lparr>neutronV2 = netV2, novaV2 = computeV2, keystoneV3 = idenV3, oc_cfg = cfg, oc_createPool = p1, oc_attPool = p2\<rparr>))))))))"

section \<open>Lemmas\<close>

lemma seconds_small: "0 \<le> n \<Longrightarrow> n \<le> 9223372036 \<Longrightarrow> seconds n = 1000000000 * n"
  by (simp add: seconds_def in_int64_def)

lemma inWorld_eq_Done: "inWorld f s = (Done a, s') \<longleftrightarrow> (\<exists>w. f (world s) = (a, w) \<and> s' = s\<lparr>world := w\<rparr>)"
  by (auto simp: inWorld_def split: prod.splits)

lemmas made_simps = andTry_Inr_iff andThen_eq_Done_iff inWorld_eq_Done newNetworkV2ClientOrDie_def
  newComputeV2ClientOrDie_def newIdentityV3ClientOrDie_def

text \<open>
  What a provider is made of: the session the SDK gives for the options of the environment, scoped to
  the domain when asked for.
\<close>

definition provider_for :: "('w, 'p, 'c, 'q, 'k) sdk \<Rightarrow> bool \<Rightarrow> int \<Rightarrow> ('p, 'k) provider \<Rightarrow> bool" where
  "provider_for k d t p \<longleftrightarrow> pr_Timeout p = seconds t \<and>
     (\<exists>w w'. AuthenticatedClient k (pr_reauth p) w = (Inr (pr_session p), w')) \<and>
     (\<exists>opt w w'. AuthOptionsFromEnv k w = (Inr opt, w') \<and>
        (if d then (\<exists>name w w'. Getenv k ''OS_DOMAIN_NAME'' w = (name, w') \<and> pr_reauth p = domainOptions name opt)
         else pr_reauth p = opt))"

lemma provider_made:
  "newProviderClientOrDie k d t s = (Done (Inr p), s') \<Longrightarrow> provider_for k d t p"
  by (cases d) (auto simp: newProviderClientOrDie_def provider_for_def made_simps, blast+)

text \<open>
  A client that \<open>NewOpenstackClient\<close> returns talks to the network and compute services in the scope of
  the project and to the identity service in the scope of the domain of \<open>OS_DOMAIN_NAME\<close>, without a
  project; every request is given the configured number of seconds, ten at least, as far as a
  \<open>time.Duration\<close> can hold them.
\<close>

theorem NewOpenstackClient_made:
  assumes "NewOpenstackClient k cfg s = (Done (Inr c), s')"
  shows "\<exists>p d w1 w1' w2 w2' w3 w3'. provider_for k False (max 10 (InfraTimeout cfg)) p \<and>
     provider_for k True (max 10 (InfraTimeout cfg)) d \<and>
     NewNetworkV2 k p w1 = (Inr (neutronV2 c), w1') \<and> NewComputeV2 k p w2 = (Inr (novaV2 c), w2') \<and>
     NewIdentityV3 k d w3 = (Inr (keystoneV3 c), w3') \<and>
     (InfraTimeout cfg \<le> 9223372036 \<longrightarrow> pr_Timeout p = 1000000000 * max 10 (InfraTimeout cfg) \<and> pr_Timeout d = pr_Timeout p)"
proof -
  have t: "clientTimeout cfg = max 10 (InfraTimeout cfg)" by (simp add: clientTimeout_def)
  obtain p d s1 s2 s3 s4 s5 where p: "newProviderClientOrDie k False (clientTimeout cfg) s = (Done (Inr p), s1)"
    and d: "newProviderClientOrDie k True (clientTimeout cfg) s1 = (Done (Inr d), s2)"
    and c: "newNetworkV2ClientOrDie k p s2 = (Done (Inr (neutronV2 c)), s3)"
      "newComputeV2ClientOrDie k p s3 = (Done (Inr (novaV2 c)), s4)"
      "newIdentityV3ClientOrDie k d s4 = (Done (Inr (keystoneV3 c)), s5)"
    using assms unfolding NewOpenstackClient_def andTry_Inr_iff by auto
  have pf: "provider_for k False (max 10 (InfraTimeout cfg)) p" "provider_for k True (max 10 (InfraTimeout cfg)) d"
    using provider_made [OF p] provider_made [OF d] by (simp_all add: t)
  moreover have "pr_Timeout p = 1000000000 * max 10 (InfraTimeout cfg) \<and> pr_Timeout d = pr_Timeout p"
    if "InfraTimeout cfg \<le> 9223372036"
    using pf that seconds_small [of "max 10 (InfraTimeout cfg)"] by (simp add: provider_for_def)
  moreover from c obtain w1 w1' w2 w2' w3 w3' where "NewNetworkV2 k p w1 = (Inr (neutronV2 c), w1')"
    "NewComputeV2 k p w2 = (Inr (novaV2 c), w2')" "NewIdentityV3 k d w3 = (Inr (keystoneV3 c), w3')"
    by (auto simp: made_simps)
  ultimately show ?thesis by blast
qed

text \<open>Renewing a token asks for the same options again: the scope of a provider never changes.\<close>

lemma ReauthFunc_scope:
  assumes "ReauthFunc k p s = (Done (e, p'), s')"
  shows "pr_reauth p' = pr_reauth p \<and> pr_Timeout p' = pr_Timeout p \<and> (e \<noteq> None \<longrightarrow> p' = p)"
  using assms by (auto simp: ReauthFunc_def andThen_def split: prod.splits outcome.splits sum.splits)

text \<open>
  Neither the kind of infrastructure nor the credentials of the configuration matter: only the
  time-out does.
\<close>

lemma NewOpenstackClient_cfg:
  assumes "InfraTimeout cfg' = InfraTimeout cfg"
  shows "NewOpenstackClient k cfg' s =
    (case NewOpenstackClient k cfg s of
       (Done (Inr c), s') \<Rightarrow> (Done (Inr (c\<lparr>oc_cfg := cfg'\<rparr>)), s')
     | (Done (Inl e), s') \<Rightarrow> (Done (Inl e), s') | (Panic x, s') \<Rightarrow> (Panic x, s') | (Blocked, s') \<Rightarrow> (Blocked, s'))"
proof -
  have "clientTimeout cfg' = clientTimeout cfg" using assms by (simp add: clientTimeout_def)
  then show ?thesis
    by (simp add: NewOpenstackClient_def andTry_def andThen_def split: prod.splits outcome.splits sum.splits)
qed

section \<open>Example\<close>

text \<open>An SDK that answers every call; a session is the number of the request that made it.\<close>

definition demoSdk :: "(nat, nat, nat \<times> int, int, unit) sdk" where
  "demoSdk = \<lparr>AuthOptionsFromEnv = (\<lambda>w. (Inr \<lparr>ao_credentials = (), ao_TenantName = ''proj'', ao_Scope = None\<rparr>, w)),
     Getenv = (\<lambda>_ w. (''dom'', w)), AuthenticatedClient = (\<lambda>_ w. (Inr w, w + 1)), CopyTokenFrom = (\<lambda>_ p. p),
     NewNetworkV2 = (\<lambda>p w. (Inr (pr_session p, pr_Timeout p), w)), NewComputeV2 = (\<lambda>p w. (Inr (pr_session p, pr_Timeout p), w)),
     NewIdentityV3 = (\<lambda>p w. (Inr (pr_session p, pr_Timeout p), w)), ants_NewPool = (\<lambda>n w. (Inr n, w))\<rparr>"

definition demoInfraCfg :: InfraCfg where
  "demoInfraCfg = \<lparr>InfraType = ''openstack'', InfraTimeout = 3, InfraMutexOnCreate = True,
     Openstack_cfg = \<lparr>AuthUrl = [], CredentialId = [], CredentialSecret = []\<rparr>\<rparr>"

lemma demoSdk_client:
  assumes "world s = 0"
  shows "NewOpenstackClient demoSdk demoInfraCfg s =
     (Done (Inr \<lparr>neutronV2 = (0, seconds 10), novaV2 = (0, seconds 10), keystoneV3 = (1, seconds 10),
        oc_cfg = demoInfraCfg, oc_createPool = 50, oc_attPool = 50\<rparr>), s\<lparr>world := 2\<rparr>)"
  using assms
  by (simp add: NewOpenstackClient_def newProviderClientOrDie_def andTry_def demoSdk_def demoInfraCfg_def clientTimeout_def
      newNetworkV2ClientOrDie_def newComputeV2ClientOrDie_def newIdentityV3ClientOrDie_def inWorld_def andThen_def)

theorem NewOpenstackClient_made_witness:
  "\<exists>c s' p. NewOpenstackClient demoSdk demoInfraCfg \<lparr>world = 0, tape = []\<rparr> = (Done (Inr c), s') \<and>
     provider_for demoSdk False 10 p \<and> pr_Timeout p = 10000000000"
  using NewOpenstackClient_made [OF demoSdk_client [of "\<lparr>world = 0, tape = []\<rparr>"]] demoSdk_client [of "\<lparr>world = 0, tape = []\<rparr>"]
  by (auto simp: demoInfraCfg_def)

end
