(* ===== verification/Config.thy ===== *)
theory Config
  imports Vpc_Config Strconv
begin

text \<open>
  \<open>src/cmd/eni-controller/cmd/config.go\<close>: the configuration of the controller and its reading from
  the environment. A pointer into the configuration, as the table \<open>envInfo\<close> has them, is the
  function that assigns to the field it points to. The environment is a parameter:
  \<open>os.LookupEnv\<close> as a partial function.
\<close>

record Config =
  CommitVersion :: string
  CommitTime :: string
  AppVersion :: string
  GoMaxProcs :: int
  ConfigPath :: string
  GopsListenPort :: string
  PyroscopeAddress :: string
  LogLevel :: string
  EnableMetric :: bool
  EnableLease :: bool
  cfg_Vpc :: VpcCfg
  cfg_Infra :: InfraCfg

record envConf =
  envName :: string
  defaultValue :: string
  required :: bool
  associateStrKey :: "(string \<Rightarrow> Config \<Rightarrow> Config) option"
  associateBoolKey :: "(bool \<Rightarrow> Config \<Rightarrow> Config) option"
  associateIntKey :: "(int \<Rightarrow> Config \<Rightarrow> Config) option"

definition strConf :: "string \<Rightarrow> string \<Rightarrow> bool \<Rightarrow> (string \<Rightarrow> Config \<Rightarrow> Config) \<Rightarrow> envConf" where
  "strConf n d r k = \<lparr>envName = n, defaultValue = d, required = r, associateStrKey = Some k, associateBoolKey = None, associateIntKey = None\<rparr>"

definition boolConf :: "string \<Rightarrow> string \<Rightarrow> bool \<Rightarrow> (bool \<Rightarrow> Config \<Rightarrow> Config) \<Rightarrow> envConf" where
  "boolConf n d r k = \<lparr>envName = n, defaultValue = d, required = r, associateStrKey = None, associateBoolKey = Some k, associateIntKey = None\<rparr>"

definition intConf :: "string \<Rightarrow> string \<Rightarrow> bool \<Rightarrow> (int \<Rightarrow> Config \<Rightarrow> Config) \<Rightarrow> envConf" where
  "intConf n d r k = \<lparr>envName = n, defaultValue = d, required = r, associateStrKey = None, associateBoolKey = None, associateIntKey = Some k\<rparr>"

definition onInfra :: "(InfraCfg \<Rightarrow> InfraCfg) \<Rightarrow> Config \<Rightarrow> Config" where
  "onInfra f c = c\<lparr>cfg_Infra := f (cfg_Infra c)\<rparr>"

definition onOpenstack :: "(OpenstackCfg \<Rightarrow> OpenstackCfg) \<Rightarrow> Config \<Rightarrow> Config" where
  "onOpenstack f = onInfra (\<lambda>i. i\<lparr>Openstack_cfg := f (Openstack_cfg i)\<rparr>)"

definition onVpc :: "(VpcCfg \<Rightarrow> VpcCfg) \<Rightarrow> Config \<Rightarrow> Config" where
  "onVpc f c = c\<lparr>cfg_Vpc := f (cfg_Vpc c)\<rparr>"

definition envInfo :: "envConf list" where
  "envInfo = [
     strConf ''GIT_COMMIT_VERSION'' '''' False (\<lambda>v c. c\<lparr>CommitVersion := v\<rparr>),
     strConf ''GIT_COMMIT_TIME'' '''' False (\<lambda>v c. c\<lparr>CommitTime := v\<rparr>),
     strConf ''VERSION'' '''' False (\<lambda>v c. c\<lparr>AppVersion := v\<rparr>),
     intConf ''GOLANG_ENV_MAXPROCS'' ''8'' False (\<lambda>v c. c\<lparr>GoMaxProcs := v\<rparr>),
     strConf ''ENI_LOG_LEVEL'' ''info'' True (\<lambda>v c. c\<lparr>LogLevel := v\<rparr>),
     strConf ''ENI_GOPS_LISTEN_PORT'' ''5724'' False (\<lambda>v c. c\<lparr>GopsListenPort := v\<rparr>),
     strConf ''ENI_PYROSCOPE_SERVER_ADDRESS'' '''' False (\<lambda>v c. c\<lparr>PyroscopeAddress := v\<rparr>),
     boolConf ''ENI_ENABLED_METRIC'' ''false'' False (\<lambda>v c. c\<lparr>EnableMetric := v\<rparr>),
     boolConf ''ENI_LEADER'' ''false'' False (\<lambda>v c. c\<lparr>EnableLease := v\<rparr>),
     strConf ''ENI_TYPE'' OpenstackType True (\<lambda>v. onInfra (\<lambda>i. i\<lparr>InfraType := v\<rparr>)),
     intConf ''ENI_INFRA_TIMEOUT'' ''60'' False (\<lambda>v. onInfra (\<lambda>i. i\<lparr>InfraTimeout := v\<rparr>)),
     boolConf ''ENI_INFRAMUTEX'' ''true'' False (\<lambda>v. onInfra (\<lambda>i. i\<lparr>InfraMutexOnCreate := v\<rparr>)),
     strConf ''ENI_OPENSTACK_AUTH_URL'' '''' False (\<lambda>v. onOpenstack (\<lambda>o1. o1\<lparr>AuthUrl := v\<rparr>)),
     strConf ''ENI_OPENSTACK_APPLICATION_CREDENTIAL_ID'' '''' False (\<lambda>v. onOpenstack (\<lambda>o1. o1\<lparr>CredentialId := v\<rparr>)),
     strConf ''ENI_OPENSTACK_APPLICATION_CREDENTIAL_SECRET'' '''' False (\<lambda>v. onOpenstack (\<lambda>o1. o1\<lparr>CredentialSecret := v\<rparr>)),
     strConf ''ENI_OPENSTACK_DEFAULT_SUBNAT_ID'' '''' True (\<lambda>v. onVpc (\<lambda>p. p\<lparr>DefaultSubnatId := v\<rparr>)),
     strConf ''ENI_OPENSTACK_DEFAULT_PROJECT_ID'' '''' True (\<lambda>v. onVpc (\<lambda>p. p\<lparr>DefaultProjectId := v\<rparr>))]"

text \<open>\<open>klog.Exitf\<close> ends the process.\<close>

datatype parse_result = Returned err | Exited string

type_synonym environment = "string \<Rightarrow> string option"

text \<open>The value an entry resolves to: the trimmed variable if it is set, else the default.\<close>

definition resolve :: "environment \<Rightarrow> envConf \<Rightarrow> string" where
  "resolve env e = (case env (envName e) of Some v \<Rightarrow> TrimSpace v | None \<Rightarrow> defaultValue e)"

text \<open>The part of the loop body that stores a non-empty value; \<open>Inl\<close> is the early return.\<close>

definition storeEntry :: "envConf \<Rightarrow> string \<Rightarrow> Config \<Rightarrow> go_error + Config" where
  "storeEntry e v c = (case associateStrKey e of
      Some k \<Rightarrow> Inr (k v c)
    | None \<Rightarrow> (case associateBoolKey e of
        Some k \<Rightarrow> (case ParseBool v of
            None \<Rightarrow> Inl (Errorf ''error: %s require a bool value, but get %s'' [envName e, v])
          | Some b \<Rightarrow> Inr (k b c))
      | None \<Rightarrow> (case associateIntKey e of
          Some k \<Rightarrow> (case Atoi v of
              None \<Rightarrow> Inl (Errorf ''error: %s require a int value, but get %s'' [envName e, v])
            | Some i \<Rightarrow> Inr (k i c))
        | None \<Rightarrow> Inl (Errorf ''error: %s doesn't match any controller context'' [envName e]))))"

fun parseLoop :: "environment \<Rightarrow> envConf list \<Rightarrow> Config \<Rightarrow> parse_result \<times> Config" where
  "parseLoop env [] c = (Returned None, c)"
| "parseLoop env (e # es) c =
     (let v = resolve env e in
      if v = [] then
        if required e then (Exited (envName e), c) else parseLoop env es c
      else case storeEntry e v c of
        Inl er \<Rightarrow> (Returned (Some er), c)
      | Inr c' \<Rightarrow> parseLoop env es c')"

definition ParseConfiguration :: "environment \<Rightarrow> Config \<Rightarrow> parse_result \<times> Config" where
  "ParseConfiguration env c = parseLoop env envInfo c"

section \<open>Which environments are accepted\<close>

definition entryOk :: "environment \<Rightarrow> envConf \<Rightarrow> bool" where
  "entryOk env e \<longleftrightarrow>
     (if resolve env e = [] then \<not> required e
      else (associateBoolKey e = None \<or> ParseBool (resolve env e) \<noteq> None) \<and>
           (associateIntKey e = None \<or> Atoi (resolve env e) \<noteq> None))"

text \<open>An entry of the table has exactly one target.\<close>

definition oneKey :: "envConf \<Rightarrow> bool" where
  "oneKey e \<longleftrightarrow> (associateStrKey e \<noteq> None \<and> associateBoolKey e = None \<and> associateIntKey e = None) \<or>
     (associateStrKey e = None \<and> associateBoolKey e \<noteq> None \<and> associateIntKey e = None) \<or>
     (associateStrKey e = None \<and> associateBoolKey e = None \<and> associateIntKey e \<noteq> None)"

lemma storeEntry_ok:
  assumes "oneKey e" and "resolve env e \<noteq> []"
  shows "(\<exists>c'. storeEntry e (resolve env e) c = Inr c') \<longleftrightarrow> entryOk env e"
  using assms by (auto simp: oneKey_def storeEntry_def entryOk_def)

lemma parseLoop_ok_iff:
  assumes "\<forall>e\<in>set es. oneKey e"
  shows "fst (parseLoop env es c) = Returned None \<longleftrightarrow> (\<forall>e\<in>set es. entryOk env e)"
  using assms
proof (induction es arbitrary: c)
  case (Cons e es)
  show ?case
  proof (cases "resolve env e = []")
    case True
    with Cons show ?thesis by (auto simp: entryOk_def)
  next
    case False
    then show ?thesis using storeEntry_ok [of e env c] Cons
      by (cases "storeEntry e (resolve env e) c") auto
  qed
qed simp

lemma envInfo_oneKey: "\<forall>e\<in>set envInfo. oneKey e"
  by (simp add: envInfo_def oneKey_def strConf_def boolConf_def intConf_def)

lemma fold_of_success:
  assumes "parseLoop env es c = (Returned None, c')"
  shows "c' = foldl (\<lambda>c e. if resolve env e = [] then c
      else case storeEntry e (resolve env e) c of Inl _ \<Rightarrow> c | Inr c' \<Rightarrow> c') c es"
  using assms by (induction es arbitrary: c) (auto simp: Let_def split: if_splits sum.splits)

lemma Atoi_defaults: "Atoi ''8'' = Some 8" "Atoi ''60'' = Some 60"
proof -
  have "dec 8 = ''8''" "dec 60 = ''60''" by code_simp+
  then show "Atoi ''8'' = Some 8" "Atoi ''60'' = Some 60" using Atoi_dec [of 8] Atoi_dec [of 60] by simp_all
qed

text \<open>
  \<open>ParseConfiguration\<close> (C39) returns nil exactly when no required variable is blank and every boolean
  and integer variable parses; the variables that matter are spelled out here. A required variable
  that is not set falls back to its default, so that only the two OpenStack ids, which have none,
  must be set.
\<close>

theorem ParseConfiguration_succeeds_iff:
  "fst (ParseConfiguration env c) = Returned None \<longleftrightarrow>
     (\<forall>n\<in>{''ENI_LOG_LEVEL'', ''ENI_TYPE''}. \<forall>v. env n = Some v \<longrightarrow> TrimSpace v \<noteq> []) \<and>
     (\<forall>n\<in>{''ENI_OPENSTACK_DEFAULT_SUBNAT_ID'', ''ENI_OPENSTACK_DEFAULT_PROJECT_ID''}. \<exists>v. env n = Some v \<and> TrimSpace v \<noteq> []) \<and>
     (\<forall>n\<in>{''GOLANG_ENV_MAXPROCS'', ''ENI_INFRA_TIMEOUT''}. \<forall>v. env n = Some v \<longrightarrow> TrimSpace v = [] \<or> Atoi (TrimSpace v) \<noteq> None) \<and>
     (\<forall>n\<in>{''ENI_ENABLED_METRIC'', ''ENI_LEADER'', ''ENI_INFRAMUTEX''}. \<forall>v. env n = Some v \<longrightarrow>
        TrimSpace v = [] \<or> ParseBool (TrimSpace v) \<noteq> None)"
proof -
  note d = Atoi_defaults
  have p: "ParseBool ''true'' = Some True" "ParseBool ''false'' = Some False" by (simp_all add: ParseBool_def)
  have s0: "entryOk env (strConf n dv False k)" for n dv k by (simp add: entryOk_def strConf_def)
  have s1: "entryOk env (strConf n (x # dv) True k) \<longleftrightarrow> (\<forall>v. env n = Some v \<longrightarrow> TrimSpace v \<noteq> [])" for n x dv k
    by (cases "env n") (simp_all add: entryOk_def strConf_def resolve_def)
  have s2: "entryOk env (strConf n [] True k) \<longleftrightarrow> (\<exists>v. env n = Some v \<and> TrimSpace v \<noteq> [])" for n k
    by (cases "env n") (simp_all add: entryOk_def strConf_def resolve_def)
  have b: "ParseBool dv = Some bv \<Longrightarrow> entryOk env (boolConf n dv False k) \<longleftrightarrow>
      (\<forall>v. env n = Some v \<longrightarrow> TrimSpace v = [] \<or> ParseBool (TrimSpace v) \<noteq> None)" for n dv bv k
    by (cases "env n") (simp_all add: entryOk_def boolConf_def resolve_def)
  have i: "Atoi dv = Some iv \<Longrightarrow> entryOk env (intConf n dv False k) \<longleftrightarrow>
      (\<forall>v. env n = Some v \<longrightarrow> TrimSpace v = [] \<or> Atoi (TrimSpace v) \<noteq> None)" for n dv iv k
    by (cases "env n") (simp_all add: entryOk_def intConf_def resolve_def)
  show ?thesis
    unfolding ParseConfiguration_def parseLoop_ok_iff [OF envInfo_oneKey]
    by (simp only: envInfo_def OpenstackType_def list.set ball_simps s0 s1 s2 b [OF p(1)] b [OF p(2)] i [OF d(1)] i [OF d(2)]
        simp_thms conj_ac)
qed

definition zeroConfig :: Config where
  "zeroConfig = \<lparr>CommitVersion = [], CommitTime = [], AppVersion = [], GoMaxProcs = 0, ConfigPath = [], GopsListenPort = [],
     PyroscopeAddress = [], LogLevel = [], EnableMetric = False, EnableLease = False,
     cfg_Vpc = \<lparr>cfg_PreAllocated = 0, cfg_MinAvaliable = 0, WorkerNumber = 0, DefaultSubnatId = [], DefaultProjectId = []\<rparr>,
     cfg_Infra = \<lparr>InfraType = [], InfraTimeout = 0, InfraMutexOnCreate = False,
       Openstack_cfg = \<lparr>AuthUrl = [], CredentialId = [], CredentialSecret = []\<rparr>\<rparr>\<rparr>"

text \<open>
  The defaults: with nothing but the two required ids in the environment, the configuration of
  a fresh process is the documented default, the ids are trimmed, and everything else stays zero:
  in particular the watermarks and the number of workers, which no variable sets.
\<close>

theorem ParseConfiguration_defaults:
  assumes "env ''ENI_OPENSTACK_DEFAULT_SUBNAT_ID'' = Some a" and "env ''ENI_OPENSTACK_DEFAULT_PROJECT_ID'' = Some b"
    and "\<And>n. n \<noteq> ''ENI_OPENSTACK_DEFAULT_SUBNAT_ID'' \<Longrightarrow> n \<noteq> ''ENI_OPENSTACK_DEFAULT_PROJECT_ID'' \<Longrightarrow> env n = None"
    and "TrimSpace a \<noteq> []" and "TrimSpace b \<noteq> []"
  shows "ParseConfiguration env zeroConfig = (Returned None, zeroConfig\<lparr>GoMaxProcs := 8, LogLevel := ''info'',
    GopsListenPort := ''5724'',
    cfg_Vpc := (cfg_Vpc zeroConfig)\<lparr>DefaultSubnatId := TrimSpace a, DefaultProjectId := TrimSpace b\<rparr>,
    cfg_Infra := (cfg_Infra zeroConfig)\<lparr>InfraType := ''openstack'', InfraTimeout := 60, InfraMutexOnCreate := True\<rparr>\<rparr>)"
proof -
  note d = Atoi_defaults
  have p: "ParseBool ''true'' = Some True" "ParseBool ''false'' = Some False" by (simp_all add: ParseBool_def)
  have e: "env ''GIT_COMMIT_VERSION'' = None"
    "env ''GIT_COMMIT_TIME'' = None"
    "env ''VERSION'' = None"
    "env ''GOLANG_ENV_MAXPROCS'' = None"
    "env ''ENI_LOG_LEVEL'' = None"
    "env ''ENI_GOPS_LISTEN_PORT'' = None"
    "env ''ENI_PYROSCOPE_SERVER_ADDRESS'' = None"
    "env ''ENI_ENABLED_METRIC'' = None"
    "env ''ENI_LEADER'' = None"
    "env ''ENI_TYPE'' = None"
    "env ''ENI_INFRA_TIMEOUT'' = None"
    "env ''ENI_INFRAMUTEX'' = None"
    "env ''ENI_OPENSTACK_AUTH_URL'' = None"
    "env ''ENI_OPENSTACK_APPLICATION_CREDENTIAL_ID'' = None"
    "env ''ENI_OPENSTACK_APPLICATION_CREDENTIAL_SECRET'' = None"
    by (rule assms(3); simp)+
  show ?thesis using assms(1,2,4,5)
    by (simp add: e ParseConfiguration_def envInfo_def resolve_def storeEntry_def strConf_def boolConf_def intConf_def d p
        OpenstackType_def onInfra_def onVpc_def zeroConfig_def)
qed

definition ex_env :: environment where
  "ex_env n = (if n = ''ENI_OPENSTACK_DEFAULT_SUBNAT_ID'' then Some '' sub''
     else if n = ''ENI_OPENSTACK_DEFAULT_PROJECT_ID'' then Some ''proj'' else None)"

lemma ex_env_trim: "TrimSpace '' sub'' = ''sub''" "TrimSpace ''proj'' = ''proj''"
  by code_simp+

theorem ParseConfiguration_succeeds_iff_witness:
  "fst (ParseConfiguration ex_env zeroConfig) = Returned None \<and> fst (ParseConfiguration (\<lambda>_. None) zeroConfig) \<noteq> Returned None"
  by (simp add: ParseConfiguration_succeeds_iff) (auto simp: ex_env_def ex_env_trim)

theorem ParseConfiguration_defaults_witness:
  "DefaultSubnatId (cfg_Vpc (snd (ParseConfiguration ex_env zeroConfig))) = ''sub'' \<and>
   WorkerNumber (cfg_Vpc (snd (ParseConfiguration ex_env zeroConfig))) = 0"
proof -
  have "ex_env ''ENI_OPENSTACK_DEFAULT_SUBNAT_ID'' = Some '' sub''" "ex_env ''ENI_OPENSTACK_DEFAULT_PROJECT_ID'' = Some ''proj''"
    "\<And>n. n \<noteq> ''ENI_OPENSTACK_DEFAULT_SUBNAT_ID'' \<Longrightarrow> n \<noteq> ''ENI_OPENSTACK_DEFAULT_PROJECT_ID'' \<Longrightarrow> ex_env n = None"
    by (simp_all add: ex_env_def)
  from ParseConfiguration_defaults [OF this] show ?thesis by (simp add: ex_env_trim zeroConfig_def)
qed

end
