(* ===== verification/Namespace_Ctrl.thy ===== *)
theory Namespace_Ctrl
  imports Vpc_Manager
begin

text \<open>
  \<open>src/pkg/namespace/ns.go\<close>: the controller that tells its callbacks about every namespace that is
  reconciled. Callbacks are registered before the controller runs; a nil one is skipped.
\<close>

type_synonym 'w ns_client = "string \<Rightarrow> 'w \<Rightarrow> (go_error + NamespaceObj) \<times> 'w"

definition ns_RegistCallback :: "'fn option \<Rightarrow> 'fn option list \<Rightarrow> 'fn option list" where
  "ns_RegistCallback fn postfns = postfns @ [fn]"

definition ns_Reconcile ::
  "'w ns_client \<Rightarrow> (NamespaceObj \<Rightarrow> (('w, 'z) base_scheme, unit) go) option list \<Rightarrow> string \<Rightarrow> (('w, 'z) base_scheme, err) go" where
  "ns_Reconcile get postfns reqName = andThen (inWorld (get reqName)) (\<lambda>r. case r of
      Inl e \<Rightarrow> if IsNotFound e then ret None else ret (Some e)
    | Inr inp \<Rightarrow> andThen (forEach (\<lambda>fn. case fn of Some f \<Rightarrow> f inp | None \<Rightarrow> ret ()) postfns) (\<lambda>_. ret None))"

text \<open>The callback of the vpc controller as it is registered with this controller.\<close>

definition ns_vpc_callback ::
  "'w vpc_client \<Rightarrow> (('w, 'z) vpc_ctrl_scheme, 'cb) infra_client \<Rightarrow> ('w, 'z) vpc_ctrl_scheme pool_manager \<Rightarrow>
   ('w, 'z) vpc_ctrl_scheme node_manager \<Rightarrow> NamespaceObj \<Rightarrow> (('w, 'z) vpc_ctrl_scheme, unit) go" where
  "ns_vpc_callback c api pm nm o1 = vpc_callback c api pm nm (NamespaceArg (metaName (ns_meta o1)))"

text \<open>Reconciling never fails because of the callbacks: the error is that of the read.\<close>

lemma ns_Reconcile_error:
  assumes "ns_Reconcile get postfns n s = (Done (Some e), s')"
  shows "fst (get n (world s)) = Inl e \<and> \<not> IsNotFound e"
proof (cases "get n (world s)")
  case (Pair r w)
  with assms show ?thesis
    by (cases r) (auto simp: ns_Reconcile_def andThen_eq_Done_iff split: if_splits)
qed

lemma ns_Reconcile_vpc:
  assumes "get n (world s) = (Inr inp, w)"
  shows "isDone (ns_Reconcile get (ns_RegistCallback (Some (ns_vpc_callback c api pm nm)) []) n s) \<longleftrightarrow>
    isDone (vpc_callback c api pm nm (NamespaceArg (metaName (ns_meta inp))) (s\<lparr>world := w\<rparr>))"
  using assms by (auto simp: ns_Reconcile_def ns_RegistCallback_def ns_vpc_callback_def isDone_iff andThen_eq_Done_iff)

end
