(* ===== verification/Startup.thy ===== *)
theory Startup
  imports Openstack_Auth Config Namespace_Ctrl
begin

text \<open>
  The start of the controller process, \<open>src/cmd/eni-controller/cmd\<close>: flags and environment
  (\<open>command_daemon.go\<close>), the configuration file (\<open>config.go\<close>), \<open>DaemonMain\<close> and the wiring of the
  controllers (\<open>daemon.go\<close>), the controller runtime's manager (\<open>crd_manager.go\<close>). The libraries the
  code calls are parameters: the record \<open>host\<close> of calls on the outside world, and the OpenStack SDK.
  \<open>klog.Fatal\<close> and \<open>klog.Exitf\<close> end the process: they are the left values of the result.
\<close>

section \<open>State and surroundings\<close>

datatype exit = FatalErr go_error | FatalMsg string

record 'w host =
  ReadFile :: "string \<Rightarrow> 'w \<Rightarrow> (go_error + string) \<times> 'w"
  yaml_Unmarshal :: "string \<Rightarrow> Config \<Rightarrow> err \<times> Config"
  gops_Listen :: "string \<Rightarrow> 'w \<Rightarrow> err \<times> 'w"
  Hostname :: "'w \<Rightarrow> (string \<times> err) \<times> 'w"
  pyroscope_Start :: "string \<Rightarrow> string \<Rightarrow> 'w \<Rightarrow> err \<times> 'w"
  NewManager :: "bool \<Rightarrow> 'w \<Rightarrow> err \<times> 'w"
  AddHealthzCheck :: "'w \<Rightarrow> err \<times> 'w"
  AddReadyzCheck :: "'w \<Rightarrow> err \<times> 'w"
  kubernetes_NewForConfig :: "'w \<Rightarrow> err \<times> 'w"
  dynamic_NewForConfig :: "'w \<Rightarrow> err \<times> 'w"
  mgr_Add :: "'w \<Rightarrow> err \<times> 'w"
  Complete :: "string \<Rightarrow> 'w \<Rightarrow> err \<times> 'w"       \<comment> \<open>registers the controller of a kind\<close>
  WaitForCacheSync :: "'w \<Rightarrow> bool \<times> 'w"

text \<open>
  The global \<open>controllerContext\<close> as far as it changes: the configuration, the inner context (not made, or
  made and cancelled or not), the number of processors Go uses, and whether the goroutine that runs
  the manager has been started.
\<close>

record 'w daemon = "'w base" +
  Cfg :: Config
  InnerCtx :: "bool option"
  procs :: int
  started :: bool

definition orFatal :: "('s, err) go \<Rightarrow> ('s, exit + unit) go" where
  "orFatal m = andThen m (\<lambda>e. case e of None \<Rightarrow> ret (Inr ()) | Some x \<Rightarrow> ret (Inl (FatalErr x)))"

definition asFatal :: "('s, go_error + 'a) go \<Rightarrow> ('s, exit + 'a) go" where
  "asFatal m = andThen m (\<lambda>r. ret (map_sum FatalErr id r))"

section \<open>Configuration\<close>

text \<open>\<open>StringVar\<close> stores the default of a flag at once.\<close>

definition BindControllerDaemonFlags :: "Config \<Rightarrow> Config" where
  "BindControllerDaemonFlags c = c\<lparr>ConfigPath := [], GopsListenPort := ''5724'', PyroscopeAddress := []\<rparr>"

text \<open>The \<open>init\<close> of the daemon command; \<open>Verify\<close> does nothing.\<close>

definition daemon_init :: "environment \<Rightarrow> Config \<Rightarrow> exit + Config" where
  "daemon_init env c = (case ParseConfiguration env (BindControllerDaemonFlags c) of
      (Returned None, c') \<Rightarrow> Inr c'
    | (Returned (Some e), _) \<Rightarrow> Inl (FatalErr e)
    | (Exited name, _) \<Rightarrow> Inl (FatalMsg name))"

text \<open>The command line: the flags that are given, parsed before the command runs.\<close>

record flags =
  flag_config_path :: "string option"
  flag_gops_port :: "string option"
  flag_pyroscope :: "string option"

definition parseFlags :: "flags \<Rightarrow> Config \<Rightarrow> Config" where
  "parseFlags f c = c\<lparr>
     ConfigPath := (case flag_config_path f of Some v \<Rightarrow> v | None \<Rightarrow> ConfigPath c),
     GopsListenPort := (case flag_gops_port f of Some v \<Rightarrow> v | None \<Rightarrow> GopsListenPort c),
     PyroscopeAddress := (case flag_pyroscope f of Some v \<Rightarrow> v | None \<Rightarrow> PyroscopeAddress c)\<rparr>"

definition LoadConfigmap :: "'w host \<Rightarrow> (('w, 'z) daemon_scheme, err) go" where
  "LoadConfigmap h = andThen (gets (\<lambda>s. ConfigPath (Cfg s))) (\<lambda>path.
     andThen (inWorld (ReadFile h path)) (\<lambda>r. case r of
       Inl e \<Rightarrow> ret (Some (Errorf ''failed to read config file %s, error: %v'' [path]))
     | Inr bytes \<Rightarrow> andThen (gets Cfg) (\<lambda>c. case yaml_Unmarshal h bytes c of
         (e, c') \<Rightarrow> andThen (modify (\<lambda>s. s\<lparr>Cfg := c'\<rparr>)) (\<lambda>_.
           ret (if e \<noteq> None then Some (Errorf ''failed to parse configmap, error: %v'' []) else None)))))"

section \<open>Surroundings of the controllers\<close>

text \<open>\<open>runtime.GOMAXPROCS(n)\<close> gives the setting and changes it when \<open>n\<close> is positive.\<close>

definition GOMAXPROCS :: "int \<Rightarrow> (('w, 'z) daemon_scheme, int) go" where
  "GOMAXPROCS n = andThen (gets procs) (\<lambda>p. andThen (if n \<ge> 1 then modify (\<lambda>s. s\<lparr>procs := n\<rparr>) else ret ()) (\<lambda>_. ret p))"

definition setMaxProcs :: "(('w, 'z) daemon_scheme, unit) go" where
  "setMaxProcs = andThen (GOMAXPROCS (-1)) (\<lambda>currentP. andThen (gets (\<lambda>s. GoMaxProcs (Cfg s))) (\<lambda>m.
     if currentP > m then andThen (GOMAXPROCS m) (\<lambda>_. ret ()) else ret ()))"

definition setupGops :: "'w host \<Rightarrow> (('w, 'z) daemon_scheme, exit + unit) go" where
  "setupGops h = andThen (gets (\<lambda>s. GopsListenPort (Cfg s))) (\<lambda>port.
     if port \<noteq> []
     then andThen (inWorld (gops_Listen h (''127.0.0.1:'' @ port))) (\<lambda>e.
       ret (if e \<noteq> None then Inl (FatalMsg ''gops failed to listen'') else Inr ()))
     else ret (Inr ()))"

definition setupPyroscope :: "'w host \<Rightarrow> (('w, 'z) daemon_scheme, exit + unit) go" where
  "setupPyroscope h = andThen (gets (\<lambda>s. PyroscopeAddress (Cfg s))) (\<lambda>addr.
     if addr \<noteq> []
     then andThen (inWorld (Hostname h)) (\<lambda>(node, e).
       if e \<noteq> None \<or> node = [] then ret (Inl (FatalMsg ''Failed to get hostname''))
       else andThen (inWorld (pyroscope_Start h addr node)) (\<lambda>e.
         ret (if e \<noteq> None then Inl (FatalMsg ''Failed to setup pyroscope'') else Inr ())))
     else ret (Inr ()))"

text \<open>A failing readiness check is only logged.\<close>

definition newCRDManager :: "'w host \<Rightarrow> bool \<Rightarrow> (('w, 'z) daemon_scheme, exit + unit) go" where
  "newCRDManager h lease = andTry (orFatal (inWorld (NewManager h lease))) (\<lambda>_.
     andThen (inWorld (AddHealthzCheck h)) (\<lambda>e.
       if e \<noteq> None then ret (Inl (FatalMsg ''unable to set up health check''))
       else andThen (inWorld (AddReadyzCheck h)) (\<lambda>_. ret (Inr ()))))"

text \<open>
  The transformation the manager's cache applies to nodes: of the status only the addresses are kept.
  What the code does not look at is opaque.
\<close>

record ('spec, 'rest) full_node =
  fn_meta :: ObjectMeta
  fn_spec :: 'spec
  fn_Addresses :: "NodeAddress list"
  fn_rest :: 'rest              \<comment> \<open>conditions, capacity, images, \<dots>\<close>

datatype ('spec, 'rest) cache_obj = IsNode "('spec, 'rest) full_node" | NotNode

definition TransNode :: "'rest \<Rightarrow> ('spec, 'rest) cache_obj \<Rightarrow> go_error + ('spec, 'rest) cache_obj" where
  "TransNode noStatus inp = (case inp of
      IsNode v \<Rightarrow> Inr (IsNode \<lparr>fn_meta = fn_meta v, fn_spec = fn_spec v, fn_Addresses = fn_Addresses v, fn_rest = noStatus\<rparr>)
    | NotNode \<Rightarrow> Inl (Errorf ''it is not node type'' []))"

section \<open>Wiring\<close>

text \<open>What the wiring leaves behind: the callbacks of the three controllers, the client and the number of workers.\<close>

record ('c, 'q, 'fn) wiring =
  pool_postfns :: "'fn option list"
  node_postfns :: "'fn option list"
  ns_postfns :: "'fn option list"
  wired_api :: "('c, 'q) OpenstackClient"
  workers :: nat

definition RegistCallback :: "'fn option \<Rightarrow> 'fn option list \<Rightarrow> 'fn option list" where
  "RegistCallback fn postfns = postfns @ [fn]"

definition pool_RegistCallback :: "'fn option \<Rightarrow> 'fn option list \<Rightarrow> 'fn option list" where
  "pool_RegistCallback fn postfns = postfns @ [fn]"

text \<open>
  \<open>probe\<close> of the four controllers: each is registered with the runtime for the kind it reconciles. That of the pools and that of the
  nodes first start the goroutine of \<open>handlerCallback\<close>; the vpc manager adds itself as a runnable first.
\<close>

definition pool_probe :: "'w host \<Rightarrow> (('w, 'z) base_scheme, err) go" where
  "pool_probe h = inWorld (Complete h ''SpiderIPPool'')"

definition node_probe :: "'w host \<Rightarrow> (('w, 'z) base_scheme, err) go" where
  "node_probe h = inWorld (Complete h ''Node'')"

definition ns_probe :: "'w host \<Rightarrow> (('w, 'z) base_scheme, err) go" where
  "ns_probe h = inWorld (Complete h ''Namespace'')"

definition vpc_probe :: "'w host \<Rightarrow> (('w, 'z) base_scheme, err) go" where
  "vpc_probe h = andThen (inWorld (mgr_Add h)) (\<lambda>e. if e \<noteq> None then ret e else inWorld (Complete h ''Subnet''))"

text \<open>The namespace controller starts without callbacks and is not handed out when its registration fails.\<close>

definition ns_NewControllerManager :: "'w host \<Rightarrow> (('w, 'z) base_scheme, go_error + 'fn option list) go" where
  "ns_NewControllerManager h = andThen (ns_probe h) (\<lambda>e. case e of None \<Rightarrow> ret (Inr []) | Some x \<Rightarrow> ret (Inl x))"

text \<open>\<open>vpc.NewManager\<close> with its registration; the workers of the infrastructure layer are started before it.\<close>

definition newVpcManager :: "'w host \<Rightarrow> VpcCfg \<Rightarrow> (('w, 'z) base_scheme, exit + nat) go" where
  "newVpcManager h cfg = (case vpc_NewManager cfg None of
      (_, Some e) \<Rightarrow> ret (Inl (FatalErr e))
    | (_, None) \<Rightarrow> andTry (orFatal (vpc_probe h)) (\<lambda>_. ret (Inr (nat (WorkerNumber cfg)))))"

definition initControllerServiceManagers ::
  "('w, 'p, 'c, 'q, 'k) sdk \<Rightarrow> 'w host \<Rightarrow> (('c, 'q) OpenstackClient \<Rightarrow> 'fn) \<Rightarrow> Config \<Rightarrow>
   (('w, 'z) base_scheme, exit + ('c, 'q, 'fn) wiring) go" where
  "initControllerServiceManagers k h GetCallback cfg =
     andTry (orFatal (pool_probe h)) (\<lambda>_.
     andTry (asFatal (NewOpenstackClient k (cfg_Infra cfg))) (\<lambda>api.
     andTry (asFatal (ns_NewControllerManager h)) (\<lambda>nsctrl.
     andTry (orFatal (node_probe h)) (\<lambda>_.
     andTry (newVpcManager h (cfg_Vpc cfg)) (\<lambda>n.
     ret (Inr \<lparr>pool_postfns = pool_RegistCallback (Some (GetCallback api)) [],
        node_postfns = RegistCallback (Some (GetCallback api)) [],
        ns_postfns = ns_RegistCallback (Some (GetCallback api)) nsctrl, wired_api = api, workers = n\<rparr>))))))"

section \<open>The daemon\<close>

text \<open>
  \<open>for sig := range sigCh\<close> over the signals that arrive: the channel is never closed, so that the loop
  waits for the next signal after each of them.
\<close>

fun WatchSignal :: "nat list \<Rightarrow> (('w, 'z) daemon_scheme, unit) go" where
  "WatchSignal [] = block"
| "WatchSignal (sig # sigs) =
     andThen (modify (\<lambda>s. s\<lparr>InnerCtx := map_option (\<lambda>_. True) (InnerCtx s)\<rparr>)) (\<lambda>_. WatchSignal sigs)"

text \<open>The clients of the cluster; the text of the error that is wrapped is not kept.\<close>

definition initK8sClientSet :: "'w host \<Rightarrow> (('w, 'z) base_scheme, err) go" where
  "initK8sClientSet h = andThen (inWorld (kubernetes_NewForConfig h)) (\<lambda>e.
     ret (map_option (\<lambda>_. Errorf ''failed to init K8s clientset: %v'' []) e))"

definition initDynamicClient :: "'w host \<Rightarrow> (('w, 'z) base_scheme, err) go" where
  "initDynamicClient h = andThen (inWorld (dynamic_NewForConfig h)) (\<lambda>e.
     ret (map_option (\<lambda>_. Errorf ''failed to init Kubernetes dynamic client: %v'' []) e))"

text \<open>The manager of the controller runtime, the clients of the cluster and the controllers.\<close>

definition buildManagers ::
  "('w, 'p, 'c, 'q, 'k) sdk \<Rightarrow> 'w host \<Rightarrow> (('c, 'q) OpenstackClient \<Rightarrow> 'fn) \<Rightarrow> Config \<Rightarrow>
   (('w, 'z) daemon_scheme, exit + ('c, 'q, 'fn) wiring) go" where
  "buildManagers k h GetCallback cfg =
     andTry (newCRDManager h (EnableLease cfg)) (\<lambda>_.
     andTry (orFatal (initK8sClientSet h)) (\<lambda>_.
     andTry (orFatal (initDynamicClient h)) (\<lambda>_.
     initControllerServiceManagers k h GetCallback cfg)))"

definition DaemonMain ::
  "('w, 'p, 'c, 'q, 'k) sdk \<Rightarrow> 'w host \<Rightarrow> (('c, 'q) OpenstackClient \<Rightarrow> 'fn) \<Rightarrow> nat list \<Rightarrow> (('w, 'z) daemon_scheme, exit + unit) go" where
  "DaemonMain k h GetCallback sigs =
     andThen setMaxProcs (\<lambda>_.
     andThen (LoadConfigmap h) (\<lambda>_.
     andTry (setupGops h) (\<lambda>_.
     andTry (setupPyroscope h) (\<lambda>_.
     andThen (modify (\<lambda>s. s\<lparr>InnerCtx := Some False\<rparr>)) (\<lambda>_.
     andThen (gets Cfg) (\<lambda>cfg.
     andTry (buildManagers k h GetCallback cfg) (\<lambda>_.
     andThen (modify (\<lambda>s. s\<lparr>started := True\<rparr>)) (\<lambda>_.
     andThen (inWorld (WaitForCacheSync h)) (\<lambda>ok.
     if \<not> ok then ret (Inl (FatalMsg ''failed to wait for syncing controller-runtime cache''))
     else andThen (WatchSignal sigs) (\<lambda>_. ret (Inr ())))))))))))"

text \<open>The command recovers from a panic of the main goroutine and returns.\<close>

definition daemonCmd_Run ::
  "('w, 'p, 'c, 'q, 'k) sdk \<Rightarrow> 'w host \<Rightarrow> (('c, 'q) OpenstackClient \<Rightarrow> 'fn) \<Rightarrow> nat list \<Rightarrow> (('w, 'z) daemon_scheme, exit + unit) go" where
  "daemonCmd_Run k h GetCallback sigs s = (case DaemonMain k h GetCallback sigs s of
      (Panic _, s') \<Rightarrow> (Done (Inr ()), s')
    | r \<Rightarrow> r)"

section \<open>Lemmas\<close>

text \<open>A statement that always comes to its end.\<close>

definition returns :: "('s, 'a) go \<Rightarrow> bool" where
  "returns m \<longleftrightarrow> (\<forall>s. isDone (m s))"

lemma returns_andThen: "returns m \<Longrightarrow> (\<And>a. returns (f a)) \<Longrightarrow> returns (andThen m f)"
  unfolding returns_def isDone_iff by (metis andThen_Done)

lemma returns_andTry: "returns m \<Longrightarrow> (\<And>a. returns (f a)) \<Longrightarrow> returns (andTry m f)"
  unfolding andTry_def by (rule returns_andThen) (auto simp: returns_def isDone_iff split: sum.splits)

lemma returns_basic [simp]: "returns (ret a)" "returns (gets g)" "returns (modify u)" "returns (inWorld w)" "returns (Pair (Done a))"
  by (simp_all add: returns_def isDone_iff inWorld_apply)

lemma returns_orFatal: "returns m \<Longrightarrow> returns (orFatal m)"
  unfolding orFatal_def by (rule returns_andThen) (auto simp: returns_def isDone_iff split: option.splits)

lemma returns_asFatal: "returns m \<Longrightarrow> returns (asFatal m)"
  unfolding asFatal_def by (rule returns_andThen) simp_all

lemma asFatal_Inr_iff [simp]: "asFatal m s = (Done (Inr a), s') \<longleftrightarrow> m s = (Done (Inr a), s')"
proof -
  have "map_sum FatalErr id r = Inr a \<longleftrightarrow> r = Inr a" for r by (cases r) simp_all
  then show ?thesis by (auto simp: asFatal_def andThen_def split: prod.splits outcome.splits)
qed

lemma returns_if: "returns a \<Longrightarrow> returns b \<Longrightarrow> returns (if c then a else b)"
  by simp

lemmas returns_intros = returns_andThen returns_andTry returns_orFatal returns_asFatal returns_if

lemma returns_OpenstackClient: "returns (NewOpenstackClient k cfg)"
  unfolding NewOpenstackClient_def newProviderClientOrDie_def newNetworkV2ClientOrDie_def newComputeV2ClientOrDie_def
    newIdentityV3ClientOrDie_def by (intro returns_intros) simp_all

lemma returns_probe [simp]:
  "returns (pool_probe h)" "returns (node_probe h)" "returns (ns_probe h)" "returns (vpc_probe h)" "returns (ns_NewControllerManager h)"
  "returns (initK8sClientSet h)" "returns (initDynamicClient h)"
  by (auto simp: pool_probe_def node_probe_def ns_probe_def vpc_probe_def ns_NewControllerManager_def initK8sClientSet_def initDynamicClient_def
      split: option.splits intro!: returns_intros)

lemma returns_vpc: "returns (newVpcManager h cfg)"
  by (auto simp: newVpcManager_def split: prod.splits option.splits intro!: returns_intros)

lemma returns_wiring: "returns (initControllerServiceManagers k h cb cfg)"
  unfolding initControllerServiceManagers_def
  by (intro returns_intros returns_OpenstackClient returns_vpc) simp_all

lemma returns_LoadConfigmap: "returns (LoadConfigmap h)"
  unfolding LoadConfigmap_def
  by (intro returns_intros) (auto split: sum.splits prod.splits intro!: returns_intros)

lemma returns_setup: "returns setMaxProcs" "returns (setupGops h)" "returns (setupPyroscope h)" "returns (newCRDManager h l)"
  by (auto simp: setMaxProcs_def GOMAXPROCS_def setupGops_def setupPyroscope_def newCRDManager_def intro!: returns_intros split: prod.splits)

lemma returns_eq: "returns m \<Longrightarrow> \<exists>a s'. m s = (Done a, s')"
  by (auto simp: returns_def isDone_iff)

lemma andThen_by_cases:
  "returns m \<Longrightarrow> (\<And>a s'. m s = (Done a, s') \<Longrightarrow> P (f a s')) \<Longrightarrow> P (andThen m f s)"
  by (metis andThen_Done returns_eq)

lemma andTry_by_cases:
  assumes "returns m" and "\<And>e s'. P (Done (Inl e), s')" and "\<And>a s'. m s = (Done (Inr a), s') \<Longrightarrow> P (f a s')"
  shows "P (andTry m f s)"
proof -
  obtain r s' where r: "m s = (Done r, s')" using returns_eq [OF assms(1)] by blast
  with assms(2,3) show ?thesis by (cases r) simp_all
qed

lemma keeps_andTry [keeps_intro]: "keeps g m \<Longrightarrow> (\<And>a. keeps g (f a)) \<Longrightarrow> keeps g (andTry m f)"
  unfolding andTry_def by (intro keeps_intro)

lemma keeps_orFatal [keeps_intro]: "keeps g m \<Longrightarrow> keeps g (orFatal m)"
  unfolding orFatal_def by (intro keeps_intro)

lemma keeps_asFatal [keeps_intro]: "keeps g m \<Longrightarrow> keeps g (asFatal m)"
  unfolding asFatal_def by (intro keeps_intro)

lemma ns_NewControllerManager_Inr [simp]:
  "ns_NewControllerManager h s = (Done (Inr fns), s') \<longleftrightarrow> fns = [] \<and> ns_probe h s = (Done None, s')"
  by (auto simp: ns_NewControllerManager_def andThen_eq_Done_iff split: option.splits)

text \<open>The construction of the controllers changes nothing but the outside world.\<close>

lemma keeps_probe:
  assumes "\<And>s w. g (s\<lparr>world := w\<rparr>) = g s"
  shows "keeps g (pool_probe h)" "keeps g (node_probe h)" "keeps g (ns_probe h)" "keeps g (vpc_probe h)" "keeps g (ns_NewControllerManager h)"
    "keeps g (initK8sClientSet h)" "keeps g (initDynamicClient h)"
  using assms unfolding pool_probe_def node_probe_def ns_probe_def vpc_probe_def ns_NewControllerManager_def initK8sClientSet_def initDynamicClient_def
  by (auto intro!: keeps_intro split: option.splits)

lemma keeps_wiring:
  assumes "\<And>s w. g (s\<lparr>world := w\<rparr>) = g s"
  shows "keeps g (initControllerServiceManagers k h cb cfg)"
proof -
  have "keeps g (newVpcManager h (cfg_Vpc cfg))"
    unfolding newVpcManager_def using assms by (auto split: prod.splits option.splits intro!: keeps_intro keeps_probe)
  then show ?thesis
    unfolding initControllerServiceManagers_def NewOpenstackClient_def newProviderClientOrDie_def
      newNetworkV2ClientOrDie_def newComputeV2ClientOrDie_def newIdentityV3ClientOrDie_def
    using assms by (intro keeps_intro keeps_probe) simp_all
qed

lemma keeps_CRD: "(\<And>s w. g (s\<lparr>world := w\<rparr>) = g s) \<Longrightarrow> keeps g (newCRDManager h l)"
  unfolding newCRDManager_def by (intro keeps_intro) simp_all

lemma keeps_build: "(\<And>s w. g (s\<lparr>world := w\<rparr>) = g s) \<Longrightarrow> keeps g (buildManagers k h cb cfg)"
  unfolding buildManagers_def by (intro keeps_intro keeps_wiring keeps_CRD keeps_probe) simp_all

lemma returns_build: "returns (buildManagers k h cb cfg)"
  unfolding buildManagers_def by (intro returns_intros returns_setup returns_wiring) simp_all

lemma WatchSignal_blocks:
  "InnerCtx s = Some b \<Longrightarrow> WatchSignal sigs s = (Blocked, s\<lparr>InnerCtx := Some (b \<or> sigs \<noteq> [])\<rparr>)"
proof (induction sigs arbitrary: s b)
  case Nil
  then show ?case by simp
next
  case (Cons sig sigs)
  from Cons.IH [of "s\<lparr>InnerCtx := Some True\<rparr>" True] Cons.prems show ?case by simp
qed

section \<open>Properties\<close>


text \<open>
  The wiring. When the controllers have been made, each of the three controllers that take
  callbacks has exactly one, that of the vpc controller over the OpenStack client; the ids of the
  default subnet are set and the infrastructure layer has the configured number of workers. The
  kind of infrastructure plays no part: a configuration that \<open>NewInfra\<close> rejects is wired all the same.
\<close>

theorem wiring_made:
  assumes up: "initControllerServiceManagers k h cb cfg s = (Done (Inr w), s')"
  shows "pool_postfns w = [Some (cb (wired_api w))] \<and> node_postfns w = [Some (cb (wired_api w))] \<and>
     ns_postfns w = [Some (cb (wired_api w))] \<and> workers w = nat (WorkerNumber (cfg_Vpc cfg)) \<and>
     DefaultProjectId (cfg_Vpc cfg) \<noteq> [] \<and> DefaultSubnatId (cfg_Vpc cfg) \<noteq> [] \<and>
     (\<forall>t. \<exists>w'. initControllerServiceManagers k h (\<lambda>_. ()) (cfg\<lparr>cfg_Infra := (cfg_Infra cfg)\<lparr>InfraType := t\<rparr>\<rparr>) s = (Done (Inr w'), s')) \<and>
     infra_NewInfra new (Some ((cfg_Infra cfg)\<lparr>InfraType := ''aws''\<rparr>)) = Inl (Errorf ''not support infra type %s'' [''aws''])"
proof -
  obtain s1 api s2 s3 s4 n where st: "orFatal (pool_probe h) s = (Done (Inr ()), s1)"
    and api: "NewOpenstackClient k (cfg_Infra cfg) s1 = (Done (Inr api), s2)"
    and r: "ns_probe h s2 = (Done None, s3)"
      "orFatal (node_probe h) s3 = (Done (Inr ()), s4)"
      "newVpcManager h (cfg_Vpc cfg) s4 = (Done (Inr n), s')"
    and w: "w = \<lparr>pool_postfns = pool_RegistCallback (Some (cb api)) [], node_postfns = RegistCallback (Some (cb api)) [],
      ns_postfns = ns_RegistCallback (Some (cb api)) [], wired_api = api, workers = n\<rparr>"
    using up unfolding initControllerServiceManagers_def andTry_Inr_iff by auto
  have v: "n = nat (WorkerNumber (cfg_Vpc cfg))" "DefaultProjectId (cfg_Vpc cfg) \<noteq> []" "DefaultSubnatId (cfg_Vpc cfg) \<noteq> []"
    using r(3) by (auto simp: newVpcManager_def vpc_NewManager_def andTry_Inr_iff split: if_splits)
  have "\<exists>w'. initControllerServiceManagers k h (\<lambda>_. ()) (cfg\<lparr>cfg_Infra := (cfg_Infra cfg)\<lparr>InfraType := t\<rparr>\<rparr>) s = (Done (Inr w'), s')" for t
    using st r api NewOpenstackClient_cfg [of "(cfg_Infra cfg)\<lparr>InfraType := t\<rparr>" "cfg_Infra cfg" k s1]
    by (simp add: initControllerServiceManagers_def)
  with v w show ?thesis by (simp add: RegistCallback_def pool_RegistCallback_def ns_RegistCallback_def infra_NewInfra_def OpenstackType_def)
qed

section \<open>Where a setting comes from\<close>

text \<open>
  A setting that exactly one entry of the table sets, read by \<open>get\<close>: after a successful parse it is the value
  the entry resolves to, or what it was when that is blank.
\<close>

lemma parse_setting:
  assumes "parseLoop env es c = (Returned None, c')" and "es = es1 @ strConf n d r upd # es2"
    and "\<And>v c. get (upd v c) = v"
    and "\<And>e v c c'. e \<in> set es1 \<union> set es2 \<Longrightarrow> storeEntry e v c = Inr c' \<Longrightarrow> get c' = get c"
  shows "get c' = (let v = resolve env (strConf n d r upd) in if v = [] then get c else v)"
proof -
  let ?step = "\<lambda>c e. if resolve env e = [] then c else case storeEntry e (resolve env e) c of Inl _ \<Rightarrow> c | Inr c' \<Rightarrow> c'"
  have keep: "get (foldl ?step c es') = get c" if "set es' \<subseteq> set es1 \<union> set es2" for es' c
    using that
  proof (induction es' arbitrary: c)
    case (Cons e es')
    then have "get (?step c e) = get c" using assms(4) [of e "resolve env e" c] by (auto split: sum.split)
    with Cons show ?case by simp
  qed simp
  have "c' = foldl ?step (?step (foldl ?step c es1) (strConf n d r upd)) es2"
    using fold_of_success [OF assms(1)] assms(2) by simp
  then have "get c' = get (?step (foldl ?step c es1) (strConf n d r upd))" using keep by simp
  then show ?thesis using keep assms(3) by (simp add: Let_def storeEntry_def strConf_def)
qed

text \<open>
  The port of the debugging agent when the process starts and there is no configuration file: the flag
  if it is given, else the trimmed environment variable if it is not blank, else \<open>5724\<close>. Only
  the flag can switch the agent off.
\<close>

theorem gops_port_precedence:
  assumes init: "daemon_init env c0 = Inr c" and none: "ReadFile h (ConfigPath (parseFlags f c)) (world s) = (Inl e, w)"
    and s: "Cfg s = parseFlags f c" and run: "LoadConfigmap h s = (r, s')"
  shows "r = Done (Some (Errorf ''failed to read config file %s, error: %v'' [ConfigPath (parseFlags f c)])) \<and>
     GopsListenPort (Cfg s') = (case flag_gops_port f of Some v \<Rightarrow> v
       | None \<Rightarrow> (case env ''ENI_GOPS_LISTEN_PORT'' of
           Some v \<Rightarrow> if TrimSpace v \<noteq> [] then TrimSpace v else ''5724''
         | None \<Rightarrow> ''5724''))"
proof -
  let ?e = "strConf ''ENI_GOPS_LISTEN_PORT'' ''5724'' False (\<lambda>v c. c\<lparr>GopsListenPort := v\<rparr>)"
  have p: "parseLoop env envInfo (BindControllerDaemonFlags c0) = (Returned None, c)"
    using init by (auto simp: daemon_init_def ParseConfiguration_def split: prod.splits parse_result.splits option.splits)
  have "GopsListenPort c = (let v = resolve env ?e in if v = [] then GopsListenPort (BindControllerDaemonFlags c0) else v)"
    by (rule parse_setting [OF p, of "take 5 envInfo" _ _ _ _ "drop 6 envInfo"])
      (auto simp: envInfo_def storeEntry_def strConf_def boolConf_def intConf_def onInfra_def onOpenstack_def onVpc_def
        split: option.splits)
  then have "GopsListenPort c = (case env ''ENI_GOPS_LISTEN_PORT'' of
       Some v \<Rightarrow> if TrimSpace v \<noteq> [] then TrimSpace v else ''5724'' | None \<Rightarrow> ''5724'')"
    by (simp add: Let_def resolve_def strConf_def BindControllerDaemonFlags_def split: option.splits)
  then show ?thesis using run none s by (auto simp: LoadConfigmap_def parseFlags_def split: option.splits)
qed

text \<open>The cache keeps of a node all that \<open>Reconcile\<close> reads.\<close>

definition node_view :: "('spec, 'rest) full_node \<Rightarrow> NodeObj" where
  "node_view v = \<lparr>no_meta = fn_meta v, no_Addresses = fn_Addresses v\<rparr>"

lemma TransNode_view: "TransNode z (IsNode v) = Inr o1 \<Longrightarrow> \<exists>v'. o1 = IsNode v' \<and> node_view v' = node_view v \<and> fn_spec v' = fn_spec v"
  by (auto simp: TransNode_def node_view_def)

section \<open>Examples\<close>

text \<open>A host on which every step succeeds but the reading of the configuration file.\<close>

definition demoHost :: "nat host" where
  "demoHost = \<lparr>ReadFile = (\<lambda>_ w. (Inl (Errorf ''no such file'' []), w)), yaml_Unmarshal = (\<lambda>_ c. (None, c)),
     gops_Listen = (\<lambda>_ w. (None, w)), Hostname = (\<lambda>w. ((''host'', None), w)), pyroscope_Start = (\<lambda>_ _ w. (None, w)),
     NewManager = (\<lambda>_ w. (None, w)), AddHealthzCheck = (\<lambda>w. (None, w)), AddReadyzCheck = (\<lambda>w. (None, w)),
     kubernetes_NewForConfig = (\<lambda>w. (None, w)), dynamic_NewForConfig = (\<lambda>w. (None, w)), mgr_Add = (\<lambda>w. (None, w)),
     Complete = (\<lambda>_ w. (None, w)), WaitForCacheSync = (\<lambda>w. (True, w))\<rparr>"

definition demoConfig :: Config where
  "demoConfig = zeroConfig\<lparr>GoMaxProcs := 8, GopsListenPort := ''5724'', cfg_Infra := demoInfraCfg,
     cfg_Vpc := (cfg_Vpc zeroConfig)\<lparr>DefaultSubnatId := ''sub'', DefaultProjectId := ''proj''\<rparr>\<rparr>"

definition demoDaemon :: "nat daemon" where
  "demoDaemon = \<lparr>world = 0, tape = [], Cfg = demoConfig, InnerCtx = None, procs = 16, started = False\<rparr>"

lemmas demo_simps = demoHost_def demoConfig_def zeroConfig_def

lemma demo_probe:
  "orFatal (pool_probe demoHost) s = (Done (Inr ()), s)" "orFatal (node_probe demoHost) s = (Done (Inr ()), s)"
  "ns_NewControllerManager demoHost s = (Done (Inr []), s)" "vpc_probe demoHost s = (Done None, s)"
  "orFatal (initK8sClientSet demoHost) s = (Done (Inr ()), s)" "orFatal (initDynamicClient demoHost) s = (Done (Inr ()), s)"
  by (simp_all add: orFatal_def pool_probe_def node_probe_def ns_NewControllerManager_def ns_probe_def vpc_probe_def
      initK8sClientSet_def initDynamicClient_def demoHost_def)

lemma demo_vpc: "newVpcManager demoHost (cfg_Vpc demoConfig) s = (Done (Inr 0), s)"
  by (simp add: newVpcManager_def vpc_NewManager_def orFatal_def demo_probe demoConfig_def zeroConfig_def)

lemma demo_CRD: "newCRDManager demoHost l s = (Done (Inr ()), s)"
  by (simp add: newCRDManager_def orFatal_def demoHost_def)

lemma demo_wiring:
  assumes "world s = 0"
  shows "\<exists>w. initControllerServiceManagers demoSdk demoHost cb demoConfig s = (Done (Inr w), s\<lparr>world := 2\<rparr>)"
proof -
  have "\<exists>api. asFatal (NewOpenstackClient demoSdk (cfg_Infra demoConfig)) s = (Done (Inr api), s\<lparr>world := 2\<rparr>)"
    using demoSdk_client [OF assms] by (simp add: demoConfig_def)
  then show ?thesis
    by (auto simp: initControllerServiceManagers_def demo_probe demo_vpc)
qed

theorem wiring_made_witness:
  "\<exists>w. node_postfns w = [Some ()] \<and> initControllerServiceManagers demoSdk demoHost (\<lambda>_. ()) demoConfig \<lparr>world = 0, tape = []\<rparr> =
     (Done (Inr w), \<lparr>world = 2, tape = []\<rparr>)"
proof -
  obtain w where w: "initControllerServiceManagers demoSdk demoHost (\<lambda>_. ()) demoConfig \<lparr>world = 0, tape = []\<rparr> =
     (Done (Inr w), \<lparr>world = 2, tape = []\<rparr>)" using demo_wiring [of "\<lparr>world = 0, tape = []\<rparr>" "\<lambda>_. ()"] by auto
  with wiring_made [OF w, of "\<lambda>_. Inr ()"] show ?thesis by auto
qed


end
