(* ===== verification/Registration.thy ===== *)
theory Registration
  imports Startup
begin

text \<open>
  The kinds the process knows and the commands it has: \<open>groupversion_info.go\<close>, \<open>register.go\<close> and the \<open>init\<close> of \<open>subnat_types.go\<close>
  under \<open>src/pkg/k8s/apis/eni.io/v1alpha1\<close>, the \<open>init\<close> of \<open>crd_manager.go\<close>, \<open>command_root.go\<close> and \<open>command_shutdown.go\<close>. A scheme is
  the list of the group, version and kind it has a type for. What the other packages add to it and what the
  command library makes of the arguments are parameters.
\<close>

section \<open>The scheme\<close>

type_synonym gvk = "string \<times> string \<times> string"

record Builder =
  b_Group :: string
  b_Version :: string
  b_objects :: "string list list"     \<comment> \<open>one entry for each call of \<open>Register\<close>\<close>

definition Register :: "string list \<Rightarrow> Builder \<Rightarrow> Builder" where
  "Register objects b = b\<lparr>b_objects := b_objects b @ [objects]\<rparr>"

definition AddKnownTypes :: "Builder \<Rightarrow> string list \<Rightarrow> gvk list \<Rightarrow> gvk list" where
  "AddKnownTypes b objects sch = sch @ map (\<lambda>k. (b_Group b, b_Version b, k)) objects"

text \<open>\<open>meta\<close>: the kinds that every group and version has, added after the objects of each call of \<open>Register\<close>.\<close>

definition Builder_AddToScheme :: "(string \<Rightarrow> string \<Rightarrow> gvk list) \<Rightarrow> Builder \<Rightarrow> gvk list \<Rightarrow> gvk list" where
  "Builder_AddToScheme meta b sch = foldl (\<lambda>sch objects. AddKnownTypes b objects sch @ meta (b_Group b) (b_Version b)) sch (b_objects b)"

definition GroupVersion :: "string \<times> string" where
  "GroupVersion = (''eni.io'', ''v1alpha1'')"

definition SchemeBuilder :: Builder where
  "SchemeBuilder = \<lparr>b_Group = fst GroupVersion, b_Version = snd GroupVersion, b_objects = []\<rparr>"

text \<open>\<open>init\<close> of the package; \<open>AddToScheme\<close> is a method value on the same builder and sees what is registered.\<close>

definition subnat_init :: "Builder \<Rightarrow> Builder" where
  "subnat_init b = Register [''SubnetList'', ''Subnet''] b"

definition eni_AddToScheme :: "(string \<Rightarrow> string \<Rightarrow> gvk list) \<Rightarrow> gvk list \<Rightarrow> go_error + gvk list" where
  "eni_AddToScheme meta sch = Inr (Builder_AddToScheme meta (subnat_init SchemeBuilder) sch)"

definition Resource :: "string \<Rightarrow> string \<times> string" where
  "Resource resource = (fst GroupVersion, resource)"

text \<open>\<open>init\<close> of the command: \<open>utilruntime.Must\<close> panics with the first error (the left value).\<close>

definition scheme_init ::
  "(string \<Rightarrow> string \<Rightarrow> gvk list) \<Rightarrow> (gvk list \<Rightarrow> go_error + gvk list) \<Rightarrow> (gvk list \<Rightarrow> go_error + gvk list) \<Rightarrow>
   (gvk list \<Rightarrow> go_error + gvk list) \<Rightarrow> go_error + gvk list" where
  "scheme_init meta clientgo spiderpool cilium = (case clientgo [] of
      Inl e \<Rightarrow> Inl e
    | Inr s1 \<Rightarrow> (case spiderpool s1 of
        Inl e \<Rightarrow> Inl e
      | Inr s2 \<Rightarrow> (case cilium s2 of
          Inl e \<Rightarrow> Inl e
        | Inr s3 \<Rightarrow> eni_AddToScheme meta s3)))"

text \<open>The kinds the controllers are registered for.\<close>

definition gvk_of :: "string \<Rightarrow> gvk" where
  "gvk_of kind =
     (if kind = ''Subnet'' then (fst GroupVersion, snd GroupVersion, kind)
      else if kind = ''SpiderIPPool'' then (''spiderpool.spidernet.io'', ''v2beta1'', kind)
      else ('''', ''v1'', kind))"

text \<open>The runtime refuses to register a controller for a kind that is not in the scheme of its manager.\<close>

definition scheme_host :: "gvk list \<Rightarrow> 'w host \<Rightarrow> 'w host" where
  "scheme_host sch h = h\<lparr>Complete := (\<lambda>kind w. if gvk_of kind \<in> set sch then Complete h kind w
     else (Some (Errorf ''no kind is registered for the type in scheme: %v'' [kind]), w))\<rparr>"

section \<open>The commands\<close>

datatype command = DaemonCmd | ShutdownCmd

definition shutdownCmd_Run :: "('s, exit + unit) go" where
  "shutdownCmd_Run = ret (Inr ())"

text \<open>
  \<open>Execute\<close>: the library picks the command (\<open>None\<close> when it only prints help) or fails, which is printed. \<open>main\<close> then
  returns, so that the process ends with status 0.
\<close>

definition Execute :: "(string list \<Rightarrow> go_error + command option) \<Rightarrow> ('s, exit + unit) go \<Rightarrow> string list \<Rightarrow> ('s, exit + unit) go" where
  "Execute cobra daemonRun args = (case cobra args of
      Inl e \<Rightarrow> ret (Inr ())
    | Inr None \<Rightarrow> ret (Inr ())
    | Inr (Some DaemonCmd) \<Rightarrow> daemonRun
    | Inr (Some ShutdownCmd) \<Rightarrow> shutdownCmd_Run)"

section \<open>Every watched kind is known\<close>

text \<open>A package that adds kinds to a scheme keeps those that are there.\<close>

definition adds :: "(gvk list \<Rightarrow> go_error + gvk list) \<Rightarrow> gvk list \<Rightarrow> bool" where
  "adds add kinds \<longleftrightarrow> (\<forall>sch. \<exists>sch'. add sch = Inr sch' \<and> set sch \<union> set kinds \<subseteq> set sch')"

lemma eni_adds: "adds (eni_AddToScheme meta) [gvk_of ''Subnet'']"
  by (auto simp: adds_def eni_AddToScheme_def Builder_AddToScheme_def subnat_init_def Register_def SchemeBuilder_def AddKnownTypes_def gvk_of_def)

lemma adds_then:
  assumes "adds add kinds"
  obtains sch' where "add sch = Inr sch'" and "set sch \<subseteq> set sch'" and "set kinds \<subseteq> set sch'"
  using assms unfolding adds_def by (metis le_sup_iff)

lemma scheme_init_kinds:
  assumes "adds clientgo [gvk_of ''Node'', gvk_of ''Namespace'']" and "adds spiderpool [gvk_of ''SpiderIPPool'']" and "adds cilium []"
  obtains sch where "scheme_init meta clientgo spiderpool cilium = Inr sch"
    and "\<forall>kind\<in>set [''Node'', ''Namespace'', ''SpiderIPPool'', ''Subnet'']. gvk_of kind \<in> set sch"
proof -
  obtain s1 where s1: "clientgo [] = Inr s1" "set [gvk_of ''Node'', gvk_of ''Namespace''] \<subseteq> set s1" using adds_then [OF assms(1)] .
  obtain s2 where s2: "spiderpool s1 = Inr s2" "set s1 \<subseteq> set s2" "set [gvk_of ''SpiderIPPool''] \<subseteq> set s2" using adds_then [OF assms(2)] .
  obtain s3 where s3: "cilium s2 = Inr s3" "set s2 \<subseteq> set s3" using adds_then [OF assms(3)] .
  obtain s4 where s4: "eni_AddToScheme meta s3 = Inr s4" "set s3 \<subseteq> set s4" "set [gvk_of ''Subnet''] \<subseteq> set s4" using adds_then [OF eni_adds] .
  show thesis using that [of s4] s1 s2 s3 s4 by (auto simp: scheme_init_def)
qed

lemma probes_known:
  assumes "\<forall>kind\<in>set [''Node'', ''Namespace'', ''SpiderIPPool'', ''Subnet'']. gvk_of kind \<in> set sch"
  shows "vpc_probe (scheme_host sch h) = vpc_probe h" "pool_probe (scheme_host sch h) = pool_probe h" "node_probe (scheme_host sch h) = node_probe h"
    "ns_NewControllerManager (scheme_host sch h) = ns_NewControllerManager h"
  using assms by (simp_all add: pool_probe_def node_probe_def ns_NewControllerManager_def ns_probe_def vpc_probe_def scheme_host_def cong: if_cong)

lemma newVpcManager_known:
  assumes "\<forall>kind\<in>set [''Node'', ''Namespace'', ''SpiderIPPool'', ''Subnet'']. gvk_of kind \<in> set sch"
  shows "newVpcManager (scheme_host sch h) cfg = newVpcManager h cfg"
  by (simp add: newVpcManager_def probes_known [OF assms] cong: option.case_cong prod.case_cong)

lemma vpc_unknown:
  assumes "gvk_of ''Subnet'' \<notin> set sch"
  shows "newVpcManager (scheme_host sch h) cfg s \<noteq> (Done (Inr n), s')"
  using assms
  by (auto simp: newVpcManager_def vpc_probe_def scheme_host_def orFatal_def andTry_Inr_iff andThen_eq_Done_iff inWorld_apply
      split: prod.splits option.splits if_splits)

text \<open>
  The scheme never stands in the way of the wiring: with what the packages register at \<open>init\<close>, the controllers are made as they would be by a
  runtime that knows every kind. Without the kinds of this program the wiring never succeeds.
\<close>

theorem scheme_suffices:
  assumes "adds clientgo [gvk_of ''Node'', gvk_of ''Namespace'']" and "adds spiderpool [gvk_of ''SpiderIPPool'']" and "adds cilium []"
  shows "\<exists>sch. scheme_init meta clientgo spiderpool cilium = Inr sch \<and>
    initControllerServiceManagers k (scheme_host sch h) cb cfg = initControllerServiceManagers k h cb cfg"
    and "gvk_of ''Subnet'' \<notin> set sch0 \<Longrightarrow> initControllerServiceManagers k (scheme_host sch0 h) cb cfg s \<noteq> (Done (Inr w), s')"
proof -
  obtain sch where sch: "scheme_init meta clientgo spiderpool cilium = Inr sch"
    "\<forall>kind\<in>set [''Node'', ''Namespace'', ''SpiderIPPool'', ''Subnet'']. gvk_of kind \<in> set sch" using scheme_init_kinds [OF assms] .
  then show "\<exists>sch. scheme_init meta clientgo spiderpool cilium = Inr sch \<and>
      initControllerServiceManagers k (scheme_host sch h) cb cfg = initControllerServiceManagers k h cb cfg"
    by (intro exI [of _ sch]) (simp add: initControllerServiceManagers_def probes_known [OF sch(2)] newVpcManager_known [OF sch(2)])
next
  assume sub: "gvk_of ''Subnet'' \<notin> set sch0"
  show "initControllerServiceManagers k (scheme_host sch0 h) cb cfg s \<noteq> (Done (Inr w), s')"
    by (auto simp: initControllerServiceManagers_def andTry_Inr_iff vpc_unknown [OF sub])
qed

end
