(* ===== verification/Licensegen.thy ===== *)
theory Licensegen
  imports Go_Base Strconv "HOL-Library.Sublist"
begin

text \<open>
  \<open>src/contrib/licensegen/licensegen.go\<close>: prints the licence files under \<open>./vendor\<close>. The paths come in the order of
  \<open>filepath.Walk\<close>, which is a parameter, as is the reading of a file. Letters are those of ASCII.
\<close>

definition slash :: char where
  "slash = CHR ''/''"

definition dot :: char where
  "dot = CHR ''.''"

text \<open>\<open>filepath.Base\<close>: trailing slashes are dropped, then everything up to the last slash.\<close>

definition Base :: "string \<Rightarrow> string" where
  "Base path = (if path = [] then [dot]
     else let p = rev (dropWhile (\<lambda>c. c = slash) (rev path)) in
       if p = [] then [slash] else rev (takeWhile (\<lambda>c. c \<noteq> slash) (rev p)))"

text \<open>\<open>filepath.Ext\<close> of a name without slashes: from the last dot on.\<close>

definition Ext :: "string \<Rightarrow> string" where
  "Ext name = (if dot \<in> set name then dot # rev (takeWhile (\<lambda>c. c \<noteq> dot) (rev name)) else [])"

definition TrimSuffix :: "string \<Rightarrow> string \<Rightarrow> string" where
  "TrimSuffix s suf = (if suffix suf s then take (length s - length suf) s else s)"

definition lower :: "char \<Rightarrow> char" where
  "lower c = (if 65 \<le> (of_char c :: nat) \<and> (of_char c :: nat) \<le> 90 then char_of (of_char c + 32 :: nat) else c)"

definition ToLower :: "string \<Rightarrow> string" where
  "ToLower = map lower"

definition isLicence :: "string \<Rightarrow> bool" where
  "isLicence path = (let base = Base path; ext = Ext base; stem = TrimSuffix base ext in
     (stem = ''LICENSE'' \<or> stem = ''COPYING'') \<and>
     TrimPrefix (ToLower ext) ''.'' \<in> set ['''', ''code'', ''docs'', ''libyaml'', ''md'', ''txt''])"

text \<open>
  What is printed, line by line, and the error of \<open>log.Fatal\<close>, which ends the process. The error and the kind of a visited path are
  not looked at; an error of the walk itself comes last.
\<close>

fun licensegen :: "(string \<Rightarrow> go_error + string) \<Rightarrow> err \<Rightarrow> string list \<Rightarrow> string list \<times> err" where
  "licensegen ReadFile walkErr [] = ([], walkErr)"
| "licensegen ReadFile walkErr (path # paths) =
     (if isLicence path
      then (case ReadFile path of
          Inl e \<Rightarrow> ([''Name: '' @ path], Some e)
        | Inr lb \<Rightarrow> (case licensegen ReadFile walkErr paths of (out, e) \<Rightarrow> ((''Name: '' @ path) # (''License: '' @ lb) # out, e)))
      else licensegen ReadFile walkErr paths)"

section \<open>Which files are printed\<close>

lemma split_last_dot:
  assumes "dot \<in> set name"
  shows "\<exists>stem e. name = stem @ dot # e \<and> dot \<notin> set e \<and> Ext name = dot # e"
proof -
  obtain e stem where r: "rev name = e @ dot # stem" "dot \<notin> set e" using assms split_list_first [of dot "rev name"] by auto
  then have "takeWhile (\<lambda>c. c \<noteq> dot) (rev name) = e" by (auto simp: takeWhile_append)
  moreover have "name = rev stem @ dot # rev e" using arg_cong [OF r(1), of rev] by simp
  ultimately show ?thesis using assms r(2) by (intro exI [of _ "rev stem"] exI [of _ "rev e"]) (simp add: Ext_def)
qed

lemma Ext_append: "dot \<notin> set e \<Longrightarrow> Ext (stem @ dot # e) = dot # e"
  by (auto simp: Ext_def takeWhile_append)

lemma lower_dot: "lower dot = dot"
  by (simp add: lower_def dot_def)

text \<open>
  A path is printed exactly when its last element is \<open>LICENSE\<close> or \<open>COPYING\<close>, alone or followed by a dot and nothing or one of five
  extensions in letters of any case.
\<close>

theorem isLicence_iff:
  "isLicence path \<longleftrightarrow> (\<exists>stem e. stem \<in> set [''LICENSE'', ''COPYING''] \<and> dot \<notin> set e \<and> ToLower e \<in> set ['''', ''code'', ''docs'', ''libyaml'', ''md'', ''txt''] \<and>
     (Base path = stem \<and> e = [] \<or> Base path = stem @ dot # e))"
proof (cases "dot \<in> set (Base path)")
  case True
  then obtain stem e where b: "Base path = stem @ dot # e" "dot \<notin> set e" "Ext (Base path) = dot # e" using split_last_dot by blast
  then have stem: "TrimSuffix (Base path) (dot # e) = stem" by (simp add: TrimSuffix_def suffix_def)
  have low: "TrimPrefix (ToLower (dot # e)) ''.'' = ToLower e" by (simp add: TrimPrefix_def HasPrefix_def ToLower_def lower_dot) (simp add: dot_def)
  have "isLicence path \<longleftrightarrow> stem \<in> set [''LICENSE'', ''COPYING''] \<and> ToLower e \<in> set ['''', ''code'', ''docs'', ''libyaml'', ''md'', ''txt'']"
    unfolding isLicence_def Let_def b(3) stem low by auto
  moreover have "stem' = stem \<and> e' = e" if "Base path = stem' @ dot # e'" "dot \<notin> set e'" for stem' e'
    using b(1,3) that Ext_append [of e' stem'] by simp
  moreover have "dot \<notin> set stem'" if "stem' \<in> set [''LICENSE'', ''COPYING'']" for stem' using that by (auto simp: dot_def)
  ultimately show ?thesis using b True by metis
next
  case False
  then have e: "Ext (Base path) = []" by (simp add: Ext_def)
  have "isLicence path \<longleftrightarrow> Base path \<in> set [''LICENSE'', ''COPYING'']"
    unfolding isLicence_def Let_def e by (auto simp: TrimSuffix_def TrimPrefix_def HasPrefix_def ToLower_def)
  moreover have "Base path \<noteq> stem @ dot # e" for stem e using False by auto
  moreover have "ToLower [] \<in> set ['''', ''code'', ''docs'', ''libyaml'', ''md'', ''txt'']" "dot \<notin> set []" by (simp_all add: ToLower_def)
  ultimately show ?thesis by blast
qed

text \<open>Without errors every licence file is printed once, in the order of the walk, with its text.\<close>

theorem licensegen_output:
  assumes "\<forall>p\<in>set paths. isLicence p \<longrightarrow> (\<exists>lb. ReadFile p = Inr lb)"
  shows "licensegen ReadFile None paths =
    (concat (map (\<lambda>p. [''Name: '' @ p, ''License: '' @ (case ReadFile p of Inr lb \<Rightarrow> lb | Inl _ \<Rightarrow> [])]) (filter isLicence paths)), None)"
  using assms by (induction paths) auto

end
