(* ===== verification/Spec2Isabelle.thy ===== *)
theory Spec2Isabelle
  imports Node_Lock Vpc_Lock Lock_Order Multi_Queue Semaphored_Mutex Trigger Waitgroup Lock_Debug Lockfile Deep_Copy Ops_Workers Openstack_Pool Metadata Time_Backoff Registration Licensegen
begin

text \<open>
  This library models enipam, a Kubernetes controller that gives pods addresses of an OpenStack
  network, and proves what its components do. enipam watches subnets (a custom resource), nodes,
  namespaces and address pools (\<open>SpiderIPPool\<close> objects); it keeps caches of them, guards their
  removal with finalizers, and asks the infrastructure for ports.

  \<^bold>\<open>How programs are modelled.\<close> A statement is a function from a state to an outcome and a new state;
  the outcome is a value, a panic of a given kind, or being blocked (\<open>Prelude\<close>). Errors are values,
  machine integers wrap where they can (\<open>wrap64\<close>), a Go map is an association list with distinct
  keys, and the order of ranging over a map or a set is read from a tape in the state, so that a
  theorem about all states is a theorem about all orders (\<open>Go_Base\<close>). Pointers are options, nil
  slices differ from empty ones. The API server and the OpenStack services are parameters:
  records of functions on an unspecified world. Variables captured by closures that outlive their
  function live in explicit stores (\<open>Openstack\<close>, \<open>Infraops\<close>, \<open>Linked_List\<close>).

  \<^bold>\<open>Theories and sources\<close> (paths under \<open>src/pkg\<close> unless they start with \<open>cmd\<close>).
  \<^item> \<open>Hashset\<close>: the vendored set type, with the panics for nil and for values that cannot be hashed; the
    interface \<open>value_set\<close>.
  \<^item> \<open>Util\<close>: \<open>util/event.go\<close>, \<open>util/backoff.go\<close> with the retry loop it runs (four attempts),
    \<open>util/allocate.go\<close>. \<open>Strconv\<close>: the conversions of Go's library the sources use, with the round trip
    of printing and reading integers.
    \<open>Time_Backoff\<close>: \<open>TimeBackoff\<close> with the exponential policy on an explicit clock.
  \<^item> \<open>Linked_List\<close>, \<open>Multi_Queue\<close>: \<open>util/queue.go\<close> on a heap, refining lists; \<open>util/multiqueue.go\<close> over the
    interface \<open>heap_list\<close>.
  \<^item> \<open>Trigger\<close>: \<open>util/trigger.go\<close> as atomic actions of its goroutines with a clock: minimal interval
    between starts, no request lost, every request can be served.
  \<^item> \<open>Waitgroup\<close>, \<open>Semaphored_Mutex\<close>: \<open>lock/stoppable_waitgroup.go\<close> and \<open>lock/semaphored_mutex.go\<close> (with the
    weighted semaphore): refinement of a reference, all interleavings, exclusion, order, progress.
  \<^item> \<open>Lock_Debug\<close>: \<open>lock/lock_debug.go\<close>, \<open>lock_fast.go\<close>: the timed mutexes over any mutex that keeps the
    contract \<open>mutex_impl\<close> (\<open>rwmutex_impl\<close>), which they keep in turn, and the report of a slow holder's stack.
    \<open>Lockfile\<close>: \<open>lock/lockfile\<close> on the per-descriptor locks of Linux, with the goroutines of a cancelled \<open>Lock\<close>.
  \<^item> \<open>Deep_Copy\<close>: \<open>zz_generated.deepcopy.go\<close> on an explicit store of cells: the contract \<open>deep_copy\<close> (same
    object, new cells only, no interference) and its composition from fields to structs to lists.
  \<^item> \<open>K8s_Objects\<close>: the custom resource, the objects of other packages as far as they are touched, and
    the finalizer helpers. \<open>Ippool\<close>, \<open>Spiderpool\<close>: \<open>ippool/config.go\<close> and
    \<open>ippool/spiderpool/controller.go\<close>; the interface \<open>ippool_manager\<close> is the contract other
    controllers use, \<open>sp\<close> its interpretation.
  \<^item> \<open>Node\<close>: \<open>node/node.go\<close>, \<open>node/config.go\<close>, over the interface of the pools. \<open>Node_Lock\<close>: the same controller
    with its mutex and channel as steps of its goroutines: exclusion, the states in which nothing can
    move, and a reachable deadlock; \<open>node_Reconcile_section\<close> ties its critical section to \<open>node_Reconcile\<close>.
    \<open>Lock_Order\<close>: the mutexes of the pool, node and vpc controller together. Each operation is the sequence of its
    locks; the interface \<open>ranked_locks\<close> shows that operations which take mutexes in the order of a rank never
    deadlock, \<open>ctl\<close> is its interpretation on the controllers. The one case that breaks the order is characterised exactly.
  \<^item> \<open>Infra\<close>, \<open>Openstack\<close>: \<open>infra/interface.go\<close>, \<open>infra/controller.go\<close>, \<open>infra/config.go\<close> and
    \<open>infra/openstack.go\<close>: the record \<open>infra_client\<close> is the interface \<open>Client\<close>, \<open>openstack_client\<close> its
    implementation. Tasks handed to the two worker pools are kept in the state (50 at most
    each, as in the code) and run after the operation that submitted them; \<open>flights\<close> are calls of
    other goroutines that a request can join. \<open>Openstack_Auth\<close>: the constructors of that client over the SDK.
    \<open>Openstack_Pool\<close>: the loop of \<open>UpdatePort\<close> and the workers of its pool in any order.
  \<^item> \<open>Json\<close>, \<open>Metadata\<close>: \<open>infra/metadata/openstack.go\<close> over the scanner of \<open>encoding/json\<close>, which reads back what is
    printed (\<open>parse_print\<close>).
  \<^item> \<open>Vpc_Config\<close>, \<open>Vpc_Manager\<close>, \<open>Infraops\<close>: \<open>vpc/config.go\<close>, \<open>vpc/vpc.go\<close>, \<open>vpc/infraops.go\<close>.
    \<open>Vpc_Lock\<close>: the vpc controller with its mutex as steps of its goroutines; \<open>vpc_Reconcile_section\<close> ties its
    critical section to \<open>vpc_Reconcile\<close>. \<open>Ops_Workers\<close>: the goroutines of \<open>NewInfra\<close> and their channel.
  \<^item> \<open>Namespace_Ctrl\<close>: \<open>namespace/ns.go\<close>. \<open>Config\<close>: \<open>cmd/eni-controller/cmd/config.go\<close>.
    \<open>Startup\<close>: \<open>daemon.go\<close>, \<open>crd_manager.go\<close> and \<open>command_daemon.go\<close> there: flags, configuration file, the making and
    wiring of the controllers, the wait for signals. \<open>Registration\<close>: the scheme of kinds
    (\<open>k8s/apis/eni.io/v1alpha1\<close>) and the commands \<open>root\<close> and \<open>shutdown\<close>. \<open>Licensegen\<close>: the tool \<open>contrib/licensegen\<close>.
  \<^item> This theory: properties that span components.

  \<^bold>\<open>How the components interact.\<close> The pool controller caches \<open>SpiderIPPool\<close> objects; the node and the vpc
  controller delete pools through \<open>UpdatePool\<close> before they let go of a finalizer. All three
  controllers tell the vpc controller about changes through \<open>vpc_callback\<close>, which computes an event
  for each concerned subnet (\<open>getSubnatEvent\<close>, \<open>calPoolEvent\<close>); \<open>processSubnatWork\<close> turns an event into
  requests to the infrastructure client.

  \<^bold>\<open>What the theorems show.\<close> For the data structures and locks: correctness against a reference, for
  all inputs and all interleavings. For the controllers: what each branch of a reconciler does
  to the cache and to the server, that finalizers are taken off only when no cached pool is left,
  that well-formedness of the caches is kept. For \<open>calPoolEvent\<close>: no used address is released and
  the watermarks hold. Several theorems state, as precisely, that the code does less than it means
  to: the channel of the vpc controller is never made, so its callback is stuck as soon as a subnet
  is concerned; sets are given slices that cannot be hashed; the OpenStack client drops or never
  reaches its callbacks. As a consequence events have no effect (\<open>subnet_events_change_nothing\<close>) and a subnet for
  all nodes stops the node controller (\<open>wired_controllers_stop\<close>, \<open>node_hung_handler\<close>) and freezes the cache of the vpc
  controller for ever (\<open>vpc_controller_freezes\<close>).

  \<^bold>\<open>Bounds and fuel.\<close> The retry loop is a \<open>function\<close> with a measure. Walks over the heap of the linked
  list take the size of the list as fuel; the refinement lemmas show that it is enough. The loop
  of \<open>processWork\<close> is run on an arbitrary list of turns. The loop of \<open>TimeBackoff\<close> takes fuel;
  \<open>TimeBackoff_returns\<close> shows that nine attempts are enough.

  The step models take turns from a list; that every run of \<open>Lock_Order\<close> and \<open>Openstack_Pool\<close> ends is proved with a bound on
  its length. The scanner of JSON goes through the text once and needs no fuel.

  \<^bold>\<open>Not modelled\<close>: what the controller runtime does after a controller is registered (watches, work queues, leader election) and the
  goroutine of its manager beyond its start, which are third-party code; the transport of HTTP; the detector of
  deadlocks inside the debug mutexes; floating point rounding of the random waits; metrics and logging. \<open>Lock_Order\<close> leaves out what
  an operation does between its locks, its panics and the channels, which \<open>Node_Lock\<close> and \<open>Vpc_Lock\<close> treat one
  controller at a time. In \<open>Openstack\<close> tasks run after the operation that submits them; \<open>Openstack_Pool\<close> lifts this for the
  creation of ports without waiting, the one batch the program uses. Structs that no code uses and
  the list of build tools have no model.
\<close>

section \<open>From the environment to the vpc controller\<close>

lemma parse_ids:
  assumes "ParseConfiguration env c = (Returned None, c')"
  shows "DefaultSubnatId (cfg_Vpc c') = resolve env (strConf ''ENI_OPENSTACK_DEFAULT_SUBNAT_ID'' '''' True (\<lambda>v. onVpc (\<lambda>p. p\<lparr>DefaultSubnatId := v\<rparr>)))"
    and "DefaultProjectId (cfg_Vpc c') = resolve env (strConf ''ENI_OPENSTACK_DEFAULT_PROJECT_ID'' '''' True (\<lambda>v. onVpc (\<lambda>p. p\<lparr>DefaultProjectId := v\<rparr>)))"
proof -
  let ?a = "strConf ''ENI_OPENSTACK_DEFAULT_SUBNAT_ID'' '''' True (\<lambda>v. onVpc (\<lambda>p. p\<lparr>DefaultSubnatId := v\<rparr>))"
  let ?b = "strConf ''ENI_OPENSTACK_DEFAULT_PROJECT_ID'' '''' True (\<lambda>v. onVpc (\<lambda>p. p\<lparr>DefaultProjectId := v\<rparr>))"
  let ?step = "\<lambda>c e. if resolve env e = [] then c else case storeEntry e (resolve env e) c of Inl _ \<Rightarrow> c | Inr c' \<Rightarrow> c'"
  obtain es where es: "envInfo = es @ [?a, ?b]" by (simp add: envInfo_def)
  have ok: "\<forall>e\<in>set envInfo. entryOk env e"
    using assms parseLoop_ok_iff [OF envInfo_oneKey, of env c] by (simp add: ParseConfiguration_def)
  then have ne: "resolve env ?a \<noteq> []" "resolve env ?b \<noteq> []"
    unfolding es by (auto simp: entryOk_def strConf_def)
  have "c' = foldl ?step c (es @ [?a, ?b])"
    using fold_of_success [of env envInfo c c'] assms unfolding es by (simp add: ParseConfiguration_def es)
  then have "c' = ?step (?step (foldl ?step c es) ?a) ?b" by simp
  then show "DefaultSubnatId (cfg_Vpc c') = resolve env ?a" "DefaultProjectId (cfg_Vpc c') = resolve env ?b"
    using ne by (simp_all add: storeEntry_def strConf_def onVpc_def)
qed

text \<open>
  A configuration that \<open>ParseConfiguration\<close> accepts always carries the ids the vpc controller insists
  on: \<open>NewManager\<close> then fails only if registering it fails.
\<close>

theorem parsed_config_accepted:
  assumes "ParseConfiguration env c = (Returned None, c')"
  shows "vpc_NewManager (cfg_Vpc c') probe = (Some [], probe)"
proof -
  have "\<forall>e\<in>set envInfo. entryOk env e"
    using assms parseLoop_ok_iff [OF envInfo_oneKey, of env c] by (simp add: ParseConfiguration_def)
  then have "entryOk env (strConf ''ENI_OPENSTACK_DEFAULT_SUBNAT_ID'' '''' True (\<lambda>v. onVpc (\<lambda>p. p\<lparr>DefaultSubnatId := v\<rparr>)))"
    "entryOk env (strConf ''ENI_OPENSTACK_DEFAULT_PROJECT_ID'' '''' True (\<lambda>v. onVpc (\<lambda>p. p\<lparr>DefaultProjectId := v\<rparr>)))"
    by (simp_all add: envInfo_def)
  then have "DefaultSubnatId (cfg_Vpc c') \<noteq> []" "DefaultProjectId (cfg_Vpc c') \<noteq> []"
    unfolding parse_ids [OF assms] by (auto simp: entryOk_def strConf_def split: if_splits)
  then show ?thesis by (simp add: vpc_NewManager_def)
qed

theorem parsed_config_accepted_witness:
  "\<exists>c'. ParseConfiguration ex_env zeroConfig = (Returned None, c') \<and> vpc_NewManager (cfg_Vpc c') None = (Some [], None)"
proof -
  have "fst (ParseConfiguration ex_env zeroConfig) = Returned None"
    unfolding ParseConfiguration_def parseLoop_ok_iff [OF envInfo_oneKey]
    by (simp add: envInfo_def entryOk_def strConf_def boolConf_def intConf_def resolve_def ex_env_def ex_env_trim
        Atoi_defaults ParseBool_def OpenstackType_def)
  then obtain c' where "ParseConfiguration ex_env zeroConfig = (Returned None, c')"
    by (cases "ParseConfiguration ex_env zeroConfig") simp
  with parsed_config_accepted [of ex_env zeroConfig c' None] show ?thesis by blast
qed

section \<open>The vpc controller over the OpenStack client\<close>

text \<open>
  Over the OpenStack client the watermarks of a pool are never enforced: \<open>calPoolEvent\<close> looks the main
  interface up by an address, the client only looks ports up by their id, and the pool is left
  alone with an error. No request is sent, whatever the pool and the policy are.
\<close>

theorem openstack_pools_never_resized:
  "calPoolEvent (openstack_client call c) pm (Some sn) (Some po) (Some plev) s =
     (Done (Some (Errorf ''not found interface by id %s'' [MainId po]), Some plev), s)"
  by (simp add: calPoolEvent_def openstack_client_def os_GetInterface_def emptyOpt_def)

text \<open>
  (C34) From an event to the infrastructure: whatever event the vpc controller computes for a cached subnet,
  processing it with the OpenStack client lists the ports of the subnet once and does nothing
  else. No port is ever created, attached, assigned or removed on behalf of a subnet.
\<close>

theorem subnet_events_change_nothing:
  fixes s :: "('w, 'z) node_ctrl_scheme" and so :: "('v, 'y) ops_state_scheme"
  assumes "wf_set (sn_Node sn)" and "sn_Id sn \<noteq> []"
    and ev: "getSubnatEvent c api pm (node_manager_of npm) (Some sn) s = (Done (Some ev), s')"
    and "ports_List cl (listOpts (emptyOpt\<lparr>o_Project := sn_projectId sn, o_Vpc := sn_vpcId sn, o_Subnet := sn_Id sn\<rparr>)) (world so) = (pages, w)"
  shows "\<exists>t. processSubnatWork (openstack_client ops_call cl) (Some ev) so =
    (Done (), so\<lparr>ops_frames := ops_frames so @ [\<lparr>of_wg = 0, of_pairs = []\<rparr>], world := w, tape := t\<rparr>)"
proof -
  have "isDone (getSubnatEvent c api pm (node_manager_of npm) (Some sn) s)" using ev by simp
  then have "ev = \<lparr>se_vpcId = sn_vpcId sn, se_projectId = sn_projectId sn, se_subnatId = sn_Id sn,
      se_subnatName = sn_Name sn, se_nodes = []\<rparr>"
    using event_empty [OF assms(1), of s c api pm npm] ev by (auto split: if_splits)
  then show ?thesis using process_no_nodes [of ev cl so pages w] assms(2,4) by simp
qed

theorem subnet_events_change_nothing_witness:
  "\<exists>ev s' t. getSubnatEvent (vpc_answering (Inr ex_subnet)) ex_api idle_pools (node_manager_of idle_pools)
      (Some (ex_sn\<lparr>sn_Node := Some [], sn_Id := ''s''\<rparr>)) ex_vpc = (Done (Some ev), s') \<and>
    processSubnatWork (openstack_client ops_call demoCloud) (Some ev) ex_ops =
      (Done (), ex_ops\<lparr>ops_frames := [\<lparr>of_wg = 0, of_pairs = []\<rparr>], world := 1, tape := t\<rparr>)"
proof -
  let ?sn = "ex_sn\<lparr>sn_Node := Some [], sn_Id := ''s''\<rparr>"
  have wf: "wf_set (sn_Node ?sn)" "sn_Id ?sn \<noteq> []" by simp_all
  obtain ev s' where ev: "getSubnatEvent (vpc_answering (Inr ex_subnet)) ex_api idle_pools (node_manager_of idle_pools)
      (Some ?sn) ex_vpc = (Done (Some ev), s')"
    using event_empty [OF wf(1), of ex_vpc "vpc_answering (Inr ex_subnet)" ex_api idle_pools idle_pools] by auto
  obtain pages where "ports_List demoCloud (listOpts (emptyOpt\<lparr>o_Project := sn_projectId ?sn, o_Vpc := sn_vpcId ?sn, o_Subnet := sn_Id ?sn\<rparr>))
      (world ex_ops) = (pages, 1)" by (simp add: demoCloud_def ex_ops_def)
  from subnet_events_change_nothing [OF wf ev this] ev show ?thesis by (auto simp: ex_ops_def)
qed

section \<open>The wired process\<close>

text \<open>The callbacks of the node and the namespace controller, as the wiring leaves them.\<close>

definition node_fns :: "('c, 'q, vpc_arg \<Rightarrow> ('s, unit) go) wiring \<Rightarrow> (NodeInfo option \<Rightarrow> ('s, unit) go) option list" where
  "node_fns w = map (map_option (\<lambda>f ori. f (NodeArg ori))) (node_postfns w)"

definition ns_fns :: "('c, 'q, vpc_arg \<Rightarrow> ('s, unit) go) wiring \<Rightarrow> (NamespaceObj \<Rightarrow> ('s, unit) go) option list" where
  "ns_fns w = map (map_option (\<lambda>f o1. f (NamespaceArg (metaName (ns_meta o1))))) (ns_postfns w)"

text \<open>
  (C35) In the wired process, a round of the node controller's handler returns exactly when no cached subnet
  is concerned by the announced node, and a namespace is reconciled exactly when no cached subnet is
  concerned by it: one subnet that takes all nodes or namespaces is enough to stop both
  controllers for ever.
\<close>

theorem wired_controllers_stop:
  fixes s :: "('v, 'z) vpc_ctrl_scheme"
  assumes up: "initControllerServiceManagers k h (\<lambda>oc. vpc_callback c (api oc) pm nm) cfg s0 = (Done (Inr w), s0')"
    and ch: "node_ch s = name # rest"
    and get: "get n (world s) = (Inr inp, v)"
  shows "(isDone (node_handlerCallback (node_fns w) s) \<longleftrightarrow>
      (\<forall>sn\<in>set (map snd (subnats s)). concerned (NodeArg (map_option node_DeepCopy (lookup (nodes s) name))) sn = Done False)) \<and>
    (isDone (ns_Reconcile get (ns_fns w) n s) \<longleftrightarrow>
      (\<forall>sn\<in>set (map snd (subnats s)). concerned (NamespaceArg (metaName (ns_meta inp))) sn = Done False))"
proof -
  note made = wiring_made [OF up, of "\<lambda>_. Inr ()"]
  have "node_fns w = [Some (\<lambda>ori. vpc_callback c (api (wired_api w)) pm nm (NodeArg ori))]"
    "ns_fns w = [Some (\<lambda>o1. vpc_callback c (api (wired_api w)) pm nm (NamespaceArg (metaName (ns_meta o1))))]"
    using made by (simp_all add: node_fns_def ns_fns_def)
  then have "node_handlerCallback (node_fns w) s = andThen (vpc_callback c (api (wired_api w)) pm nm
        (NodeArg (map_option node_DeepCopy (lookup (nodes s) name)))) (\<lambda>_. ret ()) (s\<lparr>node_ch := rest\<rparr>)"
    "ns_Reconcile get (ns_fns w) n s = andThen (andThen (vpc_callback c (api (wired_api w)) pm nm
        (NamespaceArg (metaName (ns_meta inp)))) (\<lambda>_. ret ())) (\<lambda>_. ret None) (s\<lparr>world := v\<rparr>)"
    using ch get by (simp_all add: node_handlerCallback_def ns_Reconcile_def)
  then show ?thesis by (simp add: isDone_andThen_ret vpc_callback_returns_iff)
qed

theorem wired_controllers_stop_witness:
  "\<exists>w s0' sn. initControllerServiceManagers demoSdk demoHost
      (\<lambda>oc. vpc_callback (vpc_answering (Inr ex_subnet)) ex_api idle_pools (node_manager_of idle_pools)) demoConfig
      \<lparr>world = 0, tape = []\<rparr> = (Done (Inr w), s0') \<and> allnode sn \<and>
    \<not> isDone (node_handlerCallback (node_fns w) (ex_vpc\<lparr>node_ch := [''n1''], subnats := [(''sub'', sn)]\<rparr>)) \<and>
    isDone (node_handlerCallback (node_fns w) (ex_vpc\<lparr>node_ch := [''n1''], subnats := []\<rparr>))"
proof -
  let ?cb = "\<lambda>oc :: (nat \<times> int, int) OpenstackClient. vpc_callback (vpc_answering (Inr ex_subnet)) ex_api idle_pools (node_manager_of idle_pools)"
  let ?get = "\<lambda>n w. (Inr \<lparr>ns_meta = emptyMeta\<rparr>, w)"
  obtain w s0' where w: "initControllerServiceManagers demoSdk demoHost ?cb demoConfig \<lparr>world = 0, tape = []\<rparr> = (Done (Inr w), s0')"
    using demo_wiring [of "\<lparr>world = 0, tape = []\<rparr>" ?cb] by auto
  let ?sn = "ex_sn\<lparr>allnode := True\<rparr>"
  let ?s = "\<lambda>m. ex_vpc\<lparr>node_ch := [''n1''], subnats := m\<rparr>"
  have "\<not> isDone (node_handlerCallback (node_fns w) (?s [(''sub'', ?sn)]))" "isDone (node_handlerCallback (node_fns w) (?s []))"
    using wired_controllers_stop [OF w, of "?s [(''sub'', ?sn)]" "''n1''" "[]" ?get "[]" "\<lparr>ns_meta = emptyMeta\<rparr>"]
      wired_controllers_stop [OF w, of "?s []" "''n1''" "[]" ?get "[]" "\<lparr>ns_meta = emptyMeta\<rparr>"] by simp_all
  then show ?thesis using w by (intro exI [of _ w] exI [of _ s0'] exI [of _ ?sn]) simp
qed

end
